(* ===== verification/Prelude.thy ===== *)
theory Prelude
  imports Main "HOL-Library.AList" "HOL-Library.Multiset" "HOL-Library.Word"
    "HOL-Library.While_Combinator"
begin

text \<open>
  Shared vocabulary of the development: the machine integer types of the C++ sources, the
  exceptions that the standard library raises, and the loop combinators that model a range-based
  \<open>for\<close> whose body may throw (\<open>for_each\<close>) or be undefined (\<open>fold_opt\<close>), with their invariant rules.
\<close>

section \<open>Machine integers and exceptions\<close>

type_synonym u16 = "16 word"
type_synonym u32 = "32 word"
type_synonym u64 = "64 word"
type_synonym size_t = "64 word"

datatype cxx_exn =
    Out_of_range
  | Length_error
  | Bad_weak_ptr
  | Invalid_argument
  | Bad_field_access
  | System_error

type_synonym 'a result = "cxx_exn + 'a"

definition static_cast_int :: "int \<Rightarrow> int" where
  "static_cast_int x = signed_take_bit 31 x"

definition static_cast_size_t :: "int \<Rightarrow> size_t" where
  "static_cast_size_t x = word_of_int x"

definition int_range :: "int \<Rightarrow> bool" where
  "int_range x \<longleftrightarrow> - (2 ^ 31) \<le> x \<and> x < 2 ^ 31"

named_theorems cast_simps
named_theorems loop_simps
named_theorems umap_simps

lemma static_cast_int_id [cast_simps]: "int_range x \<Longrightarrow> static_cast_int x = x"
  by (simp add: static_cast_int_def int_range_def signed_take_bit_int_eq_self)

lemma static_cast_int_range: "int_range (static_cast_int x)"
  unfolding static_cast_int_def int_range_def
  using signed_take_bit_int_greater_eq_minus_exp[of 31 x] signed_take_bit_int_less_exp[of 31 x]
  by simp

section \<open>A range-based for loop whose body may throw\<close>

primrec for_each :: "('a \<Rightarrow> 's \<Rightarrow> 's result) \<Rightarrow> 'a list \<Rightarrow> 's \<Rightarrow> 's result" where
  "for_each body [] s = Inr s"
| "for_each body (x # xs) s =
     (case body x s of Inl e \<Rightarrow> Inl e | Inr s' \<Rightarrow> for_each body xs s')"

lemma for_each_append:
  "for_each body (xs @ ys) s =
     (case for_each body xs s of Inl e \<Rightarrow> Inl e | Inr s' \<Rightarrow> for_each body ys s')"
  by (induction xs arbitrary: s) (auto split: sum.split)

text \<open>A body that throws for no element of the list makes the loop a plain fold.\<close>

lemma for_each_total [loop_simps]:
  "(\<And>x s. x \<in> set xs \<Longrightarrow> body x s = Inr (f x s)) \<Longrightarrow> for_each body xs s = Inr (fold f xs s)"
  by (induction xs arbitrary: s) auto

text \<open>The invariant rule for a loop that is a fold.\<close>

lemma fold_invariant:
  assumes "P s" and "\<And>x s. x \<in> set xs \<Longrightarrow> P s \<Longrightarrow> P (f x s)"
  shows "P (fold f xs s)"
  using assms by (induction xs arbitrary: s) auto

lemma for_each_invariant:
  assumes "for_each body xs s = Inr s'" and "P s"
    and "\<And>x s t. x \<in> set xs \<Longrightarrow> P s \<Longrightarrow> body x s = Inr t \<Longrightarrow> P t"
  shows "P s'"
  using assms
proof (induction xs arbitrary: s)
  case Nil
  then show ?case by simp
next
  case (Cons x xs)
  then obtain t where "body x s = Inr t" and "for_each body xs t = Inr s'"
    by (auto split: sum.splits)
  with Cons show ?case by (meson list.set_intros)
qed

text \<open>The same loop over a body that may be undefined or not return.\<close>

primrec fold_opt :: "('a \<Rightarrow> 's \<Rightarrow> 's option) \<Rightarrow> 'a list \<Rightarrow> 's \<Rightarrow> 's option" where
  "fold_opt body [] s = Some s"
| "fold_opt body (x # xs) s = (case body x s of None \<Rightarrow> None | Some s' \<Rightarrow> fold_opt body xs s')"

lemma fold_opt_invariant:
  assumes "fold_opt body xs s = Some s'" and "P s"
    and "\<And>x s t. x \<in> set xs \<Longrightarrow> P s \<Longrightarrow> body x s = Some t \<Longrightarrow> P t"
  shows "P s'"
  using assms
proof (induction xs arbitrary: s)
  case (Cons x xs)
  then obtain t where "body x s = Some t" and "fold_opt body xs t = Some s'"
    by (auto split: option.splits)
  with Cons show ?case by (meson list.set_intros)
qed simp

lemma fold_opt_append:
  "fold_opt body (xs @ ys) s
     = (case fold_opt body xs s of None \<Rightarrow> None | Some s' \<Rightarrow> fold_opt body ys s')"
  by (induction xs arbitrary: s) (auto split: option.split)

lemma fold_opt_total:
  assumes "P s" and "\<And>x s. x \<in> set xs \<Longrightarrow> P s \<Longrightarrow> \<exists>t. body x s = Some t \<and> P t"
  shows "\<exists>t. fold_opt body xs s = Some t \<and> P t"
  using assms
proof (induction xs arbitrary: s)
  case (Cons x xs)
  then obtain t where "body x s = Some t" "P t" by (meson list.set_intros(1))
  with Cons show ?case by auto
qed simp

section \<open>Calls that may throw or not return\<close>

text \<open>A call followed by a continuation on its value: an exception is passed on.\<close>

lemma bind_result_Some:
  "Option.bind m (\<lambda>res. case res of Inl ex \<Rightarrow> Some (Inl ex) | Inr y \<Rightarrow> k y) = Some (Inr z)
     \<longleftrightarrow> (\<exists>y. m = Some (Inr y) \<and> k y = Some (Inr z))"
  by (cases m) (auto split: sum.splits)

text \<open>The call returns a value with the property \<open>P\<close>.\<close>

definition returns :: "'a result option \<Rightarrow> ('a \<Rightarrow> bool) \<Rightarrow> bool" where
  "returns r P = (case r of Some (Inr x) \<Rightarrow> P x | _ \<Rightarrow> False)"

lemma returns_iff: "returns r P \<longleftrightarrow> (\<exists>x. r = Some (Inr x) \<and> P x)"
  by (auto simp: returns_def split: option.splits sum.splits)

end
