(* ===== verification/Grid.thy ===== *)
theory Grid
  imports Prelude
begin

text \<open>
  Points and grids of \<open>tower/system/container/grid.hpp\<close>. A \<open>Point\<close> holds two C++ \<open>int\<close>s,
  kept as mathematical integers: signed overflow is undefined in C++, so the mathematical value
  is the only value a conforming run can compute. The conversions between \<open>int\<close> and
  \<open>size_t\<close> that the member functions perform implicitly are written out with
  \<open>static_cast_int\<close> and \<open>static_cast_size_t\<close>. \<open>Grid::at\<close> on a constant grid is the checked
  \<open>vector::at\<close> and may throw; on a mutable grid it is the unchecked \<open>operator[]\<close>, whose
  undefined behaviour out of range is the value \<open>None\<close>.
\<close>

section \<open>Points\<close>

datatype point = Point (pt_r: int) (pt_c: int)

definition point_add :: "point \<Rightarrow> point \<Rightarrow> point" where
  "point_add p q = Point (pt_r p + pt_r q) (pt_c p + pt_c q)"

instantiation point :: plus
begin

definition plus_point :: "point \<Rightarrow> point \<Rightarrow> point" where
  "plus_point = point_add"

instance ..

end

lemma pt_plus [simp]:
  "pt_r (p + q) = pt_r p + pt_r q" "pt_c (p + q) = pt_c p + pt_c q"
  "Point a b + Point c d = Point (a + c) (b + d)"
  by (simp_all add: plus_point_def point_add_def)

definition point_of_size_t :: "size_t \<Rightarrow> size_t \<Rightarrow> point" where
  "point_of_size_t r c = Point (static_cast_int (uint r)) (static_cast_int (uint c))"

definition manhattan_distance :: "point \<Rightarrow> point \<Rightarrow> int" where
  "manhattan_distance p q = \<bar>pt_r p - pt_r q\<bar> + \<bar>pt_c p - pt_c q\<bar>"

section \<open>Grids\<close>

record 'a grid =
  grid_rows :: size_t
  grid_cols :: size_t
  grid_data :: "'a list"

text \<open>
  The two constructors: one value-initialises \<open>rows * cols\<close> cells (\<open>resize\<close>; the product is
  a \<open>size_t\<close> product), the other takes the cells.
\<close>

definition grid_sized :: "'a \<Rightarrow> size_t \<Rightarrow> size_t \<Rightarrow> 'a grid" where
  "grid_sized zero rows cols =
     \<lparr>grid_rows = rows, grid_cols = cols, grid_data = replicate (unat (rows * cols)) zero\<rparr>"

definition grid_of_data :: "'a list \<Rightarrow> size_t \<Rightarrow> size_t \<Rightarrow> 'a grid" where
  "grid_of_data d rows cols = \<lparr>grid_rows = rows, grid_cols = cols, grid_data = d\<rparr>"

definition grid_index :: "'a grid \<Rightarrow> size_t \<Rightarrow> size_t \<Rightarrow> nat" where
  "grid_index g r c = unat (r * grid_cols g + c)"

text \<open>\<open>at\<close> of a constant grid: bounds-checked.\<close>

definition grid_at_i :: "'a grid \<Rightarrow> size_t \<Rightarrow> 'a result" where
  "grid_at_i g i =
     (if unat i < length (grid_data g) then Inr (grid_data g ! unat i) else Inl Out_of_range)"

definition grid_at_rc :: "'a grid \<Rightarrow> size_t \<Rightarrow> size_t \<Rightarrow> 'a result" where
  "grid_at_rc g r c = grid_at_i g (r * grid_cols g + c)"

definition grid_at :: "'a grid \<Rightarrow> point \<Rightarrow> 'a result" where
  "grid_at g p = grid_at_rc g (static_cast_size_t (pt_r p)) (static_cast_size_t (pt_c p))"

text \<open>\<open>at\<close> of a mutable grid: unchecked; \<open>None\<close> is undefined behaviour.\<close>

definition grid_ref_i :: "'a grid \<Rightarrow> size_t \<Rightarrow> 'a option" where
  "grid_ref_i g i =
     (if unat i < length (grid_data g) then Some (grid_data g ! unat i) else None)"

definition grid_ref :: "'a grid \<Rightarrow> point \<Rightarrow> 'a option" where
  "grid_ref g p =
     grid_ref_i g (static_cast_size_t (pt_r p) * grid_cols g + static_cast_size_t (pt_c p))"

definition grid_assign_i :: "'a grid \<Rightarrow> size_t \<Rightarrow> 'a \<Rightarrow> 'a grid option" where
  "grid_assign_i g i v =
     (if unat i < length (grid_data g)
      then Some (g\<lparr>grid_data := (grid_data g)[unat i := v]\<rparr>) else None)"

definition is_inside_rc :: "'a grid \<Rightarrow> int \<Rightarrow> int \<Rightarrow> bool" where
  "is_inside_rc g r c \<longleftrightarrow>
     r \<ge> 0 \<and> c \<ge> 0 \<and> r < static_cast_int (uint (grid_rows g))
     \<and> c < static_cast_int (uint (grid_cols g))"

definition is_inside :: "'a grid \<Rightarrow> point \<Rightarrow> bool" where
  "is_inside g p = is_inside_rc g (pt_r p) (pt_c p)"

definition is_inside_i :: "'a grid \<Rightarrow> size_t \<Rightarrow> bool" where
  "is_inside_i g i \<longleftrightarrow> i < grid_rows g * grid_cols g"

text \<open>\<open>is_blocked\<close> at the instance the server uses, \<open>Grid<bool>\<close>: the cast to \<open>bool\<close> is
  the identity.\<close>

definition is_blocked :: "bool grid \<Rightarrow> point \<Rightarrow> bool result" where
  "is_blocked g p = grid_at g p"

definition adjacents4_rc :: "'a grid \<Rightarrow> size_t \<Rightarrow> size_t \<Rightarrow> point list" where
  "adjacents4_rc g r c =
     (if \<not> is_inside_rc g (static_cast_int (uint r)) (static_cast_int (uint c)) then []
      else (if r < grid_rows g - 1 then [point_of_size_t (r + 1) c] else [])
         @ (if r \<ge> 1 then [point_of_size_t (r - 1) c] else [])
         @ (if c < grid_cols g - 1 then [point_of_size_t r (c + 1)] else [])
         @ (if c \<ge> 1 then [point_of_size_t r (c - 1)] else []))"

definition get_4way_adjacents :: "'a grid \<Rightarrow> point \<Rightarrow> point list" where
  "get_4way_adjacents g p =
     adjacents4_rc g (static_cast_size_t (pt_r p)) (static_cast_size_t (pt_c p))"

definition adjacents8_rc :: "'a grid \<Rightarrow> size_t \<Rightarrow> size_t \<Rightarrow> point list" where
  "adjacents8_rc g r c =
     (if \<not> is_inside_rc g (static_cast_int (uint r)) (static_cast_int (uint c)) then []
      else (if r < grid_rows g - 1 then [point_of_size_t (r + 1) c] else [])
         @ (if r \<ge> 1 then [point_of_size_t (r - 1) c] else [])
         @ (if c < grid_cols g - 1 then [point_of_size_t r (c + 1)] else [])
         @ (if c \<ge> 1 then [point_of_size_t r (c - 1)] else [])
         @ (if r < grid_rows g - 1 \<and> c < grid_cols g - 1
            then [point_of_size_t (r + 1) (c + 1)] else [])
         @ (if r < grid_rows g - 1 \<and> c \<ge> 1 then [point_of_size_t (r + 1) (c - 1)] else [])
         @ (if r \<ge> 1 \<and> c < grid_cols g - 1 then [point_of_size_t (r - 1) (c + 1)] else [])
         @ (if r \<ge> 1 \<and> c \<ge> 1 then [point_of_size_t (r - 1) (c - 1)] else []))"

definition get_8way_adjacents :: "'a grid \<Rightarrow> point \<Rightarrow> point list" where
  "get_8way_adjacents g p =
     adjacents8_rc g (static_cast_size_t (pt_r p)) (static_cast_size_t (pt_c p))"

section \<open>Well-formed grids\<close>

text \<open>
  A grid is well formed when its cell vector has \<open>rows * cols\<close> entries and both sides fit a
  C++ \<open>int\<close>; \<open>Zone::create\<close> checks the first before it fills a grid.
\<close>

definition wf_grid :: "'a grid \<Rightarrow> bool" where
  "wf_grid g \<longleftrightarrow>
     int (length (grid_data g)) = uint (grid_rows g) * uint (grid_cols g)
     \<and> uint (grid_rows g) < 2 ^ 31 \<and> uint (grid_cols g) < 2 ^ 31"

definition nrows :: "'a grid \<Rightarrow> int" where
  "nrows g = uint (grid_rows g)"

definition ncols :: "'a grid \<Rightarrow> int" where
  "ncols g = uint (grid_cols g)"

lemma static_cast_int_uint:
  "uint (w :: size_t) < 2 ^ 31 \<Longrightarrow> static_cast_int (uint w) = uint w"
  by (rule static_cast_int_id) (simp add: int_range_def order.trans[OF _ uint_ge_0])

lemma is_inside_iff:
  assumes "wf_grid g"
  shows "is_inside g p \<longleftrightarrow> 0 \<le> pt_r p \<and> pt_r p < nrows g \<and> 0 \<le> pt_c p \<and> pt_c p < ncols g"
  using assms by (auto simp: is_inside_def is_inside_rc_def wf_grid_def nrows_def ncols_def
      static_cast_int_uint)

lemma unat_static_cast:
  assumes "0 \<le> x" "x < 2 ^ 64"
  shows "unat (static_cast_size_t x) = nat x"
  using assms by (simp add: static_cast_size_t_def unat_eq_nat_uint uint_word_of_int)

lemma cell_index_bound:
  assumes "(0::int) \<le> r" "r < R" "0 \<le> c" "c < C"
  shows "r * C + c < R * C"
proof -
  have "r * C + c < (r + 1) * C" using assms by (simp add: algebra_simps)
  also have "\<dots> \<le> R * C" using assms by (intro mult_right_mono) auto
  finally show ?thesis .
qed

lemma inside_index:
  assumes "wf_grid g" "is_inside g p"
  shows "unat (static_cast_size_t (pt_r p) * grid_cols g + static_cast_size_t (pt_c p))
           = nat (pt_r p * ncols g + pt_c p)"
    and "nat (pt_r p * ncols g + pt_c p) < length (grid_data g)"
proof -
  have in4: "0 \<le> pt_r p" "pt_r p < nrows g" "0 \<le> pt_c p" "pt_c p < ncols g"
    using assms is_inside_iff by blast+
  have sides: "nrows g < 2 ^ 31" "ncols g < 2 ^ 31"
    using assms(1) by (auto simp: wf_grid_def nrows_def ncols_def)
  have lt: "pt_r p * ncols g + pt_c p < nrows g * ncols g"
    using in4 by (rule cell_index_bound)
  have "nrows g * ncols g \<le> 2 ^ 31 * 2 ^ 31"
    using sides in4 by (intro mult_mono) auto
  with lt have lt64: "pt_r p * ncols g + pt_c p < 2 ^ 64" by simp
  have "uint (static_cast_size_t (pt_r p) * grid_cols g + static_cast_size_t (pt_c p))
          = (pt_r p * ncols g + pt_c p) mod 2 ^ 64"
    by (simp add: static_cast_size_t_def uint_word_ariths uint_word_of_int ncols_def mod_simps)
  also have "\<dots> = pt_r p * ncols g + pt_c p"
    using lt64 in4 by (intro mod_pos_pos_trivial) auto
  finally show "unat (static_cast_size_t (pt_r p) * grid_cols g + static_cast_size_t (pt_c p))
           = nat (pt_r p * ncols g + pt_c p)"
    by (simp add: unat_eq_nat_uint)
  have "int (length (grid_data g)) = nrows g * ncols g"
    using assms(1) by (simp add: wf_grid_def nrows_def ncols_def)
  moreover have "0 \<le> pt_r p * ncols g + pt_c p" using in4 by simp
  ultimately show "nat (pt_r p * ncols g + pt_c p) < length (grid_data g)"
    using lt by linarith
qed

text \<open>The obstacle at a cell of a well-formed grid.\<close>

definition cell :: "'a grid \<Rightarrow> point \<Rightarrow> 'a" where
  "cell g p = grid_data g ! nat (pt_r p * ncols g + pt_c p)"

lemma grid_at_inside:
  assumes "wf_grid g" "is_inside g p"
  shows "grid_at g p = Inr (cell g p)"
  using inside_index[OF assms] by (simp add: grid_at_def grid_at_rc_def grid_at_i_def cell_def)

lemma grid_ref_inside:
  assumes "wf_grid g" "is_inside g p"
  shows "grid_ref g p = Some (cell g p)"
  using inside_index[OF assms] by (simp add: grid_ref_def grid_ref_i_def cell_def)

lemma is_blocked_inside [simp]:
  "wf_grid g \<Longrightarrow> is_inside g p \<Longrightarrow> is_blocked g p = Inr (cell g p)"
  by (simp add: is_blocked_def grid_at_inside)

section \<open>Adjacency\<close>

definition adj4 :: "point \<Rightarrow> point \<Rightarrow> bool" where
  "adj4 p q \<longleftrightarrow> \<bar>pt_r p - pt_r q\<bar> + \<bar>pt_c p - pt_c q\<bar> = 1"

definition adj8 :: "point \<Rightarrow> point \<Rightarrow> bool" where
  "adj8 p q \<longleftrightarrow> p \<noteq> q \<and> \<bar>pt_r p - pt_r q\<bar> \<le> 1 \<and> \<bar>pt_c p - pt_c q\<bar> \<le> 1"

text \<open>How the \<open>size_t\<close> arithmetic of the neighbour functions reads on a coordinate of a cell.\<close>

lemma coord_cast:
  assumes "0 \<le> x" "x < uint (n :: size_t)" "uint n < 2 ^ 31"
  shows "uint (static_cast_size_t x) = x"
    and "uint (static_cast_size_t x + 1) = x + 1"
    and "x \<ge> 1 \<Longrightarrow> uint (static_cast_size_t x - 1) = x - 1"
    and "static_cast_size_t x < n - 1 \<longleftrightarrow> x + 1 < uint n"
    and "static_cast_size_t x \<ge> 1 \<longleftrightarrow> x \<ge> 1"
proof -
  show u: "uint (static_cast_size_t x) = x"
    using assms by (simp add: static_cast_size_t_def uint_word_of_int)
  show "uint (static_cast_size_t x + 1) = x + 1"
    using assms u by (simp add: uint_word_ariths mod_pos_pos_trivial)
  show "uint (static_cast_size_t x - 1) = x - 1" if "x \<ge> 1"
    using assms u that by (simp add: uint_word_ariths mod_pos_pos_trivial)
  have "uint (n - 1) = uint n - 1"
    using assms by (simp add: uint_word_ariths mod_pos_pos_trivial)
  then show "static_cast_size_t x < n - 1 \<longleftrightarrow> x + 1 < uint n"
    using u by (auto simp: word_less_def)
  show "static_cast_size_t x \<ge> 1 \<longleftrightarrow> x \<ge> 1"
    using u by (simp add: word_le_def)
qed

lemma adjacents8_int:
  assumes "wf_grid g" "is_inside g p"
  shows "get_8way_adjacents g p =
    (let r = pt_r p; c = pt_c p in
       (if r + 1 < nrows g then [Point (r + 1) c] else [])
     @ (if r \<ge> 1 then [Point (r - 1) c] else [])
     @ (if c + 1 < ncols g then [Point r (c + 1)] else [])
     @ (if c \<ge> 1 then [Point r (c - 1)] else [])
     @ (if r + 1 < nrows g \<and> c + 1 < ncols g then [Point (r + 1) (c + 1)] else [])
     @ (if r + 1 < nrows g \<and> c \<ge> 1 then [Point (r + 1) (c - 1)] else [])
     @ (if r \<ge> 1 \<and> c + 1 < ncols g then [Point (r - 1) (c + 1)] else [])
     @ (if r \<ge> 1 \<and> c \<ge> 1 then [Point (r - 1) (c - 1)] else []))"
proof -
  have in4: "0 \<le> pt_r p" "pt_r p < uint (grid_rows g)" "0 \<le> pt_c p" "pt_c p < uint (grid_cols g)"
    and sides: "uint (grid_rows g) < 2 ^ 31" "uint (grid_cols g) < 2 ^ 31"
    using assms is_inside_iff[OF assms(1)] by (auto simp: nrows_def ncols_def wf_grid_def)
  note cr = coord_cast[OF in4(1,2) sides(1)] and cc = coord_cast[OF in4(3,4) sides(2)]
  have cast: "static_cast_int y = y" if "- (2 ^ 31) \<le> y" "y < 2 ^ 31" for y
    using that by (intro static_cast_int_id) (simp add: int_range_def)
  have small: "static_cast_int (pt_r p) = pt_r p" "static_cast_int (pt_c p) = pt_c p"
    "pt_r p + 1 < uint (grid_rows g) \<Longrightarrow> static_cast_int (pt_r p + 1) = pt_r p + 1"
    "pt_c p + 1 < uint (grid_cols g) \<Longrightarrow> static_cast_int (pt_c p + 1) = pt_c p + 1"
    "pt_r p \<ge> 1 \<Longrightarrow> static_cast_int (pt_r p - 1) = pt_r p - 1"
    "pt_c p \<ge> 1 \<Longrightarrow> static_cast_int (pt_c p - 1) = pt_c p - 1"
    using in4 sides by (auto intro!: cast)
  have "is_inside_rc g (pt_r p) (pt_c p)" using assms(2) by (simp add: is_inside_def)
  then show ?thesis
    by (simp add: get_8way_adjacents_def adjacents8_rc_def point_of_size_t_def cr cc small
        nrows_def ncols_def Let_def cong: if_cong)
qed

theorem set_8way_adjacents:
  assumes "wf_grid g" "is_inside g p"
  shows "set (get_8way_adjacents g p) = {q. is_inside g q \<and> adj8 p q}"
    and "distinct (get_8way_adjacents g p)"
    and "length (get_8way_adjacents g p) \<le> 8"
proof -
  note ins = is_inside_iff[OF assms(1)]
  obtain r c where p: "p = Point r c" by (cases p)
  have rc: "0 \<le> r" "r < nrows g" "0 \<le> c" "c < ncols g"
    using assms(2) unfolding ins p by auto
  have single: "q \<in> set (if P then [x] else []) \<longleftrightarrow> P \<and> q = x" for P and q x :: point
    by auto
  have mem: "Point a b \<in> set (get_8way_adjacents g p) \<longleftrightarrow>
      r + 1 < nrows g \<and> a = r + 1 \<and> b = c \<or> r \<ge> 1 \<and> a = r - 1 \<and> b = c
      \<or> c + 1 < ncols g \<and> a = r \<and> b = c + 1 \<or> c \<ge> 1 \<and> a = r \<and> b = c - 1
      \<or> (r + 1 < nrows g \<and> c + 1 < ncols g) \<and> a = r + 1 \<and> b = c + 1
      \<or> (r + 1 < nrows g \<and> c \<ge> 1) \<and> a = r + 1 \<and> b = c - 1
      \<or> (r \<ge> 1 \<and> c + 1 < ncols g) \<and> a = r - 1 \<and> b = c + 1
      \<or> (r \<ge> 1 \<and> c \<ge> 1) \<and> a = r - 1 \<and> b = c - 1" for a b
    unfolding p adjacents8_int[OF assms, unfolded p] Let_def set_append Un_iff single point.sel
      point.inject by (rule refl)
  have adj: "adj8 p (Point a b) \<longleftrightarrow>
      a = r + 1 \<and> b = c \<or> a = r - 1 \<and> b = c \<or> a = r \<and> b = c + 1 \<or> a = r \<and> b = c - 1
      \<or> a = r + 1 \<and> b = c + 1 \<or> a = r + 1 \<and> b = c - 1
      \<or> a = r - 1 \<and> b = c + 1 \<or> a = r - 1 \<and> b = c - 1" for a b
  proof -
    have near: "\<bar>x - y\<bar> \<le> 1 \<longleftrightarrow> y = x - 1 \<or> y = x \<or> y = x + 1" for x y :: int
      by arith
    have ne: "p \<noteq> Point a b \<longleftrightarrow> \<not> (a = r \<and> b = c)"
      unfolding p by auto
    show ?thesis
      unfolding adj8_def ne unfolding p point.sel near
      by (cases "a = r"; cases "b = c") auto
  qed
  show "set (get_8way_adjacents g p) = {q. is_inside g q \<and> adj8 p q}"
  proof (rule set_eqI)
    fix q obtain a b where q: "q = Point a b" by (cases q)
    have "is_inside g q \<and> adj8 p q" if "q \<in> set (get_8way_adjacents g p)"
      using that rc unfolding q mem adj ins point.sel by (elim disjE conjE) simp_all
    moreover have "q \<in> set (get_8way_adjacents g p)" if "is_inside g q \<and> adj8 p q"
      using that unfolding q mem adj ins point.sel by (elim disjE conjE) simp_all
    ultimately show "q \<in> set (get_8way_adjacents g p) \<longleftrightarrow> q \<in> {q. is_inside g q \<and> adj8 p q}"
      by blast
  qed
  show "distinct (get_8way_adjacents g p)" "length (get_8way_adjacents g p) \<le> 8"
    unfolding adjacents8_int[OF assms] by (auto simp: Let_def)
qed

end
