(* ===== verification/Open_Queue.thy ===== *)
theory Open_Queue
  imports Grid
begin

text \<open>
  The open list of the two searches of \<open>tower/world/path_finder.hpp\<close>: a
  \<open>std::priority_queue<Node, std::vector<Node>, node_cmp>\<close> whose comparator orders the nodes by
  decreasing \<open>f\<close>, so that \<open>top\<close> is a node of least \<open>f\<close>. Which of several nodes of least \<open>f\<close>
  is on top is not fixed by the C++ standard. The model leaves it to an oracle: at the
  \<open>k\<close>-th \<open>pop\<close>, \<open>pick k\<close> (reduced modulo the number of ties) selects one of them. A theorem for
  every \<open>pick\<close> holds for every conforming implementation of the queue.

  The interface the searches rely on is the locale \<open>min_queue\<close>.
\<close>

record open_node =
  node_f :: int
  node_p :: point

definition pq_push :: "open_node \<Rightarrow> open_node list \<Rightarrow> open_node list" where
  "pq_push n q = q @ [n]"

definition pq_ties :: "open_node list \<Rightarrow> nat list" where
  "pq_ties q = filter (\<lambda>i. node_f (q ! i) = min_list (map node_f q)) [0..<length q]"

definition pq_top_index :: "(nat \<Rightarrow> nat) \<Rightarrow> nat \<Rightarrow> open_node list \<Rightarrow> nat" where
  "pq_top_index pick k q = pq_ties q ! (pick k mod length (pq_ties q))"

text \<open>\<open>top\<close> followed by \<open>pop\<close>: the least node and the queue without it.\<close>

definition pq_pop :: "(nat \<Rightarrow> nat) \<Rightarrow> nat \<Rightarrow> open_node list \<Rightarrow> open_node \<times> open_node list" where
  "pq_pop pick k q =
     (let i = pq_top_index pick k q in (q ! i, take i q @ drop (Suc i) q))"

locale min_queue =
  fixes push :: "'n \<Rightarrow> 'q \<Rightarrow> 'q"
    and pop :: "nat \<Rightarrow> 'q \<Rightarrow> 'n \<times> 'q"
    and prio :: "'n \<Rightarrow> int"
    and items :: "'q \<Rightarrow> 'n multiset"
  assumes items_push: "items (push n q) = add_mset n (items q)"
    and items_pop: "items q \<noteq> {#} \<Longrightarrow> items q = add_mset (fst (pop k q)) (items (snd (pop k q)))"
    and pop_least: "items q \<noteq> {#} \<Longrightarrow> n \<in># items q \<Longrightarrow> prio (fst (pop k q)) \<le> prio n"
begin

lemma pop_mem: "items q \<noteq> {#} \<Longrightarrow> fst (pop k q) \<in># items q"
  using items_pop[of q k] by (metis union_single_eq_member)

lemma pop_size: "items q \<noteq> {#} \<Longrightarrow> size (items q) = Suc (size (items (snd (pop k q))))"
  using items_pop[of q k] by (metis size_add_mset)

lemma pop_rest: "items q \<noteq> {#} \<Longrightarrow> n \<in># items (snd (pop k q)) \<Longrightarrow> n \<in># items q"
  using items_pop[of q k] by (metis union_single_eq_member insert_iff set_mset_add_mset_insert)

lemma pop_cases:
  "items q \<noteq> {#} \<Longrightarrow> n \<in># items q \<Longrightarrow> n = fst (pop k q) \<or> n \<in># items (snd (pop k q))"
  using items_pop[of q k] by (metis insert_iff set_mset_add_mset_insert)

end

lemma pq_ties_nonempty: "q \<noteq> [] \<Longrightarrow> pq_ties q \<noteq> []"
proof -
  assume "q \<noteq> []"
  then have "min_list (map node_f q) \<in> set (map node_f q)"
    by (simp add: min_list_Min)
  then obtain i where "i < length q" "node_f (q ! i) = min_list (map node_f q)"
    by (auto simp: in_set_conv_nth)
  then have "i \<in> set (pq_ties q)" by (simp add: pq_ties_def)
  then show ?thesis by auto
qed

lemma pq_top_index:
  assumes "q \<noteq> []"
  shows "pq_top_index pick k q < length q"
    and "node_f (q ! pq_top_index pick k q) = min_list (map node_f q)"
proof -
  have "pick k mod length (pq_ties q) < length (pq_ties q)"
    using pq_ties_nonempty[OF assms] by simp
  then have "pq_top_index pick k q \<in> set (pq_ties q)"
    unfolding pq_top_index_def by (rule nth_mem)
  then show "pq_top_index pick k q < length q"
    and "node_f (q ! pq_top_index pick k q) = min_list (map node_f q)"
    by (auto simp: pq_ties_def)
qed

interpretation oq: min_queue pq_push "pq_pop pick" node_f mset for pick
proof (unfold_locales, goal_cases)
  case (1 n q)
  then show ?case by (simp add: pq_push_def)
next
  case (2 q k)
  then have "pq_top_index pick k q < length q" by (intro pq_top_index) auto
  then show ?case
    by (subst id_take_nth_drop[of "pq_top_index pick k q" q]) (auto simp: pq_pop_def Let_def)
next
  case (3 q n k)
  then have "min_list (map node_f q) \<le> node_f n"
    by (auto simp: min_list_Min)
  with 3 show ?case
    using pq_top_index(2)[of q pick k] by (auto simp: pq_pop_def Let_def)
qed

end
