(* ===== verification/Search_Space.thy ===== *)
theory Search_Space
  imports Prelude
begin

text \<open>
  Walks of a graph given by an edge predicate and a distance between points, and the contract
  under which a best-first search over it is optimal: the locale \<open>step_metric\<close> asks that the
  distance is a metric whose value on every edge is at least one. A heuristic that is the
  distance itself is then consistent.
\<close>

definition walk :: "('p \<Rightarrow> 'p \<Rightarrow> bool) \<Rightarrow> 'p \<Rightarrow> 'p \<Rightarrow> 'p list \<Rightarrow> bool" where
  "walk edge s e xs \<longleftrightarrow> xs \<noteq> [] \<and> hd xs = s \<and> last xs = e \<and> successively edge xs"

fun walk_cost :: "('p \<Rightarrow> 'p \<Rightarrow> int) \<Rightarrow> 'p list \<Rightarrow> int" where
  "walk_cost dist (x # y # zs) = dist x y + walk_cost dist (y # zs)"
| "walk_cost dist _ = 0"

text \<open>\<open>route edge dist s n k\<close>: a walk from \<open>s\<close> to \<open>n\<close> costs \<open>k\<close>.\<close>

inductive route :: "('p \<Rightarrow> 'p \<Rightarrow> bool) \<Rightarrow> ('p \<Rightarrow> 'p \<Rightarrow> int) \<Rightarrow> 'p \<Rightarrow> 'p \<Rightarrow> int \<Rightarrow> bool"
  for edge dist s where
  here: "route edge dist s s 0"
| step: "route edge dist s x k \<Longrightarrow> edge x y \<Longrightarrow> route edge dist s y (k + dist x y)"

lemma walk_cost_snoc:
  "xs \<noteq> [] \<Longrightarrow> walk_cost dist (xs @ [y]) = walk_cost dist xs + dist (last xs) y"
  by (induction dist xs rule: walk_cost.induct) auto

lemma walk_route:
  "walk edge s e xs \<Longrightarrow> route edge dist s e (walk_cost dist xs)"
proof (induction xs arbitrary: e rule: rev_induct)
  case Nil
  then show ?case by (simp add: walk_def)
next
  case (snoc y xs)
  show ?case
  proof (cases "xs = []")
    case True
    with snoc.prems show ?thesis by (auto simp: walk_def intro: route.here)
  next
    case False
    with snoc.prems have w: "walk edge s (last xs) xs" "edge (last xs) y" "e = y"
      by (auto simp: walk_def successively_append_iff)
    from route.step[OF snoc.IH[OF w(1)] w(2)] w(3) False show ?thesis
      by (simp add: walk_cost_snoc)
  qed
qed

lemma walk_Cons: "walk edge y e xs \<Longrightarrow> edge x y \<Longrightarrow> walk edge x e (x # xs)"
  by (cases xs) (auto simp: walk_def)

lemma walk_cost_Cons: "xs \<noteq> [] \<Longrightarrow> walk_cost dist (x # xs) = dist x (hd xs) + walk_cost dist xs"
  by (cases xs) auto

locale step_metric =
  fixes dist :: "'p \<Rightarrow> 'p \<Rightarrow> int" and edge :: "'p \<Rightarrow> 'p \<Rightarrow> bool"
  assumes dist_self: "dist x x = 0"
    and triangle: "dist x z \<le> dist x y + dist y z"
    and edge_pos: "edge x y \<Longrightarrow> 1 \<le> dist x y"
begin

lemma route_lower_bound: "route edge dist s x k \<Longrightarrow> dist s x \<le> k"
proof (induction rule: route.induct)
  case here
  then show ?case by (simp add: dist_self)
next
  case (step x k y)
  with triangle[of s y x] show ?case by linarith
qed

lemma route_nonneg: "route edge dist s x k \<Longrightarrow> 0 \<le> k"
proof (induction rule: route.induct)
  case here
  then show ?case by simp
next
  case (step x k y)
  with edge_pos[OF step.hyps(2)] show ?case by linarith
qed

lemma walk_lower_bound: "walk edge s e xs \<Longrightarrow> dist s e \<le> walk_cost dist xs"
  using walk_route route_lower_bound by metis

text \<open>
  The invariant of a best-first search, reduced to what its optimality rests on: \<open>closed\<close> are the
  settled points, \<open>g\<close> the best known costs. Every route to an unsettled point passes through an
  unsettled point whose cost is known and no larger than the part of the route up to it.
\<close>

lemma frontier_on_route:
  assumes "route edge dist s x k"
    and start: "g s = Some 0"
    and settled: "\<And>c j. c \<in> closed \<Longrightarrow> route edge dist s c j \<Longrightarrow> the (g c) \<le> j"
    and expanded: "\<And>c n. c \<in> closed \<Longrightarrow> edge c n \<Longrightarrow> n \<notin> closed \<Longrightarrow>
        \<exists>gn. g n = Some gn \<and> gn \<le> the (g c) + dist c n"
    and "x \<notin> closed"
  shows "\<exists>z gz. z \<notin> closed \<and> g z = Some gz \<and> gz + dist z x \<le> k"
  using assms(1,5)
proof (induction rule: route.induct)
  case here
  with start show ?case by (auto simp: dist_self)
next
  case (step x k y)
  show ?case
  proof (cases "x \<in> closed")
    case True
    from expanded[OF True step.hyps(2) step.prems] settled[OF True step.hyps(1)]
    show ?thesis using step.prems dist_self[of y] by force
  next
    case False
    with step.IH obtain z gz where "z \<notin> closed" "g z = Some gz" "gz + dist z x \<le> k" by blast
    then show ?thesis using triangle[of z y x] by force
  qed
qed

end

end
