(* ===== verification/Astar.thy ===== *)
theory Astar
  imports Open_Queue Search_Space
begin

text \<open>
  \<open>Pathfinder::astar\<close> and \<open>Pathfinder::reconstruct_path\<close> of \<open>tower/world/path_finder.hpp\<close>.
  The search state is the four local containers of the function plus the number of pops so far
  (which indexes the tie-breaking oracle of the open list) and how the loop left, if it did. The
  loop itself is \<open>while_option\<close>: a search that does not end is \<open>None\<close>, an exception of the
  checked \<open>Grid::at\<close> is \<open>Inl\<close>.
\<close>

section \<open>The algorithm\<close>

datatype search_status = Searching | Found | Threw cxx_exn

record astar_state =
  as_open :: "open_node list"
  as_closed :: "point set"
  as_parents :: "point \<rightharpoonup> point"
  as_g :: "point \<rightharpoonup> int"
  as_pops :: nat
  as_status :: search_status

text \<open>\<open>operator[]\<close> of \<open>std::unordered_map\<close>: inserts a value-initialised entry if there is none.\<close>

definition map_index :: "('k \<rightharpoonup> 'v) \<Rightarrow> 'k \<Rightarrow> 'v \<Rightarrow> 'v \<times> ('k \<rightharpoonup> 'v)" where
  "map_index m k zero = (case m k of Some v \<Rightarrow> (v, m) | None \<Rightarrow> (zero, m(k \<mapsto> zero)))"

text \<open>The body of the loop over the neighbours of \<open>cur\<close>.\<close>

definition astar_relax ::
  "bool grid \<Rightarrow> point \<Rightarrow> point \<Rightarrow> point \<Rightarrow> astar_state \<Rightarrow> astar_state result" where
  "astar_relax g e cur nxt s =
     (if nxt \<in> as_closed s then Inr s
      else case is_blocked g nxt of
        Inl ex \<Rightarrow> Inl ex
      | Inr blocked \<Rightarrow>
          if blocked then Inr s
          else
            let (g_cur, gm) = map_index (as_g s) cur 0;
                g_next = g_cur + manhattan_distance cur nxt
            in if (case gm nxt of Some old \<Rightarrow> g_next \<ge> old | None \<Rightarrow> False)
               then Inr (s\<lparr>as_g := gm\<rparr>)
               else Inr (s\<lparr>as_parents := (as_parents s)(nxt \<mapsto> cur),
                           as_g := gm(nxt \<mapsto> g_next),
                           as_open := pq_push
                             \<lparr>node_f = g_next + manhattan_distance nxt e, node_p = nxt\<rparr>
                             (as_open s)\<rparr>))"

definition astar_step ::
  "(nat \<Rightarrow> nat) \<Rightarrow> bool grid \<Rightarrow> point \<Rightarrow> astar_state \<Rightarrow> astar_state" where
  "astar_step pick g e s =
     (let (n, rest) = pq_pop pick (as_pops s) (as_open s);
          cur = node_p n;
          s1 = s\<lparr>as_open := rest, as_pops := Suc (as_pops s),
                 as_closed := insert cur (as_closed s)\<rparr>
      in if cur = e then s1\<lparr>as_status := Found\<rparr>
         else case for_each (astar_relax g e cur) (get_8way_adjacents g cur) s1 of
           Inl ex \<Rightarrow> s1\<lparr>as_status := Threw ex\<rparr>
         | Inr s2 \<Rightarrow> s2)"

definition astar_init :: "point \<Rightarrow> astar_state" where
  "astar_init s =
     \<lparr>as_open = pq_push \<lparr>node_f = 0, node_p = s\<rparr> [], as_closed = {}, as_parents = Map.empty,
      as_g = [s \<mapsto> 0], as_pops = 0, as_status = Searching\<rparr>"

definition astar_running :: "astar_state \<Rightarrow> bool" where
  "astar_running s \<longleftrightarrow> as_open s \<noteq> [] \<and> as_status s = Searching"

text \<open>\<open>reconstruct_path\<close>: follow the parents from the end, then reverse.\<close>

definition reconstruct_step ::
  "(point \<rightharpoonup> point) \<Rightarrow> point list \<times> point \<Rightarrow> point list \<times> point" where
  "reconstruct_step parents st =
     (case st of (path, cur) \<Rightarrow>
        case parents cur of None \<Rightarrow> st | Some p \<Rightarrow> (path @ [p], p))"

definition reconstruct_path :: "(point \<rightharpoonup> point) \<Rightarrow> point \<Rightarrow> point list option" where
  "reconstruct_path parents e =
     (case while_option (\<lambda>(path, cur). parents cur \<noteq> None) (reconstruct_step parents) ([e], e) of
        None \<Rightarrow> None
      | Some (path, cur) \<Rightarrow> Some (rev path))"

definition astar :: "(nat \<Rightarrow> nat) \<Rightarrow> bool grid \<Rightarrow> point \<Rightarrow> point \<Rightarrow> point list result option" where
  "astar pick g s e =
     (if \<not> is_inside g s \<or> \<not> is_inside g e then Some (Inr [])
      else case while_option astar_running (astar_step pick g e) (astar_init s) of
        None \<Rightarrow> None
      | Some st \<Rightarrow>
          (case as_status st of
             Threw ex \<Rightarrow> Some (Inl ex)
           | Found \<Rightarrow> map_option Inr (reconstruct_path (as_parents st) e)
           | Searching \<Rightarrow> Some (Inr [])))"

section \<open>The graph that is searched\<close>

definition passable :: "bool grid \<Rightarrow> point \<Rightarrow> bool" where
  "passable g p \<longleftrightarrow> is_inside g p \<and> \<not> cell g p"

text \<open>A move to one of the eight neighbours, onto a free cell.\<close>

definition grid_move :: "bool grid \<Rightarrow> point \<Rightarrow> point \<Rightarrow> bool" where
  "grid_move g p q \<longleftrightarrow> adj8 p q \<and> passable g q"

definition grid_walk :: "bool grid \<Rightarrow> point \<Rightarrow> point \<Rightarrow> point list \<Rightarrow> bool" where
  "grid_walk g s e xs \<longleftrightarrow> walk (grid_move g) s e xs"

definition path_cost :: "point list \<Rightarrow> int" where
  "path_cost xs = walk_cost manhattan_distance xs"

interpretation mh: step_metric manhattan_distance "grid_move g" for g
proof (unfold_locales, goal_cases)
  case (1 x)
  show ?case by (simp add: manhattan_distance_def)
next
  case (2 x z y)
  show ?case unfolding manhattan_distance_def by arith
next
  case (3 x y)
  then show ?case by (cases x; cases y) (auto simp: grid_move_def adj8_def manhattan_distance_def)
qed

abbreviation md :: "point \<Rightarrow> point \<Rightarrow> int" where
  "md \<equiv> manhattan_distance"

section \<open>The loop invariant\<close>

text \<open>
  \<open>todo\<close> is a set of neighbours of the point being expanded that still wait for their relaxation.
\<close>

definition g_val :: "astar_state \<Rightarrow> point \<Rightarrow> int" where
  "g_val s p = the (as_g s p)"

definition inv_start :: "point \<Rightarrow> astar_state \<Rightarrow> bool" where
  "inv_start S s \<longleftrightarrow> as_g s S = Some 0 \<and> as_parents s S = None"

definition inv_parents :: "bool grid \<Rightarrow> point \<Rightarrow> astar_state \<Rightarrow> bool" where
  "inv_parents g S s \<longleftrightarrow>
     (\<forall>n p. as_parents s n = Some p \<longrightarrow>
        p \<in> as_closed s \<and> grid_move g p n \<and> g_val s n = g_val s p + md p n)
     \<and> dom (as_g s) = insert S (dom (as_parents s))"

definition inv_domain :: "bool grid \<Rightarrow> astar_state \<Rightarrow> bool" where
  "inv_domain g s \<longleftrightarrow>
     as_closed s \<subseteq> dom (as_g s) \<and> (\<forall>n \<in> dom (as_g s). is_inside g n)
     \<and> node_p ` set (as_open s) \<subseteq> dom (as_g s)"

definition inv_open :: "point \<Rightarrow> point \<Rightarrow> astar_state \<Rightarrow> bool" where
  "inv_open S e s \<longleftrightarrow>
     (\<forall>m \<in> set (as_open s). node_p m \<noteq> S \<longrightarrow> g_val s (node_p m) + md (node_p m) e \<le> node_f m)
     \<and> (\<forall>n \<in> dom (as_g s) - as_closed s.
          \<exists>m \<in> set (as_open s). node_p m = n \<and> node_f m \<le> g_val s n + md n e)"

definition inv_expanded :: "bool grid \<Rightarrow> point \<Rightarrow> point set \<Rightarrow> astar_state \<Rightarrow> bool" where
  "inv_expanded g cur todo s \<longleftrightarrow>
     (\<forall>c \<in> as_closed s. \<forall>n. grid_move g c n \<longrightarrow> n \<notin> as_closed s \<longrightarrow>
        \<not> (c = cur \<and> n \<in> todo) \<longrightarrow> (\<exists>gn. as_g s n = Some gn \<and> gn \<le> g_val s c + md c n))"

definition inv_settled :: "bool grid \<Rightarrow> point \<Rightarrow> astar_state \<Rightarrow> bool" where
  "inv_settled g S s \<longleftrightarrow>
     (\<forall>c \<in> as_closed s. \<forall>k. route (grid_move g) md S c k \<longrightarrow> g_val s c \<le> k)"

definition inv_routes :: "bool grid \<Rightarrow> point \<Rightarrow> astar_state \<Rightarrow> bool" where
  "inv_routes g S s \<longleftrightarrow> (\<forall>n gn. as_g s n = Some gn \<longrightarrow> route (grid_move g) md S n gn)"

definition astar_inv ::
  "bool grid \<Rightarrow> point \<Rightarrow> point \<Rightarrow> point \<Rightarrow> point set \<Rightarrow> astar_state \<Rightarrow> bool" where
  "astar_inv g S e cur todo s \<longleftrightarrow>
     inv_start S s \<and> inv_parents g S s \<and> inv_domain g s \<and> inv_open S e s
     \<and> inv_expanded g cur todo s \<and> inv_settled g S s \<and> inv_routes g S s"

lemmas astar_inv_defs =
  astar_inv_def inv_start_def inv_parents_def inv_domain_def inv_open_def inv_expanded_def
  inv_settled_def inv_routes_def

end
