(* ===== verification/Astar_Correct.thy ===== *)
theory Astar_Correct
  imports Astar
begin

text \<open>
  Correctness of \<open>Pathfinder::astar\<close> on a well-formed grid: it returns, it throws nothing, the
  path it returns is a walk over free cells from \<open>start\<close> to \<open>end\<close> that visits no cell twice, it
  is empty only if there is no such walk, and no walk is cheaper in the cost the search adds up
  (Manhattan length, so a diagonal move costs 2).
\<close>

section \<open>One relaxation\<close>

definition keeps :: "bool grid \<Rightarrow> point \<Rightarrow> point \<Rightarrow> astar_state \<Rightarrow> bool" where
  "keeps g cur nxt s \<longleftrightarrow>
     nxt \<in> as_closed s \<or> cell g nxt
     \<or> (\<exists>old. as_g s nxt = Some old \<and> g_val s cur + md cur nxt \<ge> old)"

definition relaxed :: "bool grid \<Rightarrow> point \<Rightarrow> point \<Rightarrow> point \<Rightarrow> astar_state \<Rightarrow> astar_state" where
  "relaxed g e cur nxt s =
     (if keeps g cur nxt s then s
      else s\<lparr>as_parents := (as_parents s)(nxt \<mapsto> cur),
             as_g := (as_g s)(nxt \<mapsto> g_val s cur + md cur nxt),
             as_open := pq_push
               \<lparr>node_f = g_val s cur + md cur nxt + md nxt e, node_p = nxt\<rparr> (as_open s)\<rparr>)"

lemma astar_relax_eq:
  assumes "wf_grid g" "is_inside g nxt" "cur \<in> dom (as_g s)"
  shows "astar_relax g e cur nxt s = Inr (relaxed g e cur nxt s)"
proof -
  from assms(3) obtain gc where gc: "as_g s cur = Some gc" by auto
  then have "map_index (as_g s) cur 0 = (gc, as_g s)" by (simp add: map_index_def)
  with gc assms(1,2) show ?thesis
    by (auto simp: astar_relax_def relaxed_def keeps_def g_val_def Let_def split: option.split)
qed

lemma relaxed_frame [simp]:
  "as_closed (relaxed g e cur nxt s) = as_closed s"
  "as_status (relaxed g e cur nxt s) = as_status s"
  "as_pops (relaxed g e cur nxt s) = as_pops s"
  by (simp_all add: relaxed_def)

lemma relaxed_dom: "dom (as_g s) \<subseteq> dom (as_g (relaxed g e cur nxt s))"
  by (auto simp: relaxed_def)

lemma relaxed_inv:
  assumes inv: "astar_inv g S e cur (insert nxt todo) s"
    and cur: "cur \<in> as_closed s" and adj: "adj8 cur nxt" "is_inside g nxt"
  shows "astar_inv g S e cur todo (relaxed g e cur nxt s)"
proof (cases "keeps g cur nxt s")
  case True
  have "inv_expanded g cur todo s"
    unfolding inv_expanded_def
  proof (intro ballI allI impI)
    fix c n
    assume c: "c \<in> as_closed s" "grid_move g c n" "n \<notin> as_closed s" "\<not> (c = cur \<and> n \<in> todo)"
    show "\<exists>gn. as_g s n = Some gn \<and> gn \<le> g_val s c + md c n"
    proof (cases "c = cur \<and> n = nxt")
      case True
      with c \<open>keeps g cur nxt s\<close> show ?thesis by (auto simp: keeps_def grid_move_def passable_def)
    next
      case False
      with inv c show ?thesis unfolding astar_inv_def inv_expanded_def by auto
    qed
  qed
  with True inv show ?thesis by (simp add: relaxed_def astar_inv_def)
next
  case False
  let ?gn = "g_val s cur + md cur nxt"
  let ?t = "relaxed g e cur nxt s"
  have nc: "nxt \<notin> as_closed s" and free: "\<not> cell g nxt"
    and better: "\<And>old. as_g s nxt = Some old \<Longrightarrow> ?gn < old"
    using False by (auto simp: keeps_def not_le)
  have move: "grid_move g cur nxt" using adj free by (simp add: grid_move_def passable_def)
  have cg: "as_g s cur = Some (g_val s cur)"
    using inv cur by (force simp: astar_inv_defs g_val_def)
  have rt: "route (grid_move g) md S nxt ?gn"
    using inv cg move by (auto simp: astar_inv_defs intro: route.step)
  have nS: "nxt \<noteq> S"
    using better[of 0] mh.route_nonneg[OF rt] inv by (auto simp: astar_inv_defs)
  have neq: "cur \<noteq> nxt" using cur nc by auto
  have t: "as_g ?t = (as_g s)(nxt \<mapsto> ?gn)" "as_parents ?t = (as_parents s)(nxt \<mapsto> cur)"
    "as_open ?t = pq_push \<lparr>node_f = ?gn + md nxt e, node_p = nxt\<rparr> (as_open s)"
    using False by (simp_all add: relaxed_def)
  have gv: "g_val ?t p = (if p = nxt then ?gn else g_val s p)" for p
    by (simp add: g_val_def t)
  have gle: "g_val ?t p \<le> g_val s p" if "p \<in> dom (as_g s)" for p
    using that better unfolding gv by (force simp: g_val_def)
  have "inv_start S ?t" using inv nS by (simp add: astar_inv_def inv_start_def t)
  moreover have "inv_parents g S ?t"
    using inv cur move nc neq unfolding astar_inv_def inv_parents_def t gv relaxed_frame
    by (auto split: if_splits)
  moreover have "inv_domain g ?t"
    using inv adj(2) by (auto simp: astar_inv_def inv_domain_def t pq_push_def)
  moreover have "inv_open S e ?t"
    unfolding inv_open_def
  proof (intro conjI ballI impI)
    fix m assume m: "m \<in> set (as_open ?t)" "node_p m \<noteq> S"
    show "g_val ?t (node_p m) + md (node_p m) e \<le> node_f m"
    proof (cases "m \<in> set (as_open s)")
      case True
      then have "g_val s (node_p m) + md (node_p m) e \<le> node_f m" "node_p m \<in> dom (as_g s)"
        using inv m(2) by (auto simp: astar_inv_def inv_open_def inv_domain_def)
      with gle[of "node_p m"] show ?thesis by linarith
    next
      case False
      with m show ?thesis by (auto simp: t pq_push_def gv)
    qed
  next
    fix n assume n: "n \<in> dom (as_g ?t) - as_closed ?t"
    show "\<exists>m \<in> set (as_open ?t). node_p m = n \<and> node_f m \<le> g_val ?t n + md n e"
    proof (cases "n = nxt")
      case True
      then show ?thesis by (simp add: t pq_push_def gv)
    next
      case False
      then show ?thesis using inv n unfolding astar_inv_def inv_open_def
        by (auto simp: t pq_push_def gv)
    qed
  qed
  moreover have "inv_expanded g cur todo ?t"
    unfolding inv_expanded_def
  proof (intro ballI allI impI)
    fix c n
    assume c: "c \<in> as_closed ?t" "grid_move g c n" "n \<notin> as_closed ?t" "\<not> (c = cur \<and> n \<in> todo)"
    then have cn: "c \<noteq> nxt" using nc by auto
    show "\<exists>gn. as_g ?t n = Some gn \<and> gn \<le> g_val ?t c + md c n"
    proof (cases "n = nxt")
      case True
      show ?thesis
      proof (cases "c = cur")
        case True
        with \<open>n = nxt\<close> show ?thesis using neq by (simp add: t gv)
      next
        case False
        with c True inv obtain gn where "as_g s nxt = Some gn" "gn \<le> g_val s c + md c nxt"
          by (auto simp: astar_inv_def inv_expanded_def)
        with better True cn show ?thesis by (force simp: t gv)
      qed
    next
      case False
      then show ?thesis using inv c cn unfolding astar_inv_def inv_expanded_def
        by (auto simp: t gv)
    qed
  qed
  moreover have "inv_settled g S ?t"
    using inv nc by (auto simp: astar_inv_def inv_settled_def gv)
  moreover have "inv_routes g S ?t"
    using inv rt by (auto simp: astar_inv_def inv_routes_def t)
  ultimately show ?thesis by (simp add: astar_inv_def)
qed

section \<open>One iteration of the main loop\<close>

lemma expand_fold:
  assumes "wf_grid g" and "is_inside g cur" and "cur \<in> as_closed s" and "cur \<in> dom (as_g s)"
    and "\<And>n. n \<in> set ns \<Longrightarrow> adj8 cur n \<and> is_inside g n"
  shows "for_each (astar_relax g e cur) ns s = Inr (fold (relaxed g e cur) ns s)"
  using assms(3,4,5)
proof (induction ns arbitrary: s)
  case Nil
  then show ?case by simp
next
  case (Cons n ns)
  have "astar_relax g e cur n s = Inr (relaxed g e cur n s)"
    using Cons.prems assms(1) by (simp add: astar_relax_eq)
  moreover have "for_each (astar_relax g e cur) ns (relaxed g e cur n s)
      = Inr (fold (relaxed g e cur) ns (relaxed g e cur n s))"
  proof (rule Cons.IH)
    show "cur \<in> as_closed (relaxed g e cur n s)" using Cons.prems(1) by simp
    show "cur \<in> dom (as_g (relaxed g e cur n s))" using Cons.prems(2) relaxed_dom by blast
    show "\<And>m. m \<in> set ns \<Longrightarrow> adj8 cur m \<and> is_inside g m" using Cons.prems(3) by simp
  qed
  ultimately show ?case by simp
qed

lemma expand_inv:
  assumes "astar_inv g S e cur (set ns) s" and "cur \<in> as_closed s"
    and "\<And>n. n \<in> set ns \<Longrightarrow> adj8 cur n \<and> is_inside g n"
  shows "astar_inv g S e cur {} (fold (relaxed g e cur) ns s)"
  using assms
proof (induction ns arbitrary: s)
  case Nil
  then show ?case by simp
next
  case (Cons n ns)
  have "astar_inv g S e cur (set ns) (relaxed g e cur n s)"
  proof (rule relaxed_inv)
    show "astar_inv g S e cur (insert n (set ns)) s" using Cons.prems(1) by simp
    show "cur \<in> as_closed s" by (rule Cons.prems(2))
    show "adj8 cur n" "is_inside g n" using Cons.prems(3)[of n] by simp_all
  qed
  then have "astar_inv g S e cur {} (fold (relaxed g e cur) ns (relaxed g e cur n s))"
    using Cons.prems(2,3) by (intro Cons.IH) simp_all
  then show ?case by simp
qed

lemma fold_relaxed_frame [simp]:
  "as_closed (fold (relaxed g e cur) ns s) = as_closed s"
  "as_status (fold (relaxed g e cur) ns s) = as_status s"
  by (induction ns arbitrary: s) auto

lemma fold_relaxed_open:
  "length (as_open (fold (relaxed g e cur) ns s)) \<le> length (as_open s) + length ns"
proof (induction ns arbitrary: s)
  case Nil
  then show ?case by simp
next
  case (Cons n ns)
  have "length (as_open (relaxed g e cur n s)) \<le> Suc (length (as_open s))"
    by (simp add: relaxed_def pq_push_def)
  with Cons[of "relaxed g e cur n s"] show ?case by simp
qed

text \<open>A point that is popped again after it was expanded changes nothing.\<close>

lemma fold_relaxed_idle:
  "(\<And>n. n \<in> set ns \<Longrightarrow> keeps g cur n s) \<Longrightarrow> fold (relaxed g e cur) ns s = s"
  by (induction ns) (auto simp: relaxed_def)

text \<open>The state after the \<open>pop\<close> and the insertion into \<open>closed\<close>.\<close>

definition popped :: "(nat \<Rightarrow> nat) \<Rightarrow> astar_state \<Rightarrow> astar_state" where
  "popped pick s =
     s\<lparr>as_open := snd (pq_pop pick (as_pops s) (as_open s)), as_pops := Suc (as_pops s),
       as_closed := insert (node_p (fst (pq_pop pick (as_pops s) (as_open s)))) (as_closed s)\<rparr>"

definition top_point :: "(nat \<Rightarrow> nat) \<Rightarrow> astar_state \<Rightarrow> point" where
  "top_point pick s = node_p (fst (pq_pop pick (as_pops s) (as_open s)))"

lemma astar_step_popped:
  "astar_step pick g e s =
     (let cur = top_point pick s; s1 = popped pick s in
      if cur = e then s1\<lparr>as_status := Found\<rparr>
      else case for_each (astar_relax g e cur) (get_8way_adjacents g cur) s1 of
        Inl ex \<Rightarrow> s1\<lparr>as_status := Threw ex\<rparr> | Inr s2 \<Rightarrow> s2)"
  by (simp add: astar_step_def popped_def top_point_def Let_def split_beta)

lemma top_optimal:
  assumes inv: "astar_inv g S e c0 {} s" and ne: "as_open s \<noteq> []"
    and new: "top_point pick s \<notin> as_closed s"
    and rt: "route (grid_move g) md S (top_point pick s) k"
  shows "g_val s (top_point pick s) \<le> k"
proof (cases "top_point pick s = S")
  case True
  then show ?thesis
    using inv mh.route_nonneg[OF rt] by (simp add: astar_inv_defs g_val_def)
next
  case False
  let ?m = "fst (pq_pop pick (as_pops s) (as_open s))"
  have m: "?m \<in> set (as_open s)" using oq.pop_mem[of "as_open s"] ne by simp
  have "\<exists>z gz. z \<notin> as_closed s \<and> as_g s z = Some gz \<and> gz + md z (top_point pick s) \<le> k"
  proof (rule mh.frontier_on_route[OF rt _ _ _ new])
    show "as_g s S = Some 0" using inv by (simp add: astar_inv_defs)
    show "\<And>c j. c \<in> as_closed s \<Longrightarrow> route (grid_move g) md S c j \<Longrightarrow> the (as_g s c) \<le> j"
      using inv by (auto simp: astar_inv_def inv_settled_def g_val_def)
    show "\<And>c n. c \<in> as_closed s \<Longrightarrow> grid_move g c n \<Longrightarrow> n \<notin> as_closed s \<Longrightarrow>
        \<exists>gn. as_g s n = Some gn \<and> gn \<le> the (as_g s c) + md c n"
      using inv by (auto simp: astar_inv_def inv_expanded_def g_val_def)
  qed
  then obtain z gz where z: "z \<notin> as_closed s" "as_g s z = Some gz"
    "gz + md z (top_point pick s) \<le> k" by blast
  then have "z \<in> dom (as_g s) - as_closed s" by auto
  then obtain m' where m': "m' \<in> set (as_open s)" "node_f m' \<le> g_val s z + md z e"
    using inv unfolding astar_inv_def inv_open_def by blast
  have "node_f ?m \<le> node_f m'" using oq.pop_least[of "as_open s"] m' ne by simp
  moreover have "g_val s (top_point pick s) + md (top_point pick s) e \<le> node_f ?m"
    using inv m False unfolding astar_inv_def inv_open_def top_point_def by blast
  moreover have "md z e \<le> md z (top_point pick s) + md (top_point pick s) e"
    by (rule mh.triangle)
  ultimately show ?thesis using z m' by (simp add: g_val_def)
qed

lemma popped_inv:
  assumes inv: "astar_inv g S e c0 {} s" and ne: "as_open s \<noteq> []"
  shows "astar_inv g S e (top_point pick s) UNIV (popped pick s)"
    and "top_point pick s \<in> dom (as_g s)" and "is_inside g (top_point pick s)"
proof -
  let ?cur = "top_point pick s" and ?t = "popped pick s"
  let ?m = "fst (pq_pop pick (as_pops s) (as_open s))"
  have m: "?m \<in> set (as_open s)" using oq.pop_mem[of "as_open s"] ne by simp
  then show dom: "?cur \<in> dom (as_g s)"
    using inv unfolding astar_inv_def inv_domain_def top_point_def by blast
  then show "is_inside g ?cur" using inv by (auto simp: astar_inv_def inv_domain_def)
  have rest: "\<And>n. n \<in> set (as_open ?t) \<Longrightarrow> n \<in> set (as_open s)"
    using oq.pop_rest[of "as_open s"] ne by (auto simp: popped_def)
  have keep: "\<And>n. n \<in> set (as_open s) \<Longrightarrow> node_p n \<noteq> ?cur \<Longrightarrow> n \<in> set (as_open ?t)"
  proof -
    fix n assume "n \<in> set (as_open s)" "node_p n \<noteq> ?cur"
    then show "n \<in> set (as_open ?t)"
      using oq.pop_cases[of "as_open s" n pick "as_pops s"] ne
      by (auto simp: popped_def top_point_def)
  qed
  have t: "as_g ?t = as_g s" "as_parents ?t = as_parents s" "g_val ?t = g_val s"
    "as_closed ?t = insert ?cur (as_closed s)"
    by (simp_all add: popped_def g_val_def top_point_def fun_eq_iff)
  have "inv_domain g ?t"
    using inv dom rest unfolding astar_inv_def inv_domain_def t by blast
  moreover have "inv_open S e ?t"
    using inv rest keep unfolding astar_inv_def inv_open_def t
    by (metis DiffD1 DiffD2 DiffI insertCI)
  moreover have "inv_expanded g ?cur UNIV ?t"
    using inv unfolding astar_inv_def inv_expanded_def t by auto
  moreover have "inv_settled g S ?t"
    using inv top_optimal[OF inv ne] unfolding astar_inv_def inv_settled_def t by auto
  ultimately show "astar_inv g S e ?cur UNIV ?t"
    using inv unfolding astar_inv_def inv_start_def inv_parents_def inv_routes_def t by auto
qed

section \<open>The whole search\<close>

text \<open>
  What holds before and after every iteration: the loop has not thrown; while it searches, the
  invariant holds with nothing pending and the end has not been expanded; once it has found the
  end, the end is settled.
\<close>

definition search_inv :: "bool grid \<Rightarrow> point \<Rightarrow> point \<Rightarrow> astar_state \<Rightarrow> bool" where
  "search_inv g S e s \<longleftrightarrow>
     (case as_status s of
        Searching \<Rightarrow> (\<exists>c0. astar_inv g S e c0 {} s) \<and> e \<notin> as_closed s
      | Found \<Rightarrow> astar_inv g S e e UNIV s \<and> e \<in> as_closed s
      | Threw ex \<Rightarrow> False)"

lemma astar_inv_todo: "astar_inv g S e cur UNIV s \<Longrightarrow> (\<And>n. grid_move g cur n \<Longrightarrow> n \<in> todo) \<Longrightarrow>
  astar_inv g S e cur todo s"
  unfolding astar_inv_def inv_expanded_def by auto

lemma astar_inv_status [simp]: "astar_inv g S e cur todo (s\<lparr>as_status := x\<rparr>) = astar_inv g S e cur todo s"
  by (simp add: astar_inv_defs g_val_def)

lemma search_inv_init: "is_inside g S \<Longrightarrow> search_inv g S e (astar_init S)"
  by (auto simp: search_inv_def astar_init_def astar_inv_defs g_val_def pq_push_def
      manhattan_distance_def intro: route.here)

text \<open>One iteration, with the loop over the neighbours reduced to a fold.\<close>

lemma astar_step_eq:
  assumes "wf_grid g" "search_inv g S e s" "astar_running s"
  shows "astar_step pick g e s =
    (if top_point pick s = e then (popped pick s)\<lparr>as_status := Found\<rparr>
     else fold (relaxed g e (top_point pick s)) (get_8way_adjacents g (top_point pick s))
            (popped pick s))"
proof -
  obtain c0 where inv: "astar_inv g S e c0 {} s" and ne: "as_open s \<noteq> []"
    using assms(2,3) by (auto simp: search_inv_def astar_running_def)
  note pop = popped_inv[OF inv ne, of pick]
  have "for_each (astar_relax g e (top_point pick s)) (get_8way_adjacents g (top_point pick s))
      (popped pick s) = Inr (fold (relaxed g e (top_point pick s))
        (get_8way_adjacents g (top_point pick s)) (popped pick s))"
    using set_8way_adjacents(1)[OF assms(1) pop(3)] pop(2,3)
    by (intro expand_fold[OF assms(1)]) (auto simp: popped_def top_point_def)
  then show ?thesis by (simp add: astar_step_popped Let_def)
qed

lemma search_inv_step:
  assumes "wf_grid g" "search_inv g S e s" "astar_running s"
  shows "search_inv g S e (astar_step pick g e s)"
proof -
  let ?cur = "top_point pick s" and ?t = "popped pick s"
  obtain c0 where inv: "astar_inv g S e c0 {} s" and ne: "as_open s \<noteq> []"
    and st: "as_status s = Searching" and ec: "e \<notin> as_closed s"
    using assms(2,3) by (auto simp: search_inv_def astar_running_def)
  note pop = popped_inv[OF inv ne, of pick]
  have closed: "as_closed ?t = insert ?cur (as_closed s)" "as_status ?t = Searching"
    using st by (auto simp: popped_def top_point_def)
  note adj = set_8way_adjacents(1)[OF assms(1) pop(3)]
  show ?thesis
  proof (cases "?cur = e")
    case True
    with pop(1) closed show ?thesis
      by (simp add: astar_step_eq[OF assms] search_inv_def)
  next
    case False
    have "astar_inv g S e ?cur (set (get_8way_adjacents g ?cur)) ?t"
      using pop(1) by (rule astar_inv_todo) (simp add: adj grid_move_def passable_def)
    then have "astar_inv g S e ?cur {}
        (fold (relaxed g e ?cur) (get_8way_adjacents g ?cur) ?t)"
      by (rule expand_inv) (auto simp: adj closed)
    with False ec closed show ?thesis
      by (auto simp: astar_step_eq[OF assms] search_inv_def)
  qed
qed

text \<open>
  What gets smaller: nine times the number of cells that are not settled, plus the length of the
  open list. A first expansion settles a cell and pushes at most eight nodes; a repeated one
  pushes none.
\<close>

definition cells :: "'a grid \<Rightarrow> point set" where
  "cells g = {p. is_inside g p}"

definition search_left :: "bool grid \<Rightarrow> astar_state \<Rightarrow> nat" where
  "search_left g s =
     (if as_status s = Searching
      then Suc (9 * card (cells g - as_closed s) + length (as_open s)) else 0)"

lemma finite_cells: "wf_grid g \<Longrightarrow> finite (cells g)"
proof -
  assume "wf_grid g"
  then have "cells g \<subseteq> (\<lambda>(r, c). Point r c) ` ({0..<nrows g} \<times> {0..<ncols g})"
    by (force simp: cells_def is_inside_iff image_iff intro: point.collapse[symmetric])
  then show ?thesis by (rule finite_subset) simp
qed

lemma search_left_step:
  assumes "wf_grid g" "search_inv g S e s" "astar_running s"
  shows "search_left g (astar_step pick g e s) < search_left g s"
proof -
  let ?cur = "top_point pick s" and ?t = "popped pick s"
  let ?ns = "get_8way_adjacents g ?cur"
  obtain c0 where inv: "astar_inv g S e c0 {} s" and ne: "as_open s \<noteq> []"
    and st: "as_status s = Searching"
    using assms(2,3) by (auto simp: search_inv_def astar_running_def)
  note pop = popped_inv[OF inv ne, of pick]
  have closed: "as_closed ?t = insert ?cur (as_closed s)" "as_status ?t = Searching"
    using st by (auto simp: popped_def top_point_def)
  have len: "length (as_open s) = Suc (length (as_open ?t))"
    using oq.pop_size[of "as_open s" pick "as_pops s"] ne by (simp add: popped_def)
  note adj = set_8way_adjacents[OF assms(1) pop(3)]
  show ?thesis
  proof (cases "?cur = e")
    case True
    then show ?thesis using st by (simp add: astar_step_eq[OF assms] search_left_def)
  next
    case False
    show ?thesis
    proof (cases "?cur \<in> as_closed s")
      case True
      have "keeps g ?cur n ?t" if "n \<in> set ?ns" for n
        using that inv adj(1) True unfolding astar_inv_def inv_expanded_def keeps_def
        by (auto simp: popped_def g_val_def grid_move_def passable_def)
      then have "fold (relaxed g e ?cur) ?ns ?t = ?t" by (rule fold_relaxed_idle)
      with False True closed len st show ?thesis
        by (simp add: astar_step_eq[OF assms] search_left_def insert_absorb)
    next
      case new: False
      have "cells g - as_closed ?t = (cells g - as_closed s) - {?cur}"
        using closed by auto
      moreover have "?cur \<in> cells g - as_closed s" using new pop(3) by (simp add: cells_def)
      ultimately have "Suc (card (cells g - as_closed ?t)) = card (cells g - as_closed s)"
        using finite_cells[OF assms(1)] by (metis card_Suc_Diff1 finite_Diff)
      moreover have "length (as_open (fold (relaxed g e ?cur) ?ns ?t)) \<le> length (as_open ?t) + 8"
        using fold_relaxed_open[of g e ?cur ?ns ?t] adj(3) by linarith
      ultimately show ?thesis
        using False closed len st by (simp add: astar_step_eq[OF assms] search_left_def)
    qed
  qed
qed

lemma search_result:
  assumes "wf_grid g" "is_inside g S"
  obtains st where "while_option astar_running (astar_step pick g e) (astar_init S) = Some st"
    and "search_inv g S e st" and "\<not> astar_running st"
proof -
  have "\<exists>st. while_option astar_running (astar_step pick g e) (astar_init S) = Some st"
    by (rule measure_while_option_Some[where P = "search_inv g S e" and f = "search_left g"])
      (auto simp: search_inv_step[OF assms(1)] search_left_step[OF assms(1)]
        search_inv_init[OF assms(2)])
  then obtain st where st: "while_option astar_running (astar_step pick g e) (astar_init S) = Some st"
    by blast
  moreover have "search_inv g S e st"
    by (rule while_option_rule[OF _ st]) (auto simp: search_inv_step[OF assms(1)]
        search_inv_init[OF assms(2)])
  ultimately show thesis using while_option_stop[OF st] that by blast
qed

section \<open>Reading the path off the parents\<close>

text \<open>
  On the way from the end to the start the cost of the current point strictly decreases, so the
  loop ends; the list built so far, reversed, is a walk from the current point to the end.
\<close>

definition trail_inv ::
  "bool grid \<Rightarrow> point \<Rightarrow> astar_state \<Rightarrow> point list \<times> point \<Rightarrow> bool" where
  "trail_inv g e st pc \<longleftrightarrow>
     (case pc of (path, cur) \<Rightarrow>
        walk (grid_move g) cur e (rev path)
        \<and> path_cost (rev path) + g_val st cur = g_val st e
        \<and> cur \<in> dom (as_g st) \<and> distinct path
        \<and> (\<forall>p \<in> set path. g_val st cur \<le> g_val st p))"

lemma trail_step:
  assumes inv: "astar_inv g S e c todo st" and tr: "trail_inv g e st (path, cur)"
    and p: "as_parents st cur = Some p"
  shows "trail_inv g e st (path @ [p], p)"
    and "nat (g_val st p) < nat (g_val st cur)"
proof -
  have pm: "p \<in> as_closed st" "grid_move g p cur" "g_val st cur = g_val st p + md p cur"
    using inv p unfolding astar_inv_def inv_parents_def by blast+
  have pd: "p \<in> dom (as_g st)" using inv pm(1) by (auto simp: astar_inv_def inv_domain_def)
  then have "route (grid_move g) md S p (g_val st p)"
    using inv unfolding astar_inv_def inv_routes_def g_val_def by auto
  then have p0: "0 \<le> g_val st p" by (rule mh.route_nonneg)
  have less: "g_val st p < g_val st cur" using mh.edge_pos[OF pm(2)] pm(3) by linarith
  with p0 show "nat (g_val st p) < nat (g_val st cur)" by linarith
  have rp: "rev path \<noteq> []" "hd (rev path) = cur"
    using tr by (auto simp: trail_inv_def walk_def)
  have "p \<notin> set path" using tr less by (auto simp: trail_inv_def)
  moreover have "\<forall>q \<in> set (path @ [p]). g_val st p \<le> g_val st q"
    using tr less by (auto simp: trail_inv_def)
  ultimately show "trail_inv g e st (path @ [p], p)"
    using tr pm pd rp walk_Cons[of "grid_move g" cur e "rev path" p]
      walk_cost_Cons[OF rp(1), of md p]
    by (auto simp: trail_inv_def path_cost_def)
qed

lemma reconstruct_walk:
  assumes inv: "astar_inv g S e c todo st" and ed: "e \<in> dom (as_g st)"
  obtains path where "reconstruct_path (as_parents st) e = Some path"
    and "grid_walk g S e path" and "distinct path" and "path_cost path = g_val st e"
proof -
  let ?b = "\<lambda>(path, cur). as_parents st cur \<noteq> None" and ?c = "reconstruct_step (as_parents st)"
  have step: "trail_inv g e st (?c pc)" "nat (g_val st (snd (?c pc))) < nat (g_val st (snd pc))"
    if pc: "trail_inv g e st pc" "?b pc" for pc
  proof -
    obtain path cur p where eq: "pc = (path, cur)" "as_parents st cur = Some p"
      using pc(2) by (cases pc) auto
    then have "?c pc = (path @ [p], p)" by (simp add: reconstruct_step_def)
    with eq trail_step[OF inv pc(1)[unfolded eq(1)] eq(2)]
    show "trail_inv g e st (?c pc)" "nat (g_val st (snd (?c pc))) < nat (g_val st (snd pc))"
      by (simp_all only: snd_conv)
  qed
  have init: "trail_inv g e st ([e], e)"
    using ed by (simp add: trail_inv_def walk_def path_cost_def)
  have "\<exists>t. while_option ?b ?c ([e], e) = Some t"
    by (rule measure_while_option_Some[where P = "trail_inv g e st"
        and f = "\<lambda>pc. nat (g_val st (snd pc))"]) (use step init in blast)+
  then obtain path cur where w: "while_option ?b ?c ([e], e) = Some (path, cur)" by fast
  have "trail_inv g e st (path, cur)"
    by (rule while_option_rule[OF _ w]) (use step init in blast)+
  moreover have "as_parents st cur = None" using while_option_stop[OF w] by simp
  ultimately have tr: "trail_inv g e st (path, cur)" and "cur = S"
    using inv by (auto simp: astar_inv_def inv_parents_def trail_inv_def)
  moreover have "g_val st S = 0" using inv by (simp add: astar_inv_defs g_val_def)
  ultimately show thesis
    using w that[of "rev path"]
    by (auto simp: reconstruct_path_def trail_inv_def grid_walk_def)
qed

section \<open>Correctness\<close>

text \<open>An exhausted open list means that every reachable cell is settled.\<close>

lemma exhausted_closed:
  assumes inv: "astar_inv g S e c {} st" and "as_open st = []"
    and rt: "route (grid_move g) md S x k"
  shows "x \<in> as_closed st"
proof -
  have dom: "x \<in> as_closed st" if "x \<in> dom (as_g st)" for x
    using inv assms(2) that unfolding astar_inv_def inv_open_def by auto
  show ?thesis
    using rt
  proof (induction rule: route.induct)
    case here
    have "S \<in> dom (as_g st)" using inv by (auto simp: astar_inv_defs)
    then show ?case by (rule dom)
  next
    case (step x k y)
    show ?case
    proof (rule ccontr)
      assume "y \<notin> as_closed st"
      with step inv have "y \<in> dom (as_g st)"
        unfolding astar_inv_def inv_expanded_def by blast
      with dom \<open>y \<notin> as_closed st\<close> show False by blast
    qed
  qed
qed

lemma astar_outside:
  "\<not> (is_inside g s \<and> is_inside g e) \<Longrightarrow> astar pick g s e = Some (Inr [])"
  by (auto simp: astar_def)

lemma astar_cases:
  assumes "wf_grid g" "is_inside g s" "is_inside g e"
  obtains (found) path where "astar pick g s e = Some (Inr path)"
      and "grid_walk g s e path" and "distinct path"
      and "\<And>xs. grid_walk g s e xs \<Longrightarrow> path_cost path \<le> path_cost xs"
    | (none) "astar pick g s e = Some (Inr [])" and "\<And>xs. \<not> grid_walk g s e xs"
proof -
  obtain st where st: "while_option astar_running (astar_step pick g e) (astar_init s) = Some st"
    and inv: "search_inv g s e st" and stop: "\<not> astar_running st"
    using search_result[OF assms(1,2)] by blast
  show thesis
  proof (cases "as_status st")
    case Searching
    with inv stop obtain c where ai: "astar_inv g s e c {} st" "as_open st = []" "e \<notin> as_closed st"
      by (auto simp: search_inv_def astar_running_def)
    have "\<not> grid_walk g s e xs" for xs
      using exhausted_closed[OF ai(1,2) walk_route, of e xs] ai(3) by (auto simp: grid_walk_def)
    with Searching st assms show thesis by (intro none) (auto simp: astar_def)
  next
    case Found
    with inv have ai: "astar_inv g s e e UNIV st" "e \<in> as_closed st"
      by (auto simp: search_inv_def)
    then have "e \<in> dom (as_g st)" by (auto simp: astar_inv_def inv_domain_def)
    from reconstruct_walk[OF ai(1) this] obtain path
      where path: "reconstruct_path (as_parents st) e = Some path" "grid_walk g s e path"
        "distinct path" "path_cost path = g_val st e" by blast
    have "path_cost path \<le> path_cost xs" if "grid_walk g s e xs" for xs
      using ai walk_route[of "grid_move g" s e xs md] that path(4)
      unfolding astar_inv_def inv_settled_def grid_walk_def path_cost_def by auto
    with Found st assms path show thesis by (intro found) (auto simp: astar_def)
  next
    case (Threw ex)
    with inv show thesis by (simp add: search_inv_def)
  qed
qed

end
