(* ===== verification/Jps.thy ===== *)
theory Jps
  imports Astar
begin

text \<open>
  \<open>Pathfinder::jps\<close> of \<open>tower/world/path_finder.hpp\<close>, the jump point search. Its local lambdas
  \<open>has_forced_neighbor\<close>, \<open>probe\<close> and \<open>jump\<close> become functions that pass the captured containers
  as a state. \<open>probe\<close> and the main loop are \<open>partial_function (option)\<close>: \<open>None\<close> is a call
  that does not return.
\<close>

record jps_state =
  js_open :: "open_node list"
  js_closed :: "point set"
  js_parents :: "point \<rightharpoonup> point"
  js_pops :: nat

definition has_forced_neighbor :: "bool grid \<Rightarrow> point \<Rightarrow> point \<Rightarrow> bool result" where
  "has_forced_neighbor g block direction =
     (let forced_neighbor = block + direction in
      if \<not> is_inside g block then Inr False
      else case is_blocked g block of
        Inl ex \<Rightarrow> Inl ex
      | Inr b \<Rightarrow>
          if \<not> b then Inr False
          else if \<not> is_inside g forced_neighbor then Inr False
          else case is_blocked g forced_neighbor of Inl ex \<Rightarrow> Inl ex | Inr b' \<Rightarrow> Inr (\<not> b'))"

text \<open>\<open>has_forced_neighbor(a, d) || has_forced_neighbor(b, d')\<close>, with C++'s short circuit.\<close>

definition either_forced ::
  "bool grid \<Rightarrow> point \<Rightarrow> point \<Rightarrow> point \<Rightarrow> point \<Rightarrow> bool result" where
  "either_forced g a d b d' =
     (case has_forced_neighbor g a d of
        Inl ex \<Rightarrow> Inl ex
      | Inr True \<Rightarrow> Inr True
      | Inr False \<Rightarrow> has_forced_neighbor g b d')"

definition jps_push :: "point \<Rightarrow> point \<Rightarrow> jps_state \<Rightarrow> jps_state" where
  "jps_push e p s =
     s\<lparr>js_open := pq_push \<lparr>node_f = manhattan_distance p e, node_p = p\<rparr> (js_open s)\<rparr>"

definition jps_close :: "point \<Rightarrow> jps_state \<Rightarrow> jps_state" where
  "jps_close p s = s\<lparr>js_closed := insert p (js_closed s)\<rparr>"

definition jps_parent :: "point \<Rightarrow> point \<Rightarrow> jps_state \<Rightarrow> jps_state" where
  "jps_parent p dir s =
     s\<lparr>js_parents := (js_parents s)(p \<mapsto> Point (pt_r p - pt_r dir) (pt_c p - pt_c dir))\<rparr>"

text \<open>The forced-neighbour test of each of the three kinds of probe at a point.\<close>

definition probe_forced :: "bool grid \<Rightarrow> point \<Rightarrow> point \<Rightarrow> bool result" where
  "probe_forced g p dir =
     (let r = pt_r p; c = pt_c p; dr = pt_r dir; dc = pt_c dir in
      if dr * dc \<noteq> 0 then
        either_forced g (Point r (c - dc)) (Point dr 0) (Point (r - dr) c) (Point 0 dc)
      else if dr \<noteq> 0 then
        either_forced g (Point r (c + 1)) dir (Point r (c - 1)) dir
      else if dc \<noteq> 0 then
        either_forced g (Point (r + 1) c) dir (Point (r - 1) c) dir
      else Inr False)"

partial_function (option) probe ::
  "bool grid \<Rightarrow> point \<Rightarrow> point \<Rightarrow> point \<Rightarrow> jps_state \<Rightarrow> (bool \<times> jps_state) result option" where
  "probe g e p dir s =
     (if \<not> is_inside g p then Some (Inr (False, s))
      else case is_blocked g p of
        Inl ex \<Rightarrow> Some (Inl ex)
      | Inr blocked \<Rightarrow>
          if blocked then Some (Inr (False, s))
          else if p = e then Some (Inr (True, jps_parent p dir s))
          else case probe_forced g p dir of
            Inl ex \<Rightarrow> Some (Inl ex)
          | Inr forced \<Rightarrow>
              if forced then Some (Inr (True, jps_push e p (jps_parent p dir s)))
              else if pt_r dir * pt_c dir \<noteq> 0 then
                Option.bind
                  (probe g e (Point (pt_r p + pt_r dir) (pt_c p)) (Point (pt_r dir) 0)
                     (jps_parent p dir s))
                  (\<lambda>res1. case res1 of
                    Inl ex \<Rightarrow> Some (Inl ex)
                  | Inr (found1, s1) \<Rightarrow>
                      Option.bind
                        (probe g e (Point (pt_r p) (pt_c p + pt_c dir)) (Point 0 (pt_c dir)) s1)
                        (\<lambda>res2. case res2 of
                          Inl ex \<Rightarrow> Some (Inl ex)
                        | Inr (found2, s2) \<Rightarrow>
                            if found1 \<or> found2 then Some (Inr (True, jps_push e p s2))
                            else probe g e (p + dir) dir (jps_close p s2)))
              else probe g e (p + dir) dir (jps_close p (jps_parent p dir s)))"

text \<open>\<open>jump\<close>: probe in the direction of every neighbour that is neither closed nor blocked.\<close>

primrec jump_over ::
  "bool grid \<Rightarrow> point \<Rightarrow> point \<Rightarrow> point list \<Rightarrow> jps_state \<Rightarrow> jps_state result option" where
  "jump_over g e p [] s = Some (Inr s)"
| "jump_over g e p (n # ns) s =
     (if n \<in> js_closed s then jump_over g e p ns s
      else case is_blocked g n of
        Inl ex \<Rightarrow> Some (Inl ex)
      | Inr blocked \<Rightarrow>
          if blocked then jump_over g e p ns s
          else case probe g e n (Point (pt_r n - pt_r p) (pt_c n - pt_c p)) s of
            None \<Rightarrow> None
          | Some (Inl ex) \<Rightarrow> Some (Inl ex)
          | Some (Inr (_, s')) \<Rightarrow> jump_over g e p ns s')"

definition jump :: "bool grid \<Rightarrow> point \<Rightarrow> point \<Rightarrow> jps_state \<Rightarrow> jps_state result option" where
  "jump g e p s = jump_over g e p (get_8way_adjacents g p) (jps_close p s)"

definition jps_pop :: "(nat \<Rightarrow> nat) \<Rightarrow> jps_state \<Rightarrow> point \<times> jps_state" where
  "jps_pop pick s =
     (let (n, rest) = pq_pop pick (js_pops s) (js_open s)
      in (node_p n, s\<lparr>js_open := rest, js_pops := Suc (js_pops s)\<rparr>))"

partial_function (option) jps_loop ::
  "(nat \<Rightarrow> nat) \<Rightarrow> bool grid \<Rightarrow> point \<Rightarrow> jps_state \<Rightarrow> point list result option" where
  "jps_loop pick g e s =
     (if js_open s = [] then Some (Inr [])
      else Option.bind (jump g e (fst (jps_pop pick s)) (snd (jps_pop pick s)))
        (\<lambda>res. case res of
           Inl ex \<Rightarrow> Some (Inl ex)
         | Inr s' \<Rightarrow>
             if js_parents s' e \<noteq> None then map_option Inr (reconstruct_path (js_parents s') e)
             else jps_loop pick g e s'))"

declare probe.simps [code] and jps_loop.simps [code]

definition jps_init :: "point \<Rightarrow> jps_state" where
  "jps_init s =
     \<lparr>js_open = pq_push \<lparr>node_f = 0, node_p = s\<rparr> [], js_closed = {}, js_parents = Map.empty,
      js_pops = 0\<rparr>"

definition jps :: "(nat \<Rightarrow> nat) \<Rightarrow> bool grid \<Rightarrow> point \<Rightarrow> point \<Rightarrow> point list result option" where
  "jps pick g s e = jps_loop pick g e (jps_init s)"

section \<open>Soundness of the paths it returns\<close>

text \<open>
  What every step of the search keeps: each point with a parent is a free cell, its parent is one
  of its eight neighbours, and the parent has a parent itself unless it is the start.
\<close>

definition parents_ok :: "bool grid \<Rightarrow> point \<Rightarrow> (point \<rightharpoonup> point) \<Rightarrow> bool" where
  "parents_ok g S m \<longleftrightarrow>
     (\<forall>n p. m n = Some p \<longrightarrow> grid_move g p n \<and> (p = S \<or> p \<in> dom m))"

text \<open>The open list holds only points that have a parent, or the start.\<close>

definition jps_inv :: "bool grid \<Rightarrow> point \<Rightarrow> jps_state \<Rightarrow> bool" where
  "jps_inv g S s \<longleftrightarrow>
     parents_ok g S (js_parents s)
     \<and> (\<forall>n \<in> set (js_open s). node_p n = S \<or> node_p n \<in> dom (js_parents s))"

definition unit_dir :: "point \<Rightarrow> bool" where
  "unit_dir d \<longleftrightarrow> d \<noteq> Point 0 0 \<and> \<bar>pt_r d\<bar> \<le> 1 \<and> \<bar>pt_c d\<bar> \<le> 1"

definition before :: "point \<Rightarrow> point \<Rightarrow> point" where
  "before p d = Point (pt_r p - pt_r d) (pt_c p - pt_c d)"

lemma before_plus [simp]: "before (p + d) d = p"
  by (cases p) (simp add: before_def)

lemma before_axis [simp]:
  "before (Point (pt_r p + x) (pt_c p)) (Point x 0) = p"
  "before (Point (pt_r p) (pt_c p + x)) (Point 0 x) = p"
  by (cases p; simp add: before_def)+

lemma before_move:
  assumes "unit_dir d" "is_inside g p" "\<not> cell g p"
  shows "grid_move g (before p d) p"
  using assms by (cases p; cases d)
    (auto simp: unit_dir_def before_def grid_move_def adj8_def passable_def)

lemma jps_parent_inv:
  assumes "jps_inv g S s" "unit_dir d" "is_inside g p" "\<not> cell g p"
    and "before p d = S \<or> before p d \<in> dom (js_parents s)"
  shows "jps_inv g S (jps_parent p d s)"
    and "p \<in> dom (js_parents (jps_parent p d s))"
  using assms before_move[OF assms(2-4)]
  by (auto simp: jps_inv_def parents_ok_def jps_parent_def before_def)

lemma jps_frame [simp]:
  "js_parents (jps_push e p s) = js_parents s" "js_parents (jps_close p s) = js_parents s"
  by (simp_all add: jps_push_def jps_close_def)

lemma jps_close_inv [simp]: "jps_inv g S (jps_close p s) = jps_inv g S s"
  by (simp add: jps_inv_def jps_close_def)

lemma jps_push_inv [simp]:
  "p \<in> dom (js_parents s) \<Longrightarrow> jps_inv g S (jps_push e p s) = jps_inv g S s"
  by (auto simp: jps_inv_def jps_push_def pq_push_def)

lemma dom_jps_parent: "dom (js_parents (jps_parent p d s)) = insert p (dom (js_parents s))"
  by (auto simp: jps_parent_def)

definition probe_post ::
  "point \<Rightarrow> bool grid \<Rightarrow> point \<Rightarrow> point \<Rightarrow> jps_state \<Rightarrow> (bool \<times> jps_state) result \<Rightarrow> bool" where
  "probe_post S g p d s r \<longleftrightarrow>
     (\<forall>b s'. r = Inr (b, s') \<longrightarrow> wf_grid g \<longrightarrow> jps_inv g S s \<longrightarrow> unit_dir d \<longrightarrow>
        (before p d = S \<or> before p d \<in> dom (js_parents s)) \<longrightarrow>
        jps_inv g S s' \<and> dom (js_parents s) \<subseteq> dom (js_parents s'))"

lemma unit_dir_axes:
  "unit_dir d \<Longrightarrow> pt_r d * pt_c d \<noteq> 0 \<Longrightarrow> unit_dir (Point (pt_r d) 0) \<and> unit_dir (Point 0 (pt_c d))"
  by (auto simp: unit_dir_def)

lemma probe_inv: "probe g e p d s = Some r \<Longrightarrow> probe_post S g p d s r"
proof (rule probe.raw_induct [where P = "\<lambda>g e p d s r. probe_post S g p d s r"])
  fix f g e p d s r
  assume IH: "\<And>g e p d s r. f g e p d s = Some r \<Longrightarrow> probe_post S g p d s r"
    and eq: "(if \<not> is_inside g p then Some (Inr (False, s))
      else case is_blocked g p of
        Inl ex \<Rightarrow> Some (Inl ex)
      | Inr blocked \<Rightarrow>
          if blocked then Some (Inr (False, s))
          else if p = e then Some (Inr (True, jps_parent p d s))
          else case probe_forced g p d of
            Inl ex \<Rightarrow> Some (Inl ex)
          | Inr forced \<Rightarrow>
              if forced then Some (Inr (True, jps_push e p (jps_parent p d s)))
              else if pt_r d * pt_c d \<noteq> 0 then
                Option.bind
                  (f g e (Point (pt_r p + pt_r d) (pt_c p)) (Point (pt_r d) 0) (jps_parent p d s))
                  (\<lambda>res1. case res1 of
                    Inl ex \<Rightarrow> Some (Inl ex)
                  | Inr (found1, s1) \<Rightarrow>
                      Option.bind
                        (f g e (Point (pt_r p) (pt_c p + pt_c d)) (Point 0 (pt_c d)) s1)
                        (\<lambda>res2. case res2 of
                          Inl ex \<Rightarrow> Some (Inl ex)
                        | Inr (found2, s2) \<Rightarrow>
                            if found1 \<or> found2 then Some (Inr (True, jps_push e p s2))
                            else f g e (p + d) d (jps_close p s2)))
              else f g e (p + d) d (jps_close p (jps_parent p d s))) = Some r"
  show "probe_post S g p d s r"
    unfolding probe_post_def
  proof (intro allI impI)
    fix b s'
    assume r: "r = Inr (b, s')" and wf: "wf_grid g" and inv: "jps_inv g S s"
      and d: "unit_dir d" and b: "before p d = S \<or> before p d \<in> dom (js_parents s)"
    let ?s = "jps_parent p d s"
    show "jps_inv g S s' \<and> dom (js_parents s) \<subseteq> dom (js_parents s')"
    proof (cases "is_inside g p \<and> \<not> cell g p")
      case False
      with eq r wf inv show ?thesis by (auto split: if_splits)
    next
      case True
      note pinv = jps_parent_inv[OF inv d True[THEN conjunct1] True[THEN conjunct2] b]
      have sub: "dom (js_parents s) \<subseteq> dom (js_parents ?s)" by (auto simp: dom_jps_parent)
      have last: "f g e (p + d) d (jps_close p t) = Some r \<Longrightarrow> jps_inv g S t \<Longrightarrow>
          p \<in> dom (js_parents t) \<Longrightarrow>
          jps_inv g S s' \<and> dom (js_parents t) \<subseteq> dom (js_parents s')" for t
        using IH[of g e "p + d" d "jps_close p t" r] r wf d by (simp add: probe_post_def)
      show ?thesis
      proof (cases "p = e \<or> probe_forced g p d = Inr True")
        case found: True
        have "jps_inv g S (jps_push e p ?s)" using jps_push_inv[OF pinv(2)] pinv(1) by blast
        with found eq True r wf pinv(1) sub show ?thesis
          by (auto split: if_splits sum.splits)
      next
        case nf: False
        have pf: "probe_forced g p d = Inr False"
          using eq True nf r wf by (cases "probe_forced g p d") auto
        show ?thesis
        proof (cases "pt_r d * pt_c d = 0")
          case axis: True
          with eq True nf pf wf have "f g e (p + d) d (jps_close p ?s) = Some r" by simp
          from last[OF this pinv] sub show ?thesis by blast
        next
          case diag: False
          with eq True nf pf wf r obtain f1 s1 f2 s2 where
            c1: "f g e (Point (pt_r p + pt_r d) (pt_c p)) (Point (pt_r d) 0) ?s = Some (Inr (f1, s1))"
            and c2: "f g e (Point (pt_r p) (pt_c p + pt_c d)) (Point 0 (pt_c d)) s1
                = Some (Inr (f2, s2))"
            and fin: "(if f1 \<or> f2 then Some (Inr (True, jps_push e p s2))
                else f g e (p + d) d (jps_close p s2)) = Some r"
            by (auto simp: bind_result_Some)
          have i1: "jps_inv g S s1" "dom (js_parents ?s) \<subseteq> dom (js_parents s1)"
            using IH[OF c1] wf pinv unit_dir_axes[OF d diag] by (auto simp: probe_post_def)
          then have i2: "jps_inv g S s2" "dom (js_parents s1) \<subseteq> dom (js_parents s2)"
            using IH[OF c2] wf pinv unit_dir_axes[OF d diag] unfolding probe_post_def by auto
          have "p \<in> dom (js_parents s2)" using pinv(2) i1(2) i2(2) by blast
          then have push: "jps_inv g S (jps_push e p s2)" and pd: "p \<in> dom (js_parents s2)"
            using jps_push_inv i2(1) by blast+
          have sub2: "dom (js_parents s) \<subseteq> dom (js_parents s2)" using i1(2) i2(2) sub by blast
          show ?thesis
          proof (cases "f1 \<or> f2")
            case True
            with fin r have "s' = jps_push e p s2" by simp
            with push sub2 show ?thesis by simp
          next
            case False
            with fin have "f g e (p + d) d (jps_close p s2) = Some r" by simp
            from last[OF this i2(1) pd] sub2 show ?thesis by blast
          qed
        qed
      qed
    qed
  qed
qed

lemma jump_over_inv:
  assumes "wf_grid g" "is_inside g p" "jump_over g e p ns s = Some (Inr s')"
    and "jps_inv g S s" "p = S \<or> p \<in> dom (js_parents s)"
    and "\<And>n. n \<in> set ns \<Longrightarrow> adj8 p n \<and> is_inside g n"
  shows "jps_inv g S s'" and "dom (js_parents s) \<subseteq> dom (js_parents s')"
proof -
  have "jps_inv g S s' \<and> dom (js_parents s) \<subseteq> dom (js_parents s')"
    using assms(3-6)
  proof (induction ns arbitrary: s)
    case Nil
    then show ?case by simp
  next
    case (Cons n ns)
    let ?d = "Point (pt_r n - pt_r p) (pt_c n - pt_c p)"
    have n: "adj8 p n" "is_inside g n" using Cons.prems(4) by auto
    have d: "unit_dir ?d" "before n ?d = p"
      using n by (cases p; cases n; auto simp: unit_dir_def before_def adj8_def)+
    show ?case
    proof (cases "n \<in> js_closed s \<or> cell g n")
      case True
      with Cons assms(1) n show ?thesis by (auto split: if_splits)
    next
      case False
      with Cons.prems(1) assms(1) n obtain f t
        where pr: "probe g e n ?d s = Some (Inr (f, t))" and rest: "jump_over g e p ns t = Some (Inr s')"
        by (auto split: option.splits sum.splits)
      have "jps_inv g S t \<and> dom (js_parents s) \<subseteq> dom (js_parents t)"
        using probe_inv[OF pr, of S] Cons.prems assms(1) d unfolding probe_post_def by auto
      moreover from this have "jps_inv g S s' \<and> dom (js_parents t) \<subseteq> dom (js_parents s')"
        using Cons.prems rest by (intro Cons.IH) auto
      ultimately show ?thesis by blast
    qed
  qed
  then show "jps_inv g S s'" and "dom (js_parents s) \<subseteq> dom (js_parents s')" by auto
qed

text \<open>
  The path that is read off parents with this property: if the loop of \<open>reconstruct_path\<close> ends,
  it ends at the start, and the points it collected are a walk over free cells.
\<close>

lemma reconstruct_sound:
  assumes inv: "parents_ok g S m" and e: "e = S \<or> e \<in> dom m"
    and path: "reconstruct_path m e = Some path"
  shows "grid_walk g S e path"
proof -
  let ?P = "\<lambda>(path, cur). walk (grid_move g) cur e (rev path) \<and> (cur = S \<or> cur \<in> dom m)"
  obtain pth cur where
    w: "while_option (\<lambda>(path, cur). m cur \<noteq> None) (reconstruct_step m) ([e], e) = Some (pth, cur)"
    and p: "path = rev pth"
    using path by (auto simp: reconstruct_path_def split: option.splits)
  have "?P (pth, cur)"
  proof (rule while_option_rule[OF _ w])
    fix pc assume "?P pc" "(\<lambda>(path, cur). m cur \<noteq> None) pc"
    then obtain ps c q where eq: "pc = (ps, c)" "m c = Some q" "walk (grid_move g) c e (rev ps)"
      by (cases pc) auto
    then have "grid_move g q c" "q = S \<or> q \<in> dom m" using inv by (auto simp: parents_ok_def)
    with eq show "?P (reconstruct_step m pc)" by (auto simp: reconstruct_step_def walk_Cons)
  next
    show "?P ([e], e)" using e by (simp add: walk_def)
  qed
  moreover have "m cur = None" using while_option_stop[OF w] by simp
  ultimately have "walk (grid_move g) S e (rev pth)" by auto
  with p show ?thesis by (simp add: grid_walk_def)
qed

text \<open>Parents that lead round in a circle: the loop of \<open>reconstruct_path\<close> does not end.\<close>

lemma reconstruct_diverges:
  assumes "e \<in> X" and "\<And>x. x \<in> X \<Longrightarrow> \<exists>p \<in> X. m x = Some p"
  shows "reconstruct_path m e = None"
proof (rule ccontr)
  assume "reconstruct_path m e \<noteq> None"
  then obtain pth cur where
    w: "while_option (\<lambda>(path, cur). m cur \<noteq> None) (reconstruct_step m) ([e], e) = Some (pth, cur)"
    by (auto simp: reconstruct_path_def split: option.splits)
  have "snd (pth, cur) \<in> X"
    by (rule while_option_rule[OF _ w])
      (use assms in \<open>force simp: reconstruct_step_def split: option.splits\<close>)+
  then show False using while_option_stop[OF w] assms(2)[of cur] by auto
qed

section \<open>The main loop\<close>

definition jps_post :: "bool grid \<Rightarrow> point \<Rightarrow> point \<Rightarrow> jps_state \<Rightarrow> point list result \<Rightarrow> bool" where
  "jps_post g S e s r \<longleftrightarrow>
     (\<forall>path. r = Inr path \<longrightarrow> wf_grid g \<longrightarrow> is_inside g S \<longrightarrow> jps_inv g S s \<longrightarrow> path \<noteq> [] \<longrightarrow>
        grid_walk g S e path)"

lemma jps_pop_inv:
  assumes "jps_inv g S s" "js_open s \<noteq> []"
  shows "jps_inv g S (snd (jps_pop pick s))"
    and "fst (jps_pop pick s) = S \<or> fst (jps_pop pick s) \<in> dom (js_parents (snd (jps_pop pick s)))"
proof -
  let ?n = "fst (pq_pop pick (js_pops s) (js_open s))"
  have "?n \<in> set (js_open s)" using oq.pop_mem[of "js_open s"] assms(2) by simp
  then show "fst (jps_pop pick s) = S \<or> fst (jps_pop pick s) \<in> dom (js_parents (snd (jps_pop pick s)))"
    using assms(1) by (auto simp: jps_pop_def jps_inv_def split_beta)
  have "\<And>n. n \<in> set (snd (pq_pop pick (js_pops s) (js_open s))) \<Longrightarrow> n \<in> set (js_open s)"
    using oq.pop_rest[of "js_open s"] assms(2) by simp
  then show "jps_inv g S (snd (jps_pop pick s))"
    using assms(1) by (auto simp: jps_pop_def jps_inv_def split_beta)
qed

lemma jump_inv:
  assumes "wf_grid g" "is_inside g S" "jps_inv g S s" "p = S \<or> p \<in> dom (js_parents s)"
    and "jump g e p s = Some (Inr s')"
  shows "jps_inv g S s'"
proof -
  have "is_inside g p"
    using assms(2-4) by (auto simp: jps_inv_def parents_ok_def grid_move_def passable_def)
  note adj = set_8way_adjacents(1)[OF assms(1) this]
  show ?thesis
  proof (rule jump_over_inv(1)[OF assms(1) \<open>is_inside g p\<close> assms(5)[unfolded jump_def]])
    show "jps_inv g S (jps_close p s)" using assms(3) by simp
    show "p = S \<or> p \<in> dom (js_parents (jps_close p s))" using assms(4) by simp
    show "\<And>n. n \<in> set (get_8way_adjacents g p) \<Longrightarrow> adj8 p n \<and> is_inside g n" by (simp add: adj)
  qed
qed

lemma jps_loop_sound: "jps_loop pick g e s = Some r \<Longrightarrow> jps_post g S e s r"
proof (rule jps_loop.raw_induct [where P = "\<lambda>pick g e s r. jps_post g S e s r"])
  fix f pick g e s r
  assume IH: "\<And>pick g e s r. f pick g e s = Some r \<Longrightarrow> jps_post g S e s r"
    and eq: "(if js_open s = [] then Some (Inr [])
      else Option.bind (jump g e (fst (jps_pop pick s)) (snd (jps_pop pick s)))
        (\<lambda>res. case res of
           Inl ex \<Rightarrow> Some (Inl ex)
         | Inr s' \<Rightarrow>
             if js_parents s' e \<noteq> None then map_option Inr (reconstruct_path (js_parents s') e)
             else f pick g e s')) = Some r"
  show "jps_post g S e s r"
    unfolding jps_post_def
  proof (intro allI impI)
    fix path
    assume r: "r = Inr path" "path \<noteq> []" and wf: "wf_grid g" "is_inside g S" and inv: "jps_inv g S s"
    from eq r have ne: "js_open s \<noteq> []" by auto
    with eq r obtain s' where j: "jump g e (fst (jps_pop pick s)) (snd (jps_pop pick s)) = Some (Inr s')"
      and fin: "(if js_parents s' e \<noteq> None then map_option Inr (reconstruct_path (js_parents s') e)
          else f pick g e s') = Some (Inr path)"
      by (auto simp: bind_result_Some)
    have inv': "jps_inv g S s'"
      using jump_inv[OF wf jps_pop_inv[OF inv ne] j] .
    show "grid_walk g S e path"
    proof (cases "js_parents s' e = None")
      case True
      with fin r have "f pick g e s' = Some r" by simp
      from IH[OF this] r wf inv' show ?thesis by (auto simp: jps_post_def)
    next
      case False
      with fin inv' show ?thesis
        by (intro reconstruct_sound[of g S "js_parents s'"]) (auto simp: jps_inv_def)
    qed
  qed
qed

end
