(* ===== verification/Pathfinder.thy ===== *)
theory Pathfinder
  imports Astar_Correct Jps
begin

text \<open>
  \<open>Pathfinder::find_path\<close> of \<open>tower/world/path_finder.hpp\<close> and what its two algorithms promise.
  The default, A*, is used by the monsters; it returns a cheapest walk whenever there is one. The
  jump point search is selected only by the tests: a path it returns is a walk over free cells, but
  it may not return at all.
\<close>

datatype algorithm = ASTAR | JPS

definition find_path ::
  "(nat \<Rightarrow> nat) \<Rightarrow> bool grid \<Rightarrow> point \<Rightarrow> point \<Rightarrow> algorithm \<Rightarrow> point list result option" where
  "find_path pick g s e alg =
     (if alg = ASTAR then astar pick g s e
      else if alg = JPS then jps pick g s e
      else Some (Inr []))"

section \<open>Grids for the witnesses\<close>

definition test_grid :: "bool grid" where
  "test_grid = grid_of_data
     [False, False, False,
      True,  True,  False,
      False, False, False] 3 3"

definition walled_grid :: "bool grid" where
  "walled_grid = grid_of_data
     [False, False,
      True,  True,
      False, False] 3 2"

definition jps_grid :: "bool grid" where
  "jps_grid = grid_of_data
     [False, True,  False, False,
      False, False, False, False,
      False, False, False, False] 3 4"

lemma wf_test_grid: "wf_grid test_grid" by code_simp

lemma wf_walled_grid: "wf_grid walled_grid" by code_simp

lemma wf_jps_grid: "wf_grid jps_grid" by code_simp

lemma test_path:
  "find_path (\<lambda>_. 0) test_grid (Point 0 0) (Point 2 0) ASTAR
     = Some (Inr [Point 0 0, Point 0 1, Point 1 2, Point 2 1, Point 2 0])"
  by code_simp

section \<open>A*\<close>

lemma astar_grid_cases:
  assumes "wf_grid g"
  obtains (found) path where "find_path pick g s e ASTAR = Some (Inr path)" and "path \<noteq> []"
      and "grid_walk g s e path" and "distinct path"
      and "\<And>xs. grid_walk g s e xs \<Longrightarrow> path_cost path \<le> path_cost xs"
    | (none) "find_path pick g s e ASTAR = Some (Inr [])"
      and "is_inside g s \<Longrightarrow> is_inside g e \<Longrightarrow> \<not> (\<exists>xs. grid_walk g s e xs)"
proof (cases "is_inside g s \<and> is_inside g e")
  case True
  then show thesis
    using astar_cases[OF assms, of s e pick thesis] found none
    by (auto simp: find_path_def grid_walk_def walk_def)
next
  case False
  then show thesis using astar_outside[OF False] none by (auto simp: find_path_def)
qed

text \<open>C32. A* always returns, without an exception, from a well-formed grid.\<close>

theorem astar_returns:
  assumes "wf_grid g"
  shows "\<exists>path. find_path pick g s e ASTAR = Some (Inr path)"
  by (rule astar_grid_cases[OF assms, of pick s e]) auto

theorem astar_returns_witness:
  "\<exists>path. find_path (\<lambda>_. 0) test_grid (Point 0 0) (Point 2 0) ASTAR = Some (Inr path)"
  by (rule astar_returns[OF wf_test_grid])

text \<open>C31. A non-empty result of A* is a walk from \<open>start\<close> to \<open>end\<close> whose every step goes to one of
  the eight neighbours and onto a free cell inside the grid, and no cell is visited twice.\<close>

theorem astar_path_valid:
  assumes "wf_grid g" and "find_path pick g s e ASTAR = Some (Inr path)" and "path \<noteq> []"
  shows "grid_walk g s e path \<and> distinct path"
  by (rule astar_grid_cases[OF assms(1), of pick s e]) (use assms(2,3) in auto)

theorem astar_path_valid_witness:
  "grid_walk test_grid (Point 0 0) (Point 2 0)
     [Point 0 0, Point 0 1, Point 1 2, Point 2 1, Point 2 0]
   \<and> distinct [Point 0 0, Point 0 1, Point 1 2, Point 2 1, Point 2 0]"
  by (rule astar_path_valid[OF wf_test_grid test_path]) simp

text \<open>C9. A* is complete: between two cells of the grid it returns the empty path exactly when
  there is no walk over free cells.\<close>

theorem astar_complete:
  assumes "wf_grid g" and "is_inside g s" and "is_inside g e"
  shows "find_path pick g s e ASTAR = Some (Inr []) \<longleftrightarrow> \<not> (\<exists>xs. grid_walk g s e xs)"
  by (rule astar_grid_cases[OF assms(1), of pick s e]) (use assms(2,3) in auto)

theorem astar_complete_witness:
  "\<not> (\<exists>xs. grid_walk walled_grid (Point 0 0) (Point 2 1) xs)"
proof -
  have "is_inside walled_grid (Point 0 0)" "is_inside walled_grid (Point 2 1)" by code_simp+
  moreover have "find_path (\<lambda>_. 0) walled_grid (Point 0 0) (Point 2 1) ASTAR = Some (Inr [])"
    by code_simp
  ultimately show ?thesis using astar_complete[OF wf_walled_grid] by blast
qed

text \<open>C8. A* is optimal for its own cost: no walk over free cells is cheaper than the returned path,
  where a straight move costs 1 and a diagonal one 2 (the Manhattan length of the move).\<close>

theorem astar_optimal:
  assumes "wf_grid g" and "find_path pick g s e ASTAR = Some (Inr path)" and "path \<noteq> []"
    and "grid_walk g s e xs"
  shows "path_cost path \<le> path_cost xs"
  by (rule astar_grid_cases[OF assms(1), of pick s e]) (use assms(2-4) in auto)

theorem astar_optimal_witness:
  "path_cost [Point 0 0, Point 0 1, Point 1 2, Point 2 1, Point 2 0]
     \<le> path_cost [Point 0 0, Point 0 1, Point 0 2, Point 1 2, Point 2 2, Point 2 1, Point 2 0]"
proof (rule astar_optimal[OF wf_test_grid test_path])
  show "grid_walk test_grid (Point 0 0) (Point 2 0)
      [Point 0 0, Point 0 1, Point 0 2, Point 1 2, Point 2 2, Point 2 1, Point 2 0]"
    by code_simp
qed simp

section \<open>Jump point search\<close>

text \<open>A non-empty path returned by the jump point search is a walk over free cells from
  \<open>start\<close> to \<open>end\<close>.\<close>

theorem jps_path_valid:
  assumes "wf_grid g" and "is_inside g s" and "find_path pick g s e JPS = Some (Inr path)"
    and "path \<noteq> []"
  shows "grid_walk g s e path"
proof -
  have "jps_inv g s (jps_init s)"
    by (simp add: jps_inv_def parents_ok_def jps_init_def pq_push_def)
  moreover have "jps_loop pick g e (jps_init s) = Some (Inr path)"
    using assms(3) by (simp add: find_path_def jps_def)
  ultimately show ?thesis
    using jps_loop_sound[of pick g e "jps_init s" "Inr path" s] assms by (simp add: jps_post_def)
qed

lemma jps_test_path:
  "find_path (\<lambda>_. 0) test_grid (Point 0 0) (Point 2 0) JPS
     = Some (Inr [Point 0 0, Point 0 1, Point 1 2, Point 2 1, Point 2 0])"
  by code_simp

theorem jps_path_valid_witness:
  "grid_walk test_grid (Point 0 0) (Point 2 0)
     [Point 0 0, Point 0 1, Point 1 2, Point 2 1, Point 2 0]"
proof (rule jps_path_valid[OF wf_test_grid _ jps_test_path])
  show "is_inside test_grid (Point 0 0)" by code_simp
qed simp

text \<open>Which of the tied nodes is popped does not matter where there is only one.\<close>

lemma jps_pop_single:
  assumes "length (pq_ties (js_open s)) = 1"
  shows "jps_pop pick s = jps_pop (\<lambda>_. 0) s"
  using assms by (simp add: jps_pop_def pq_pop_def pq_top_index_def)

lemma jps_hang_run:
  "returns (jump jps_grid (Point 0 0) (fst (jps_pop (\<lambda>_. 0) (jps_init (Point 0 3))))
          (snd (jps_pop (\<lambda>_. 0) (jps_init (Point 0 3)))))
     (\<lambda>s1. js_parents s1 (Point 0 0) = None \<and> js_open s1 \<noteq> [] \<and> length (pq_ties (js_open s1)) = 1
       \<and> returns (jump jps_grid (Point 0 0) (fst (jps_pop (\<lambda>_. 0) s1)) (snd (jps_pop (\<lambda>_. 0) s1)))
           (\<lambda>s2. js_parents s2 (Point 0 0) = Some (Point 1 1)
              \<and> js_parents s2 (Point 1 1) = Some (Point 1 2)
              \<and> js_parents s2 (Point 1 2) = Some (Point 1 1)))"
  by code_simp

text \<open>C33. The jump point search may not return: on a 3x4 grid with a single obstacle at (0, 1),
  from (0, 3) to (0, 0), \<open>probe\<close> overwrites the parent of a jump point with one of its own
  successors, and \<open>reconstruct_path\<close> walks round that cycle for ever, whatever the open list's
  tie-breaking.\<close>

theorem jps_hangs: "find_path pick jps_grid (Point 0 3) (Point 0 0) JPS = None"
proof -
  let ?g = jps_grid and ?e = "Point 0 0" and ?s0 = "jps_init (Point 0 3)"
  obtain s1 s2 where j1: "jump ?g ?e (fst (jps_pop (\<lambda>_. 0) ?s0)) (snd (jps_pop (\<lambda>_. 0) ?s0)) = Some (Inr s1)"
    and s1: "js_parents s1 ?e = None" "js_open s1 \<noteq> []" "length (pq_ties (js_open s1)) = 1"
    and j2: "jump ?g ?e (fst (jps_pop (\<lambda>_. 0) s1)) (snd (jps_pop (\<lambda>_. 0) s1)) = Some (Inr s2)"
    and s2: "js_parents s2 ?e = Some (Point 1 1)" "js_parents s2 (Point 1 1) = Some (Point 1 2)"
      "js_parents s2 (Point 1 2) = Some (Point 1 1)"
    using jps_hang_run unfolding returns_iff by blast
  have p0: "jps_pop pick ?s0 = jps_pop (\<lambda>_. 0) ?s0" by (rule jps_pop_single) code_simp
  have p1: "jps_pop pick s1 = jps_pop (\<lambda>_. 0) s1" by (rule jps_pop_single) (rule s1(3))
  have "reconstruct_path (js_parents s2) ?e = None"
    by (rule reconstruct_diverges[of _ "{Point 0 0, Point 1 1, Point 1 2}"]) (use s2 in auto)
  then have "jps_loop pick ?g ?e s1 = None"
    by (subst jps_loop.simps) (simp add: p1 j2 s1 s2)
  moreover have "js_open ?s0 \<noteq> []" by (simp add: jps_init_def pq_push_def)
  ultimately have "jps_loop pick ?g ?e ?s0 = None"
    by (subst jps_loop.simps) (simp add: p0 j1 s1)
  then show ?thesis by (simp add: find_path_def jps_def)
qed

end
