(* ===== verification/Unit_Tests.thy ===== *)
theory Unit_Tests
  imports Pathfinder
begin

text \<open>
  The repository's own test of the path finder (\<open>world/path_finder.test.cpp\<close>) on the model: its three grids of
  \<open>int\<close>, and the lemmas that the \<open>REQUIRE\<close>s of three of its four sections hold. Those of A* hold whatever the
  priority queue does with equal priorities; "JPS path not found" is run with the first of them. The section
  "JPS path found" is left out: the search on 25 cells is too long for an evaluation in the kernel.
\<close>

section \<open>The test\<close>

text \<open>A cell of a \<open>Grid<int>\<close> is read through \<open>static_cast<bool>\<close> only.\<close>

definition int_grid :: "int list \<Rightarrow> size_t \<Rightarrow> size_t \<Rightarrow> bool grid" where
  "int_grid data rs cs = grid_of_data (map (\<lambda>i. i \<noteq> 0) data) rs cs"

definition grid1 :: "bool grid" where
  "grid1 = int_grid
     [0, 0, 0, 0, 0,
      1, 1, 1, 0, 0,
      0, 0, 0, 0, 0,
      0, 0, 0, 0, 0,
      0, 0, 0, 0, 0] 5 5"

definition grid2 :: "bool grid" where
  "grid2 = int_grid
     [0, 0, 0, 0, 0,
      0, 0, 0, 0, 0,
      0, 0, 0, 0, 0,
      0, 0, 0, 0, 0,
      0, 0, 0, 0, 0] 5 5"

definition grid3 :: "bool grid" where
  "grid3 = int_grid
     [0, 0, 0, 0, 0,
      1, 1, 1, 1, 1,
      0, 0, 0, 0, 0,
      0, 0, 0, 0, 0,
      0, 0, 0, 0, 0] 5 5"

definition path_found :: "(nat \<Rightarrow> nat) \<Rightarrow> algorithm \<Rightarrow> bool grid \<Rightarrow> bool" where
  "path_found pick alg g = returns (find_path pick g (Point 0 0) (Point 4 4) alg) (\<lambda>path. path \<noteq> [])"

definition path_not_found :: "(nat \<Rightarrow> nat) \<Rightarrow> algorithm \<Rightarrow> bool grid \<Rightarrow> bool" where
  "path_not_found pick alg g = returns (find_path pick g (Point 0 0) (Point 4 4) alg) (\<lambda>path. path = [])"

section \<open>It passes\<close>

lemma wf_test_grids: "wf_grid grid1" "wf_grid grid2" "wf_grid grid3" by code_simp+

lemma corners_inside: "is_inside g (Point 0 0) \<and> is_inside g (Point 4 4)" if "g \<in> {grid1, grid2, grid3}"
  using that by (elim insertE emptyE; hypsubst) code_simp+

lemma astar_found:
  assumes "wf_grid g" "is_inside g (Point 0 0)" "is_inside g (Point 4 4)" "grid_walk g (Point 0 0) (Point 4 4) xs"
  shows "path_found pick ASTAR g"
  by (rule astar_grid_cases[OF assms(1), of pick "Point 0 0" "Point 4 4"])
    (use assms(2-4) in \<open>auto simp: path_found_def returns_iff\<close>)

lemma section_astar_found: "path_found pick ASTAR grid1 \<and> path_found pick ASTAR grid2"
proof
  have "grid_walk grid1 (Point 0 0) (Point 4 4)
      [Point 0 0, Point 0 1, Point 0 2, Point 1 3, Point 2 4, Point 3 4, Point 4 4]" by code_simp
  then show "path_found pick ASTAR grid1" using astar_found wf_test_grids(1) corners_inside by simp
  have "grid_walk grid2 (Point 0 0) (Point 4 4) [Point 0 0, Point 1 1, Point 2 2, Point 3 3, Point 4 4]" by code_simp
  then show "path_found pick ASTAR grid2" using astar_found wf_test_grids(2) corners_inside by simp
qed

lemma section_jps_not_found: "path_not_found (\<lambda>_. 0) JPS grid3"
  by code_simp

text \<open>No walk leaves the first row of \<open>grid3\<close>: the second one is blocked.\<close>

lemma grid3_row1: "\<not> passable grid3 (Point 1 c)" if "c \<in> {0, 1, 2, 3, 4}"
  using that by (elim insertE emptyE; hypsubst) code_simp+

lemma grid3_stays: "successively (grid_move grid3) (p # xs) \<Longrightarrow> pt_r p = 0 \<Longrightarrow> pt_r (last (p # xs)) = 0"
proof (induction xs arbitrary: p)
  case (Cons q xs)
  then have m: "adj8 p q" "passable grid3 q" by (simp_all add: grid_move_def)
  have "grid_rows grid3 = 5" "grid_cols grid3 = 5" by (simp_all add: grid3_def int_grid_def grid_of_data_def)
  then have "0 \<le> pt_r q" "0 \<le> pt_c q" "pt_c q < 5"
    using m(2) by (auto simp: passable_def is_inside_def is_inside_rc_def static_cast_int_def)
  moreover have "pt_r q \<noteq> 1"
  proof
    assume "pt_r q = 1"
    moreover have "pt_c q \<in> {0, 1, 2, 3, 4}" using \<open>0 \<le> pt_c q\<close> \<open>pt_c q < 5\<close> by auto
    ultimately show False using grid3_row1[of "pt_c q"] m(2) by (cases q) auto
  qed
  moreover have "pt_r q \<le> pt_r p + 1" using m(1) by (auto simp: adj8_def)
  ultimately have "pt_r q = 0" using Cons.prems(2) by simp
  then show ?case using Cons by simp
qed simp

lemma section_astar_not_found: "path_not_found pick ASTAR grid3"
proof -
  have no_walk: "\<not> grid_walk grid3 (Point 0 0) (Point 4 4) xs" for xs
    using grid3_stays[of "hd xs" "tl xs"] by (cases xs) (auto simp: grid_walk_def walk_def)
  have "find_path pick grid3 (Point 0 0) (Point 4 4) ASTAR = Some (Inr [])"
    by (rule astar_grid_cases[OF wf_test_grids(3), of pick "Point 0 0" "Point 4 4"]) (simp_all add: no_walk)
  then show ?thesis by (simp add: path_not_found_def returns_def)
qed

end
