(* ===== verification/Umap.thy ===== *)
theory Umap
  imports Prelude
begin

text \<open>
  \<open>std::unordered_map\<close> and \<open>std::unordered_set\<close> where the sources iterate over them or their size
  matters: an association list with distinct keys. C++ leaves the iteration order open; the list
  order is arbitrary, and theorems are stated for every list.

  The contract that clients of a map rely on is the locale \<open>lookup_map\<close>; a second locale extends it
  for two maps with the same keys.
\<close>

type_synonym ('k, 'v) umap = "('k \<times> 'v) list"

definition um_ok :: "('k, 'v) umap \<Rightarrow> bool" where
  "um_ok m \<longleftrightarrow> distinct (map fst m)"

definition um_find :: "('k, 'v) umap \<Rightarrow> 'k \<Rightarrow> 'v option" where
  "um_find m k = map_of m k"

definition um_contains :: "('k, 'v) umap \<Rightarrow> 'k \<Rightarrow> bool" where
  "um_contains m k \<longleftrightarrow> um_find m k \<noteq> None"

definition um_at :: "('k, 'v) umap \<Rightarrow> 'k \<Rightarrow> 'v result" where
  "um_at m k = (case um_find m k of None \<Rightarrow> Inl Out_of_range | Some v \<Rightarrow> Inr v)"

text \<open>\<open>insert_or_assign\<close>, and \<open>m[k] = v\<close>.\<close>

definition um_assign :: "'k \<Rightarrow> 'v \<Rightarrow> ('k, 'v) umap \<Rightarrow> ('k, 'v) umap" where
  "um_assign k v m = AList.update k v m"

text \<open>\<open>insert\<close> and \<open>emplace\<close>: an existing entry stays.\<close>

definition um_insert :: "'k \<Rightarrow> 'v \<Rightarrow> ('k, 'v) umap \<Rightarrow> ('k, 'v) umap" where
  "um_insert k v m = (if um_contains m k then m else um_assign k v m)"

definition um_erase :: "'k \<Rightarrow> ('k, 'v) umap \<Rightarrow> ('k, 'v) umap" where
  "um_erase k m = AList.delete k m"

definition um_keys :: "('k, 'v) umap \<Rightarrow> 'k list" where
  "um_keys m = map fst m"

definition um_values :: "('k, 'v) umap \<Rightarrow> 'v list" where
  "um_values m = map snd m"

section \<open>The contract of a map\<close>

locale lookup_map =
  fixes ok :: "'m \<Rightarrow> bool"
    and find :: "'m \<Rightarrow> 'k \<Rightarrow> 'v option"
    and assign :: "'k \<Rightarrow> 'v \<Rightarrow> 'm \<Rightarrow> 'm"
    and erase :: "'k \<Rightarrow> 'm \<Rightarrow> 'm"
  assumes find_assign: "ok m \<Longrightarrow> find (assign k v m) k' = (if k' = k then Some v else find m k')"
    and find_erase: "ok m \<Longrightarrow> find (erase k m) k' = (if k' = k then None else find m k')"
    and ok_assign: "ok m \<Longrightarrow> ok (assign k v m)"
    and ok_erase: "ok m \<Longrightarrow> ok (erase k m)"
begin

definition keys :: "'m \<Rightarrow> 'k set" where
  "keys m = {k. find m k \<noteq> None}"

lemma keys_assign: "ok m \<Longrightarrow> keys (assign k v m) = insert k (keys m)"
  by (auto simp: keys_def find_assign)

lemma keys_erase: "ok m \<Longrightarrow> keys (erase k m) = keys m - {k}"
  by (auto simp: keys_def find_erase)

text \<open>A fresh key that is assigned and erased leaves the map as it was.\<close>

lemma find_erase_assign:
  assumes "ok m" "k \<notin> keys m"
  shows "find (erase k (assign k v m)) = find m"
  using assms by (auto simp: keys_def fun_eq_iff find_erase find_assign ok_assign)

lemma find_fold_assign:
  assumes "ok m"
  shows "ok (fold (\<lambda>(k, v). assign k v) kvs m)
    \<and> find (fold (\<lambda>(k, v). assign k v) kvs m) k = (case map_of (rev kvs) k of Some v \<Rightarrow> Some v | None \<Rightarrow> find m k)"
  using assms
proof (induction kvs arbitrary: m)
  case Nil
  then show ?case by simp
next
  case (Cons kv kvs)
  obtain k0 v0 where kv: "kv = (k0, v0)" by fastforce
  have "ok (assign k0 v0 m)" using Cons.prems by (rule ok_assign)
  from Cons.IH[OF this] show ?case
    using Cons.prems by (auto simp: kv find_assign map_add_def split: option.splits)
qed

lemma find_fold_erase:
  assumes "ok m"
  shows "ok (fold erase ks m) \<and> find (fold erase ks m) k = (if k \<in> set ks then None else find m k)"
  using assms
proof (induction ks arbitrary: m)
  case (Cons k0 ks)
  from Cons.IH[OF ok_erase[OF Cons.prems, of k0]] show ?case
    using Cons.prems by (auto simp: find_erase)
qed simp

end

text \<open>Two maps that are always updated for the same keys have the same keys.\<close>

locale paired_maps =
  left: lookup_map ok1 find1 assign1 erase1 + right: lookup_map ok2 find2 assign2 erase2
  for ok1 :: "'m \<Rightarrow> bool" and find1 :: "'m \<Rightarrow> 'k \<Rightarrow> 'v option"
    and assign1 erase1
    and ok2 :: "'n \<Rightarrow> bool" and find2 :: "'n \<Rightarrow> 'k \<Rightarrow> 'w option"
    and assign2 erase2
begin

definition agree :: "'m \<Rightarrow> 'n \<Rightarrow> bool" where
  "agree m n \<longleftrightarrow> ok1 m \<and> ok2 n \<and> left.keys m = right.keys n"

lemma agree_assign: "agree m n \<Longrightarrow> agree (assign1 k v m) (assign2 k w n)"
  by (auto simp: agree_def left.keys_assign right.keys_assign left.ok_assign right.ok_assign)

lemma agree_erase: "agree m n \<Longrightarrow> agree (erase1 k m) (erase2 k n)"
  by (auto simp: agree_def left.keys_erase right.keys_erase left.ok_erase right.ok_erase)

lemma agree_overwrite: "agree m n \<Longrightarrow> find1 m k \<noteq> None \<Longrightarrow> agree m (assign2 k w n)"
  by (auto simp: agree_def right.keys_assign right.ok_assign left.keys_def)

end

section \<open>The association list keeps the contract\<close>

lemma um_ok_assign [simp, umap_simps]: "um_ok m \<Longrightarrow> um_ok (um_assign k v m)"
  by (simp add: um_ok_def um_assign_def distinct_update)

lemma um_ok_erase [simp, umap_simps]: "um_ok m \<Longrightarrow> um_ok (um_erase k m)"
  by (simp add: um_ok_def um_erase_def distinct_delete)

lemma um_ok_insert [simp, umap_simps]: "um_ok m \<Longrightarrow> um_ok (um_insert k v m)"
  by (simp add: um_insert_def)

lemma um_ok_Nil [simp, umap_simps]: "um_ok []"
  by (simp add: um_ok_def)

lemma um_find_Nil [simp, umap_simps]: "um_find [] k = None"
  by (simp add: um_find_def)

lemma um_find_assign [simp, umap_simps]:
  "um_find (um_assign k v m) k' = (if k' = k then Some v else um_find m k')"
  by (simp add: um_find_def um_assign_def update_conv')

lemma um_find_erase [simp, umap_simps]:
  "um_find (um_erase k m) k' = (if k' = k then None else um_find m k')"
  by (simp add: um_find_def um_erase_def delete_conv')

lemma um_find_insert [umap_simps]:
  "um_find (um_insert k v m) k' = (if k' = k \<and> um_find m k = None then Some v else um_find m k')"
  by (auto simp: um_insert_def um_contains_def)

interpretation um: lookup_map um_ok um_find um_assign um_erase
  by unfold_locales simp_all

interpretation um2: paired_maps um_ok um_find um_assign um_erase um_ok um_find um_assign um_erase
  by unfold_locales

lemma um_keys_eq: "um.keys m = set (um_keys m)"
  by (auto simp: um.keys_def um_find_def um_keys_def map_of_eq_None_iff)

lemma um_find_in_values: "um_find m k = Some v \<Longrightarrow> v \<in> set (um_values m)"
  using map_of_SomeD[of m k v] unfolding um_find_def um_values_def by force

lemma um_find_mem: "um_ok m \<Longrightarrow> um_find m k = Some v \<longleftrightarrow> (k, v) \<in> set m"
  by (simp add: um_ok_def um_find_def)

lemma um_keys_distinct: "um_ok m \<Longrightarrow> distinct (um_keys m)"
  by (simp add: um_ok_def um_keys_def)

lemma um_in_values: "um_ok m \<Longrightarrow> v \<in> set (um_values m) \<longleftrightarrow> (\<exists>k. um_find m k = Some v)"
  by (force simp: um_find_mem um_values_def)

lemma um_at_Inr [simp]: "um_at m k = Inr v \<longleftrightarrow> um_find m k = Some v"
  by (simp add: um_at_def split: option.split)

lemma um_erase_absent: "um_find m k = None \<Longrightarrow> um_erase k m = m"
  by (simp add: um_find_def um_erase_def map_of_eq_None_iff delete_idem)

lemma um_empty_iff: "m = [] \<longleftrightarrow> (\<forall>k. um_find m k = None)"
  by (cases m) (auto simp: um_find_def split: if_splits)

end
