(* ===== verification/State_Machine.thy ===== *)
theory State_Machine
  imports Umap
begin

text \<open>
  \<open>State\<close> and \<open>StateMachine\<close> of \<open>tower/system\<close>, and the two-state machine (Idle, Attacking) that
  \<open>Player\<close> and \<open>SimpleMonster\<close> build from them.

  A transition condition and the hooks \<open>enter\<close> and \<open>exit\<close> read and change the surrounding program
  state, the type \<open>'w\<close>. The machine holds its current state by a raw pointer into the map that owns
  the states: null, a state of the map, or dangling once \<open>add_state\<close> has replaced that state.
  Reading through a dangling pointer is undefined behaviour, the value \<open>None\<close>.

  A delayed transition is a coroutine on the zone's strand: spawned, waiting for its own timer,
  expired or cancelled (queued to resume), and then gone. \<open>cancel\<close> only reaches a coroutine that
  is waiting; that is how asio defines it.
\<close>

section \<open>States\<close>

record 'w cxx_state =
  st_name :: string
  st_transitions :: "(string, 'w \<Rightarrow> bool) umap"
  st_enter :: "'w \<Rightarrow> 'w"
  st_exit :: "'w \<Rightarrow> 'w"

definition add_transition :: "string \<Rightarrow> ('w \<Rightarrow> bool) \<Rightarrow> 'w cxx_state \<Rightarrow> 'w cxx_state" where
  "add_transition state_name condition st =
     st\<lparr>st_transitions := um_assign state_name condition (st_transitions st)\<rparr>"

definition state_can_transition :: "'w cxx_state \<Rightarrow> string \<Rightarrow> 'w \<Rightarrow> bool" where
  "state_can_transition st next_state_name w =
     (case um_find (st_transitions st) next_state_name of
        None \<Rightarrow> False
      | Some condition \<Rightarrow> condition w)"

section \<open>The machine\<close>

datatype state_ptr = Null_state | State_at string | Dangling_state

datatype delay_phase = Spawned | Waiting | Expired | Cancelled

record delayed =
  dl_timer :: nat
  dl_target :: string
  dl_due :: int
  dl_phase :: delay_phase

record 'w state_machine =
  sm_current :: state_ptr
  sm_states :: "(string, 'w cxx_state) umap"
  sm_timer :: "nat option"
  sm_timers :: nat
  sm_delayed :: "delayed list"

definition sm_new :: "'w state_machine" where
  "sm_new = \<lparr>sm_current = Null_state, sm_states = [], sm_timer = None, sm_timers = 0, sm_delayed = []\<rparr>"

definition sm_add_state :: "'w cxx_state \<Rightarrow> 'w state_machine \<Rightarrow> 'w state_machine" where
  "sm_add_state st sm =
     sm\<lparr>sm_states := um_assign (st_name st) st (sm_states sm),
        sm_current := (if sm_current sm = State_at (st_name st) then Dangling_state
                       else sm_current sm)\<rparr>"

definition sm_set_initial_state :: "string \<Rightarrow> 'w state_machine \<Rightarrow> 'w state_machine" where
  "sm_set_initial_state state_name sm =
     (if um_contains (sm_states sm) state_name then sm\<lparr>sm_current := State_at state_name\<rparr> else sm)"

text \<open>The object behind \<open>_current_state\<close>: \<open>Some None\<close> is the null pointer.\<close>

definition sm_deref :: "'w state_machine \<Rightarrow> 'w cxx_state option option" where
  "sm_deref sm =
     (case sm_current sm of
        Null_state \<Rightarrow> Some None
      | State_at n \<Rightarrow> map_option Some (um_find (sm_states sm) n)
      | Dangling_state \<Rightarrow> None)"

definition sm_can_transition :: "'w state_machine \<Rightarrow> string \<Rightarrow> 'w \<Rightarrow> bool option" where
  "sm_can_transition sm new_state_name w =
     (case sm_deref sm of
        None \<Rightarrow> None
      | Some None \<Rightarrow> Some False
      | Some (Some st) \<Rightarrow> Some (state_can_transition st new_state_name w))"

definition sm_try_transition ::
  "string \<Rightarrow> 'w state_machine \<Rightarrow> 'w \<Rightarrow> (bool \<times> 'w state_machine \<times> 'w) option" where
  "sm_try_transition new_state_name sm w =
     (case sm_deref sm of
        None \<Rightarrow> None
      | Some None \<Rightarrow> Some (False, sm, w)
      | Some (Some st) \<Rightarrow>
          if \<not> state_can_transition st new_state_name w then Some (False, sm, w)
          else case um_find (sm_states sm) new_state_name of
            None \<Rightarrow> Some (False, sm, w)
          | Some new_state \<Rightarrow>
              Some (True, sm\<lparr>sm_current := State_at new_state_name\<rparr>,
                    st_enter new_state (st_exit st w)))"

definition cancel_timer :: "nat \<Rightarrow> delayed list \<Rightarrow> delayed list" where
  "cancel_timer t ds =
     map (\<lambda>d. if dl_timer d = t \<and> dl_phase d = Waiting then d\<lparr>dl_phase := Cancelled\<rparr> else d) ds"

definition sm_abort :: "'w state_machine \<Rightarrow> 'w state_machine" where
  "sm_abort sm =
     (case sm_timer sm of
        None \<Rightarrow> sm
      | Some t \<Rightarrow> sm\<lparr>sm_delayed := cancel_timer t (sm_delayed sm), sm_timer := None\<rparr>)"

text \<open>\<open>now\<close> is the clock when \<open>expires_after\<close> is called; times are in milliseconds.\<close>

definition sm_transition_delayed ::
  "string \<Rightarrow> int \<Rightarrow> int \<Rightarrow> bool \<Rightarrow> 'w state_machine \<Rightarrow> 'w state_machine" where
  "sm_transition_delayed new_state_name now delay override sm =
     (let sm1 = (if override then sm_abort sm else sm); t = sm_timers sm1
      in sm1\<lparr>sm_timer := Some t, sm_timers := Suc t,
             sm_delayed := sm_delayed sm1 @
               [\<lparr>dl_timer = t, dl_target = new_state_name, dl_due = now + delay,
                 dl_phase = Spawned\<rparr>]\<rparr>)"

text \<open>The coroutine of timer \<open>t\<close>: it starts to wait, its timer expires, it resumes.\<close>

definition set_phase :: "nat \<Rightarrow> delay_phase \<Rightarrow> delayed list \<Rightarrow> delayed list" where
  "set_phase t p ds = map (\<lambda>d. if dl_timer d = t then d\<lparr>dl_phase := p\<rparr> else d) ds"

definition find_delayed :: "nat \<Rightarrow> 'w state_machine \<Rightarrow> delayed option" where
  "find_delayed t sm = List.find (\<lambda>d. dl_timer d = t) (sm_delayed sm)"

definition sm_begin_wait :: "nat \<Rightarrow> 'w state_machine \<Rightarrow> 'w state_machine option" where
  "sm_begin_wait t sm =
     (case find_delayed t sm of
        None \<Rightarrow> None
      | Some d \<Rightarrow>
          if dl_phase d = Spawned
          then Some (sm\<lparr>sm_delayed := set_phase t Waiting (sm_delayed sm)\<rparr>) else None)"

definition sm_expire :: "nat \<Rightarrow> int \<Rightarrow> 'w state_machine \<Rightarrow> 'w state_machine option" where
  "sm_expire t now sm =
     (case find_delayed t sm of
        None \<Rightarrow> None
      | Some d \<Rightarrow>
          if dl_phase d = Waiting \<and> dl_due d \<le> now
          then Some (sm\<lparr>sm_delayed := set_phase t Expired (sm_delayed sm)\<rparr>) else None)"

definition sm_resume :: "nat \<Rightarrow> 'w state_machine \<Rightarrow> 'w \<Rightarrow> ('w state_machine \<times> 'w) option" where
  "sm_resume t sm w =
     (case find_delayed t sm of
        None \<Rightarrow> None
      | Some d \<Rightarrow>
          (let sm1 = sm\<lparr>sm_delayed := filter (\<lambda>x. dl_timer x \<noteq> t) (sm_delayed sm)\<rparr> in
           case dl_phase d of
             Cancelled \<Rightarrow> Some (sm1, w)
           | Expired \<Rightarrow> map_option snd (sm_try_transition (dl_target d) sm1 w)
           | _ \<Rightarrow> None))"

section \<open>Transitions\<close>

definition sm_ok :: "'w state_machine \<Rightarrow> bool" where
  "sm_ok sm \<longleftrightarrow> (\<forall>n. sm_current sm = State_at n \<longrightarrow> um_contains (sm_states sm) n)"

lemma sm_try_iff:
  "sm_try_transition n sm w = Some (True, sm', w') \<longleftrightarrow>
     (\<exists>st st'. sm_deref sm = Some (Some st) \<and> state_can_transition st n w
        \<and> um_find (sm_states sm) n = Some st'
        \<and> sm' = sm\<lparr>sm_current := State_at n\<rparr> \<and> w' = st_enter st' (st_exit st w))"
  by (auto simp: sm_try_transition_def split: option.splits if_splits)

lemma sm_try_false:
  "sm_try_transition n sm w = Some (False, sm', w') \<Longrightarrow> sm' = sm \<and> w' = w"
  by (auto simp: sm_try_transition_def split: option.splits if_splits)

lemma sm_can_transition_iff:
  "sm_can_transition sm n w = Some True \<longleftrightarrow>
     (\<exists>st. sm_deref sm = Some (Some st) \<and> state_can_transition st n w)"
  by (auto simp: sm_can_transition_def split: option.splits)

section \<open>The machine of players and monsters\<close>

definition plain_state :: "string \<Rightarrow> 'w cxx_state" where
  "plain_state n = \<lparr>st_name = n, st_transitions = [], st_enter = id, st_exit = id\<rparr>"

text \<open>The states are moved into the machine after their transitions are set; the condition is the
  default argument.\<close>

definition combat_machine :: "'w state_machine" where
  "combat_machine =
     (let idle = plain_state ''Idle''; attacking = plain_state ''Attacking'';
          idle = add_transition (st_name attacking) (\<lambda>_. True) idle;
          attacking = add_transition (st_name idle) (\<lambda>_. True) attacking;
          idle_state_name = st_name idle
      in sm_set_initial_state idle_state_name (sm_add_state attacking (sm_add_state idle sm_new)))"

text \<open>An entity's machine with the clock and the times of its successful attacks, latest first.
  The attack is the guard and the last line of \<open>MeleeAttack::use\<close>.\<close>

record fighter =
  fg_sm :: "unit state_machine"
  fg_now :: int
  fg_attacks :: "int list"

datatype fight_event = Wait_for nat | Attack | Begin_wait nat | Expire nat | Resume nat

definition attack_cooldown_ms :: int where
  "attack_cooldown_ms = 1000"

fun fight_exec :: "fight_event \<Rightarrow> fighter \<Rightarrow> fighter option" where
  "fight_exec (Wait_for d) f = Some (f\<lparr>fg_now := fg_now f + int d\<rparr>)"
| "fight_exec Attack f =
     (case sm_try_transition ''Attacking'' (fg_sm f) () of
        None \<Rightarrow> None
      | Some (ok, sm, _) \<Rightarrow>
          if \<not> ok then Some f
          else Some (f\<lparr>fg_sm := sm_transition_delayed ''Idle'' (fg_now f) attack_cooldown_ms True sm,
                       fg_attacks := fg_now f # fg_attacks f\<rparr>))"
| "fight_exec (Begin_wait t) f = map_option (\<lambda>sm. f\<lparr>fg_sm := sm\<rparr>) (sm_begin_wait t (fg_sm f))"
| "fight_exec (Expire t) f = map_option (\<lambda>sm. f\<lparr>fg_sm := sm\<rparr>) (sm_expire t (fg_now f) (fg_sm f))"
| "fight_exec (Resume t) f = map_option (\<lambda>(sm, _). f\<lparr>fg_sm := sm\<rparr>) (sm_resume t (fg_sm f) ())"

definition fight_init :: fighter where
  "fight_init = \<lparr>fg_sm = combat_machine, fg_now = 0, fg_attacks = []\<rparr>"

primrec fight_run :: "fight_event list \<Rightarrow> fighter \<Rightarrow> fighter option" where
  "fight_run [] f = Some f"
| "fight_run (ev # evs) f = Option.bind (fight_exec ev f) (fight_run evs)"

inductive fight_reach :: "fighter \<Rightarrow> bool" where
  start: "fight_reach fight_init"
| event: "fight_reach f \<Longrightarrow> fight_exec ev f = Some f' \<Longrightarrow> fight_reach f'"

definition sm_table :: "(string, unit cxx_state) umap" where
  "sm_table = sm_states combat_machine"

lemma sm_table_eq:
  "sm_table =
     [(''Idle'', add_transition ''Attacking'' (\<lambda>_. True) (plain_state ''Idle'')),
      (''Attacking'', add_transition ''Idle'' (\<lambda>_. True) (plain_state ''Attacking''))]"
  by (simp add: sm_table_def combat_machine_def sm_add_state_def sm_set_initial_state_def sm_new_def
      Let_def plain_state_def add_transition_def um_assign_def)

definition fight_inv :: "fighter \<Rightarrow> bool" where
  "fight_inv f \<longleftrightarrow>
     (let sm = fg_sm f; as = fg_attacks f in
      sm_states sm = sm_table \<and>
      sorted_wrt (\<lambda>later earlier. earlier + attack_cooldown_ms \<le> later) as \<and>
      ((sm_current sm = State_at ''Idle'' \<and> sm_delayed sm = []
        \<and> (\<forall>a \<in> set as. a + attack_cooldown_ms \<le> fg_now f)) \<or>
       (sm_current sm = State_at ''Attacking'' \<and>
        (\<exists>t p a rest. as = a # rest \<and> a \<le> fg_now f
           \<and> sm_delayed sm = [\<lparr>dl_timer = t, dl_target = ''Idle'', dl_due = a + attack_cooldown_ms, dl_phase = p\<rparr>]
           \<and> p \<noteq> Cancelled \<and> (p = Expired \<longrightarrow> a + attack_cooldown_ms \<le> fg_now f)))))"

lemma fight_inv_init: "fight_inv fight_init"
  by (simp add: fight_inv_def fight_init_def sm_table_def combat_machine_def sm_new_def Let_def
      sm_add_state_def sm_set_initial_state_def um_contains_def plain_state_def add_transition_def)

lemma table_can_transition:
  "sm_states sm = sm_table \<Longrightarrow> sm_current sm = State_at ''Idle'' \<Longrightarrow>
     sm_try_transition ''Attacking'' sm () = Some (True, sm\<lparr>sm_current := State_at ''Attacking''\<rparr>, ())"
  "sm_states sm = sm_table \<Longrightarrow> sm_current sm = State_at ''Attacking'' \<Longrightarrow>
     sm_try_transition ''Attacking'' sm () = Some (False, sm, ())"
  "sm_states sm = sm_table \<Longrightarrow> sm_current sm = State_at ''Attacking'' \<Longrightarrow>
     sm_try_transition ''Idle'' sm () = Some (True, sm\<lparr>sm_current := State_at ''Idle''\<rparr>, ())"
  by (simp_all add: sm_try_transition_def sm_deref_def sm_table_eq um_find_def state_can_transition_def
      add_transition_def plain_state_def um_assign_def)

lemmas fight_defs = fight_inv_def Let_def sm_transition_delayed_def sm_abort_def cancel_timer_def
  find_delayed_def set_phase_def sm_begin_wait_def sm_expire_def sm_resume_def

lemma fight_inv_exec:
  assumes "fight_inv f" "fight_exec ev f = Some f'"
  shows "fight_inv f'"
proof -
  from assms(1) have tab: "sm_states (fg_sm f) = sm_table"
    and sorted: "sorted_wrt (\<lambda>later earlier. earlier + attack_cooldown_ms \<le> later) (fg_attacks f)"
    by (simp_all add: fight_inv_def Let_def)
  from assms(1) consider
      (idle) "sm_current (fg_sm f) = State_at ''Idle''" "sm_delayed (fg_sm f) = []"
        "\<forall>a \<in> set (fg_attacks f). a + attack_cooldown_ms \<le> fg_now f"
    | (attacking) t p a rest where "sm_current (fg_sm f) = State_at ''Attacking''"
        "fg_attacks f = a # rest" "a \<le> fg_now f" "sm_delayed (fg_sm f) =
           [\<lparr>dl_timer = t, dl_target = ''Idle'', dl_due = a + attack_cooldown_ms, dl_phase = p\<rparr>]"
        "p \<noteq> Cancelled" "p = Expired \<longrightarrow> a + attack_cooldown_ms \<le> fg_now f"
    by (auto simp: fight_inv_def Let_def)
  then show ?thesis
  proof cases
    case idle
    have later: "a + attack_cooldown_ms \<le> fg_now f + int d" if "a \<in> set (fg_attacks f)" for a d
      using bspec[OF idle(3) that] by simp
    from idle show ?thesis
      using assms(2) tab sorted
      by (cases ev)
        (auto simp: table_can_transition fight_defs intro: later split: option.splits)
  next
    case attacking
    have pos: "0 \<le> attack_cooldown_ms" by (simp add: attack_cooldown_ms_def)
    have spaced: "x + attack_cooldown_ms \<le> fg_now f"
      if "x \<in> set rest" "a + attack_cooldown_ms \<le> fg_now f" for x
    proof -
      have "x + attack_cooldown_ms \<le> a" using sorted attacking(2) that(1) by simp
      then show ?thesis using that(2) pos by linarith
    qed
    show ?thesis
      using assms(2) tab sorted attacking pos
      by (cases ev)
        (auto simp: table_can_transition fight_defs intro: spaced
          split: option.splits delay_phase.splits if_splits)
  qed
qed

lemma fight_reach_inv: "fight_reach f \<Longrightarrow> fight_inv f"
  by (induction rule: fight_reach.induct) (auto intro: fight_inv_init fight_inv_exec)

lemma fight_reach_run: "fight_run evs f = Some f' \<Longrightarrow> fight_reach f \<Longrightarrow> fight_reach f'"
proof (induction evs arbitrary: f)
  case (Cons ev evs)
  then obtain f1 where "fight_exec ev f = Some f1" "fight_run evs f1 = Some f'"
    by (auto simp: Option.bind_eq_Some_conv)
  with Cons show ?case by (auto intro: fight_reach.event)
qed simp

text \<open>C37. Attack cooldown: however the entity's attempts to attack interleave with the coroutines of
  its delayed transitions, two successful attacks are at least a second apart.\<close>

theorem attack_cooldown:
  assumes "fight_reach f"
  shows "sorted_wrt (\<lambda>later earlier. earlier + 1000 \<le> later) (fg_attacks f)"
  using fight_reach_inv[OF assms] by (simp add: fight_inv_def Let_def attack_cooldown_ms_def)

definition sample_fight :: "fight_event list" where
  "sample_fight =
     [Wait_for 7, Attack, Attack, Begin_wait 0, Wait_for 1000, Expire 0, Attack, Resume 0, Attack]"

definition sample_fighter :: "fight_event list \<Rightarrow> fighter" where
  "sample_fighter evs = (case fight_run evs fight_init of Some f \<Rightarrow> f | None \<Rightarrow> fight_init)"

lemma sample_fighter_reach: "fight_reach (sample_fighter evs)"
  by (auto simp: sample_fighter_def split: option.split intro: fight_reach.start fight_reach_run)

theorem attack_cooldown_witness:
  "fg_attacks (sample_fighter sample_fight) = [1007, 7]
   \<and> sorted_wrt (\<lambda>later earlier. earlier + 1000 \<le> later) (fg_attacks (sample_fighter sample_fight))"
proof
  show "sorted_wrt (\<lambda>later earlier. earlier + 1000 \<le> later) (fg_attacks (sample_fighter sample_fight))"
    by (rule attack_cooldown[OF sample_fighter_reach])
  show "fg_attacks (sample_fighter sample_fight) = [1007, 7]" by code_simp
qed

text \<open>An entity never stays in the attacking state: from every reachable state in which it
  attacks, its pending coroutine can run to its end within the next second and brings it back to
  \<open>Idle\<close>.\<close>

theorem attacking_returns_to_idle:
  assumes "fight_reach f" and "sm_current (fg_sm f) = State_at ''Attacking''"
  shows "\<exists>evs f'. Attack \<notin> set evs \<and> fight_run evs f = Some f' \<and> fg_now f' \<le> fg_now f + 1000
    \<and> sm_current (fg_sm f') = State_at ''Idle''"
proof -
  from fight_reach_inv[OF assms(1)] assms(2) obtain t p a rest where
    tab: "sm_states (fg_sm f) = sm_table" and a: "a \<le> fg_now f"
    and d: "sm_delayed (fg_sm f) =
           [\<lparr>dl_timer = t, dl_target = ''Idle'', dl_due = a + attack_cooldown_ms, dl_phase = p\<rparr>]"
      "p \<noteq> Cancelled"
    by (auto simp: fight_inv_def Let_def)
  define evs where "evs = (case p of
      Expired \<Rightarrow> [Resume t]
    | Waiting \<Rightarrow> [Wait_for 1000, Expire t, Resume t]
    | _ \<Rightarrow> [Begin_wait t, Wait_for 1000, Expire t, Resume t])"
  have "\<exists>f'. fight_run evs f = Some f' \<and> fg_now f' \<le> fg_now f + 1000
      \<and> sm_current (fg_sm f') = State_at ''Idle''"
    using d a tab assms(2)
    by (cases p) (simp_all add: evs_def fight_defs table_can_transition attack_cooldown_ms_def)
  moreover have "Attack \<notin> set evs" by (simp add: evs_def split: delay_phase.split)
  ultimately show ?thesis by blast
qed

theorem attacking_returns_to_idle_witness:
  "\<exists>evs f'. Attack \<notin> set evs \<and> fight_run evs (sample_fighter sample_fight) = Some f'
    \<and> fg_now f' \<le> fg_now (sample_fighter sample_fight) + 1000
    \<and> sm_current (fg_sm f') = State_at ''Idle''"
proof (rule attacking_returns_to_idle[OF sample_fighter_reach])
  show "sm_current (fg_sm (sample_fighter sample_fight)) = State_at ''Attacking''" by code_simp
qed

end
