(* ===== verification/Player_States.thy ===== *)
theory Player_States
  imports State_Machine
begin

text \<open>
  The four states in \<open>player/state/\<close>. The machine of a player has the first two; no machine of the program
  contains \<open>JumpingState\<close> and \<open>RunningState\<close>, and no fighter ever gets into them.
\<close>

definition idle_state :: "'w cxx_state" where "idle_state = plain_state ''Idle''"

definition attacking_state :: "'w cxx_state" where "attacking_state = plain_state ''Attacking''"

definition jumping_state :: "'w cxx_state" where "jumping_state = plain_state ''Jumping''"

definition running_state :: "'w cxx_state" where "running_state = plain_state ''Running''"

lemmas player_states = idle_state_def attacking_state_def jumping_state_def running_state_def

lemma combat_machine_states:
  "sm_states combat_machine =
     [(''Idle'', add_transition (st_name attacking_state) (\<lambda>_. True) idle_state),
      (''Attacking'', add_transition (st_name idle_state) (\<lambda>_. True) attacking_state)]"
  by (simp add: combat_machine_def sm_add_state_def sm_set_initial_state_def sm_new_def Let_def plain_state_def
      add_transition_def um_assign_def player_states)

lemma fighter_refuses:
  assumes "fight_reach f" "n \<in> {st_name jumping_state, st_name (running_state :: unit cxx_state)}"
  shows "sm_try_transition n (fg_sm f) () = Some (False, fg_sm f, ())"
proof -
  have inv: "fight_inv f" using fight_reach_inv[OF assms(1)] .
  then have "sm_states (fg_sm f) = sm_table" "sm_current (fg_sm f) \<in> {State_at ''Idle'', State_at ''Attacking''}"
    by (auto simp: fight_inv_def Let_def)
  then show ?thesis
    using assms(2)
    by (auto simp: sm_try_transition_def sm_deref_def sm_table_eq um_find_def state_can_transition_def add_transition_def
        plain_state_def player_states)
qed

end
