(* ===== verification/Containers.thy ===== *)
theory Containers
  imports Umap
begin

text \<open>
  \<open>ConcurrentMap\<close> and \<open>ConcurrentQueue\<close> of \<open>tower/system/container\<close>. Every operation (except
  \<open>ConcurrentMap::at\<close>, which takes no lock) runs under the container's mutex, so an execution by
  several threads is a sequence of atomic operations; an interleaving is a list of them. The
  values of an out-parameter are part of the result.
\<close>

section \<open>ConcurrentMap\<close>

record ('k, 'v) concurrent_map =
  cm_map :: "('k, 'v) umap"

definition cm_insert_or_assign :: "'k \<Rightarrow> 'v \<Rightarrow> ('k, 'v) concurrent_map \<Rightarrow> ('k, 'v) concurrent_map" where
  "cm_insert_or_assign k v c = c\<lparr>cm_map := um_assign k v (cm_map c)\<rparr>"

definition cm_at :: "('k, 'v) concurrent_map \<Rightarrow> 'k \<Rightarrow> 'v result" where
  "cm_at c k = um_at (cm_map c) k"

definition cm_erase :: "'k \<Rightarrow> ('k, 'v) concurrent_map \<Rightarrow> ('k, 'v) concurrent_map" where
  "cm_erase k c = (if \<not> um_contains (cm_map c) k then c else c\<lparr>cm_map := um_erase k (cm_map c)\<rparr>)"

definition cm_try_extract ::
  "'k \<Rightarrow> 'v \<Rightarrow> ('k, 'v) concurrent_map \<Rightarrow> bool \<times> 'v \<times> ('k, 'v) concurrent_map" where
  "cm_try_extract k target c =
     (case um_find (cm_map c) k of
        None \<Rightarrow> (False, target, c)
      | Some v \<Rightarrow> (True, v, c\<lparr>cm_map := um_erase k (cm_map c)\<rparr>))"

definition cm_clear :: "('k, 'v) concurrent_map \<Rightarrow> ('k, 'v) concurrent_map" where
  "cm_clear c = c\<lparr>cm_map := []\<rparr>"

definition cm_contains :: "('k, 'v) concurrent_map \<Rightarrow> 'k \<Rightarrow> bool" where
  "cm_contains c k = um_contains (cm_map c) k"

definition cm_empty :: "('k, 'v) concurrent_map \<Rightarrow> bool" where
  "cm_empty c \<longleftrightarrow> cm_map c = []"

text \<open>The callbacks receive a reference to the stored value, so they are functions on it.\<close>

definition cm_apply :: "'k \<Rightarrow> ('v \<Rightarrow> 'v) \<Rightarrow> ('k, 'v) concurrent_map \<Rightarrow> ('k, 'v) concurrent_map" where
  "cm_apply k f c =
     (case um_find (cm_map c) k of
        None \<Rightarrow> c
      | Some v \<Rightarrow> c\<lparr>cm_map := um_assign k (f v) (cm_map c)\<rparr>)"

definition cm_apply_all :: "('v \<Rightarrow> 'v) \<Rightarrow> ('k, 'v) concurrent_map \<Rightarrow> ('k, 'v) concurrent_map" where
  "cm_apply_all f c = c\<lparr>cm_map := map (\<lambda>(k, v). (k, f v)) (cm_map c)\<rparr>"

definition cm_apply_some ::
  "('v \<Rightarrow> bool) \<Rightarrow> ('v \<Rightarrow> 'v) \<Rightarrow> ('k, 'v) concurrent_map \<Rightarrow> ('k, 'v) concurrent_map" where
  "cm_apply_some p f c =
     c\<lparr>cm_map := map (\<lambda>(k, v). if \<not> p v then (k, v) else (k, f v)) (cm_map c)\<rparr>"

definition cm_ok :: "('k, 'v) concurrent_map \<Rightarrow> bool" where
  "cm_ok c \<longleftrightarrow> um_ok (cm_map c)"

definition cm_find :: "('k, 'v) concurrent_map \<Rightarrow> 'k \<Rightarrow> 'v option" where
  "cm_find c k = um_find (cm_map c) k"

lemma cm_find_assign [simp]:
  "cm_find (cm_insert_or_assign k v c) k' = (if k' = k then Some v else cm_find c k')"
  by (simp add: cm_find_def cm_insert_or_assign_def)

lemma cm_find_erase [simp]: "cm_find (cm_erase k c) k' = (if k' = k then None else cm_find c k')"
  by (simp add: cm_find_def cm_erase_def um_contains_def)

lemma cm_find_new: "cm_find \<lparr>cm_map = []\<rparr> = Map.empty"
  by (simp add: cm_find_def fun_eq_iff)

interpretation cm: lookup_map cm_ok cm_find cm_insert_or_assign cm_erase
  by unfold_locales
    (simp_all, simp_all add: cm_ok_def cm_insert_or_assign_def cm_erase_def)

lemma map_of_map_values: "map_of (map (\<lambda>(k, v). (k, f v)) m) k = map_option f (map_of m k)"
  by (induction m) auto

lemma cm_find_apply_all [simp]: "cm_find (cm_apply_all f c) k = map_option f (cm_find c k)"
  by (simp add: cm_find_def cm_apply_all_def um_find_def map_of_map_values)

lemma cm_apply_some_all: "cm_apply_some p f c = cm_apply_all (\<lambda>v. if p v then f v else v) c"
  unfolding cm_apply_some_def cm_apply_all_def
  by (rule arg_cong[of _ _ "\<lambda>h. c\<lparr>cm_map := map h (cm_map c)\<rparr>"]) (auto simp: fun_eq_iff)

lemma cm_ok_apply_all [simp]: "cm_ok (cm_apply_all f c) = cm_ok c"
  by (simp add: cm_ok_def um_ok_def cm_apply_all_def case_prod_beta comp_def)

text \<open>The specification of every operation over the abstract map \<open>cm_find\<close>.\<close>

lemma cm_find_apply:
  "cm_find (cm_apply k f c) k' = (if k' = k then map_option f (cm_find c k) else cm_find c k')"
  by (auto simp: cm_apply_def cm_find_def split: option.split)

lemma cm_try_extract_spec:
  "cm_try_extract k t c =
     (case cm_find c k of None \<Rightarrow> (False, t, c) | Some v \<Rightarrow> (True, v, cm_erase k c))"
  by (simp add: cm_try_extract_def cm_find_def cm_erase_def um_contains_def split: option.split)

subsection \<open>Any interleaving refines an abstract map\<close>

datatype ('k, 'v) cm_op =
    Cm_insert 'k 'v
  | Cm_erase 'k
  | Cm_extract 'k 'v
  | Cm_clear
  | Cm_apply 'k "'v \<Rightarrow> 'v"
  | Cm_apply_all "'v \<Rightarrow> 'v"
  | Cm_apply_some "'v \<Rightarrow> bool" "'v \<Rightarrow> 'v"

primrec cm_exec :: "('k, 'v) cm_op \<Rightarrow> ('k, 'v) concurrent_map \<Rightarrow> ('k, 'v) concurrent_map" where
  "cm_exec (Cm_insert k v) c = cm_insert_or_assign k v c"
| "cm_exec (Cm_erase k) c = cm_erase k c"
| "cm_exec (Cm_extract k target) c = snd (snd (cm_try_extract k target c))"
| "cm_exec Cm_clear c = cm_clear c"
| "cm_exec (Cm_apply k f) c = cm_apply k f c"
| "cm_exec (Cm_apply_all f) c = cm_apply_all f c"
| "cm_exec (Cm_apply_some p f) c = cm_apply_some p f c"

primrec abs_exec :: "('k, 'v) cm_op \<Rightarrow> ('k \<rightharpoonup> 'v) \<Rightarrow> ('k \<rightharpoonup> 'v)" where
  "abs_exec (Cm_insert k v) m = m(k \<mapsto> v)"
| "abs_exec (Cm_erase k) m = m(k := None)"
| "abs_exec (Cm_extract k target) m = m(k := None)"
| "abs_exec Cm_clear m = Map.empty"
| "abs_exec (Cm_apply k f) m = m(k := map_option f (m k))"
| "abs_exec (Cm_apply_all f) m = map_option f \<circ> m"
| "abs_exec (Cm_apply_some p f) m = map_option (\<lambda>v. if p v then f v else v) \<circ> m"

lemma cm_exec_simulates: "cm_find (cm_exec op c) = abs_exec op (cm_find c)"
  by (cases op)
    (auto simp: fun_eq_iff cm_try_extract_spec cm_find_apply cm_apply_some_all split: option.split,
      simp add: cm_clear_def cm_find_def)

lemma cm_exec_ok:
  assumes "cm_ok c"
  shows "cm_ok (cm_exec op c)"
proof (cases op)
  case (Cm_extract k target)
  then show ?thesis
    using assms cm.ok_erase[OF assms] by (simp add: cm_try_extract_spec split: option.split)
next
  case (Cm_apply k f)
  then show ?thesis using assms by (simp add: cm_apply_def cm_ok_def split: option.split)
qed (use assms in \<open>simp_all add: cm.ok_assign cm.ok_erase cm_apply_some_all cm_clear_def\<close>,
     simp add: cm_ok_def)

text \<open>Whatever the threads do, and in whatever order, the map holds exactly what the same
  sequence of operations leaves in a mathematical map, and no key ever occurs twice.\<close>

theorem concurrent_map_refines:
  "cm_find (fold cm_exec ops \<lparr>cm_map = []\<rparr>) = fold abs_exec ops Map.empty
   \<and> distinct (map fst (cm_map (fold cm_exec ops \<lparr>cm_map = []\<rparr>)))"
proof -
  have "cm_ok c \<Longrightarrow> cm_ok (fold cm_exec ops c) \<and> cm_find (fold cm_exec ops c) = fold abs_exec ops (cm_find c)" for c
    by (induction ops arbitrary: c) (simp_all add: cm_exec_ok cm_exec_simulates)
  from this[of "\<lparr>cm_map = []\<rparr>"]
  have "cm_ok (fold cm_exec ops \<lparr>cm_map = []\<rparr>)"
    and "cm_find (fold cm_exec ops \<lparr>cm_map = []\<rparr>) = fold abs_exec ops (cm_find \<lparr>cm_map = []\<rparr>)"
    by (simp_all add: cm_ok_def)
  then show ?thesis by (simp add: cm_find_new cm_ok_def um_ok_def)
qed

section \<open>ConcurrentQueue\<close>

record 'a concurrent_queue =
  cq_queue :: "'a list"

definition cq_push :: "'a \<Rightarrow> 'a concurrent_queue \<Rightarrow> 'a concurrent_queue" where
  "cq_push v q = q\<lparr>cq_queue := cq_queue q @ [v]\<rparr>"

definition cq_try_pop :: "'a \<Rightarrow> 'a concurrent_queue \<Rightarrow> bool \<times> 'a \<times> 'a concurrent_queue" where
  "cq_try_pop target q =
     (case cq_queue q of
        [] \<Rightarrow> (False, target, q)
      | v # vs \<Rightarrow> (True, v, q\<lparr>cq_queue := vs\<rparr>))"

definition cq_empty :: "'a concurrent_queue \<Rightarrow> bool" where
  "cq_empty q \<longleftrightarrow> cq_queue q = []"

definition cq_size :: "'a concurrent_queue \<Rightarrow> nat" where
  "cq_size q = length (cq_queue q)"

definition cq_clear :: "'a concurrent_queue \<Rightarrow> 'a concurrent_queue" where
  "cq_clear q = q\<lparr>cq_queue := []\<rparr>"

definition cq_swap :: "'a list \<Rightarrow> 'a concurrent_queue \<Rightarrow> 'a list \<times> 'a concurrent_queue" where
  "cq_swap other q = (cq_queue q, q\<lparr>cq_queue := other\<rparr>)"

text \<open>The contract of a first-in first-out queue, and what it gives a single consumer.\<close>

locale fifo =
  fixes contents :: "'q \<Rightarrow> 'a list"
    and push :: "'a \<Rightarrow> 'q \<Rightarrow> 'q"
    and pop :: "'q \<Rightarrow> ('a \<times> 'q) option"
  assumes contents_push: "contents (push v q) = contents q @ [v]"
    and pop_None: "pop q = None \<longleftrightarrow> contents q = []"
    and pop_Some: "pop q = Some (v, q') \<Longrightarrow> contents q = v # contents q'"
begin

text \<open>A run: \<open>Some v\<close> pushes, \<open>None\<close> pops; the result is what was popped, in order.\<close>

primrec run :: "'a option list \<Rightarrow> 'q \<Rightarrow> 'a list \<times> 'q" where
  "run [] q = ([], q)"
| "run (op # ops) q =
     (case op of
        Some v \<Rightarrow> run ops (push v q)
      | None \<Rightarrow>
          (case pop q of
             None \<Rightarrow> run ops q
           | Some (v, q') \<Rightarrow> (case run ops q' of (vs, q'') \<Rightarrow> (v # vs, q''))))"

lemma run_fifo:
  "fst (run ops q) @ contents (snd (run ops q)) = contents q @ List.map_filter id ops"
proof (induction ops arbitrary: q)
  case (Cons op ops)
  show ?case
  proof (cases op)
    case (Some v)
    then show ?thesis using Cons.IH by (simp add: contents_push map_filter_simps)
  next
    case None
    then show ?thesis
    proof (cases "pop q")
      case (Some vq)
      then obtain v q' where vq: "vq = (v, q')" by fastforce
      have "fst (run ops q') @ contents (snd (run ops q')) = contents q' @ List.map_filter id ops"
        by (rule Cons.IH)
      then show ?thesis
        using Some None vq pop_Some[of q v q']
        by (cases "run ops q'") (simp add: map_filter_simps id_def)
    qed (use None Cons.IH in \<open>simp add: map_filter_simps\<close>)
  qed
qed (simp add: map_filter_simps)

end

definition cq_pop :: "'a concurrent_queue \<Rightarrow> ('a \<times> 'a concurrent_queue) option" where
  "cq_pop q = (case cq_try_pop undefined q of (ok, v, q') \<Rightarrow> if ok then Some (v, q') else None)"

interpretation cq: fifo cq_queue cq_push cq_pop
  by unfold_locales
    (auto simp: cq_push_def cq_pop_def cq_try_pop_def split: list.splits)

text \<open>An interleaving of producers (\<open>Inl v\<close>) and a consumer (\<open>Inr target\<close>), with the values the
  consumer's successful \<open>try_pop\<close> calls stored in its target.\<close>

primrec cq_run :: "('a + 'a) list \<Rightarrow> 'a concurrent_queue \<Rightarrow> 'a list \<times> 'a concurrent_queue" where
  "cq_run [] q = ([], q)"
| "cq_run (op # ops) q =
     (case op of
        Inl v \<Rightarrow> cq_run ops (cq_push v q)
      | Inr target \<Rightarrow>
          (case cq_try_pop target q of (ok, v, q') \<Rightarrow>
             (case cq_run ops q' of (vs, q'') \<Rightarrow> (if ok then v # vs else vs, q''))))"

definition cq_pushed :: "('a + 'a) list \<Rightarrow> 'a list" where
  "cq_pushed ops = List.map_filter (case_sum Some (\<lambda>_. None)) ops"

lemma cq_run_eq:
  "cq_run ops q = cq.run (map (case_sum Some (\<lambda>_. None)) ops) q"
  by (induction ops arbitrary: q)
    (auto simp: cq_pop_def cq_try_pop_def split: sum.split list.split prod.split)

text \<open>However the producers and the consumer of a \<open>ConcurrentQueue\<close> interleave, the consumer
  receives the pushed values in the order they were pushed: what it has received followed by what
  is still queued is exactly what was pushed, so nothing is lost, duplicated or reordered.\<close>

theorem concurrent_queue_fifo:
  "fst (cq_run ops \<lparr>cq_queue = []\<rparr>) @ cq_queue (snd (cq_run ops \<lparr>cq_queue = []\<rparr>)) = cq_pushed ops"
proof -
  have "List.map_filter id (map (case_sum Some (\<lambda>_. None)) ops) = cq_pushed ops"
    by (simp add: cq_pushed_def map_filter_def comp_def filter_map)
  then show ?thesis
    using cq.run_fifo[of "map (case_sum Some (\<lambda>_. None)) ops" "\<lparr>cq_queue = []\<rparr>"]
    by (simp add: cq_run_eq)
qed

end
