(* ===== verification/F32.thy ===== *)
theory F32
  imports Complex_Main "HOL-Library.Log_Nat" Prelude
begin

text \<open>
  The C++ \<open>float\<close> (IEEE 754 binary32) as the sources use it: sums, differences, products,
  comparisons, conversions from \<open>int\<close> and the conversion of \<open>std::floor\<close>'s result to \<open>int\<close>.
  A finite non-zero value is the rational it denotes; the two zeros, the two infinities and NaN
  are values of their own. Every operation rounds the exact result to the nearest representable
  value, ties to even, with gradual underflow and overflow to infinity.

  Functions of GLM are third-party code and do not appear here; they are parameters of the
  definitions that use them.
\<close>

section \<open>Rounding\<close>

datatype f32 = F_nan | F_inf bool | F_zero bool | F_num rat

text \<open>The exponent of the leading bit of a positive rational.\<close>

definition ilog2 :: "rat \<Rightarrow> int" where
  "ilog2 x =
     (let (n, d) = quotient_of x; k = bitlen n - bitlen d
      in if 2 powi k \<le> x then k else k - 1)"

definition round_half_even :: "rat \<Rightarrow> int" where
  "round_half_even x =
     (let f = floor x; d = x - of_int f
      in if d < 1 / 2 then f else if 1 / 2 < d then f + 1 else if even f then f else f + 1)"

text \<open>The spacing of the representable values around \<open>x\<close>.\<close>

definition ulp :: "rat \<Rightarrow> rat" where
  "ulp x = 2 powi (max (ilog2 \<bar>x\<bar> - 23) (- 149))"

definition round_val :: "rat \<Rightarrow> rat" where
  "round_val x = (if x = 0 then 0 else of_int (round_half_even (x / ulp x)) * ulp x)"

definition f_round :: "bool \<Rightarrow> rat \<Rightarrow> f32" where
  "f_round zero_sign x =
     (let y = round_val x in
      if y = 0 then F_zero (if x = 0 then zero_sign else x < 0)
      else if \<bar>y\<bar> \<ge> 2 ^ 128 then F_inf (y < 0)
      else F_num y)"

section \<open>Operations\<close>

fun f_neg :: "f32 \<Rightarrow> f32" where
  "f_neg F_nan = F_nan"
| "f_neg (F_inf s) = F_inf (\<not> s)"
| "f_neg (F_zero s) = F_zero (\<not> s)"
| "f_neg (F_num x) = F_num (- x)"

fun f_val :: "f32 \<Rightarrow> rat" where
  "f_val (F_num x) = x"
| "f_val _ = 0"

fun f_sign :: "f32 \<Rightarrow> bool" where
  "f_sign F_nan = False"
| "f_sign (F_inf s) = s"
| "f_sign (F_zero s) = s"
| "f_sign (F_num x) = (x < 0)"

fun f_finite :: "f32 \<Rightarrow> bool" where
  "f_finite F_nan = False"
| "f_finite (F_inf _) = False"
| "f_finite _ = True"

definition f_isnan :: "f32 \<Rightarrow> bool" where
  "f_isnan x \<longleftrightarrow> x = F_nan"

definition f_add :: "f32 \<Rightarrow> f32 \<Rightarrow> f32" where
  "f_add a b =
     (if f_isnan a \<or> f_isnan b then F_nan
      else case (a, b) of
        (F_inf s, F_inf t) \<Rightarrow> if s = t then F_inf s else F_nan
      | (F_inf s, _) \<Rightarrow> F_inf s
      | (_, F_inf t) \<Rightarrow> F_inf t
      | (F_zero s, F_zero t) \<Rightarrow> F_zero (s \<and> t)
      | _ \<Rightarrow> f_round False (f_val a + f_val b))"

definition f_sub :: "f32 \<Rightarrow> f32 \<Rightarrow> f32" where
  "f_sub a b = f_add a (f_neg b)"

definition f_mul :: "f32 \<Rightarrow> f32 \<Rightarrow> f32" where
  "f_mul a b =
     (if f_isnan a \<or> f_isnan b then F_nan
      else if f_finite a \<and> f_finite b then f_round (f_sign a \<noteq> f_sign b) (f_val a * f_val b)
      else if (f_finite a \<and> f_val a = 0) \<or> (f_finite b \<and> f_val b = 0) then F_nan
      else F_inf (f_sign a \<noteq> f_sign b))"

definition f_le :: "f32 \<Rightarrow> f32 \<Rightarrow> bool" where
  "f_le a b =
     (if f_isnan a \<or> f_isnan b then False
      else case (a, b) of
        (F_inf True, _) \<Rightarrow> True
      | (_, F_inf False) \<Rightarrow> True
      | (F_inf False, _) \<Rightarrow> False
      | (_, F_inf True) \<Rightarrow> False
      | _ \<Rightarrow> f_val a \<le> f_val b)"

definition f_lt :: "f32 \<Rightarrow> f32 \<Rightarrow> bool" where
  "f_lt a b \<longleftrightarrow> \<not> f_isnan a \<and> \<not> f_isnan b \<and> \<not> f_le b a"

text \<open>\<open>static_cast<float>\<close> of an \<open>int\<close>, and a decimal literal.\<close>

definition f_of_int :: "int \<Rightarrow> f32" where
  "f_of_int i = f_round False (of_int i)"

definition f_lit :: "rat \<Rightarrow> f32" where
  "f_lit q = f_round False q"

text \<open>
  \<open>static_cast<int>(std::floor(x))\<close>: undefined behaviour, \<open>None\<close>, unless the floor is a value
  of \<open>int\<close>.
\<close>

definition f_floor_int :: "f32 \<Rightarrow> int option" where
  "f_floor_int x =
     (if f_finite x \<and> int_range (floor (f_val x)) then Some (floor (f_val x)) else None)"

section \<open>Rounding is monotone and fixes the representable values\<close>

lemma powi_pos [simp]: "0 < (2 :: rat) powi k"
  by (simp add: power_int_def)

lemma powi_le_iff [simp]: "(2 :: rat) powi a \<le> 2 powi b \<longleftrightarrow> a \<le> b"
  by (metis linorder_not_le not_less_iff_gr_or_eq one_less_numeral_iff order_refl power_int_increasing
      power_int_strict_increasing semiring_norm(76) less_le_not_le one_le_numeral)

lemma powi_less_iff [simp]: "(2 :: rat) powi a < 2 powi b \<longleftrightarrow> a < b"
  using powi_le_iff[of b a] by linarith

lemma powi_split: "(2 :: rat) powi (a + b) = 2 powi a * 2 powi b"
  by (simp add: power_int_add)

lemma ilog2_unique:
  fixes x :: rat
  assumes "2 powi k \<le> x" "x < 2 powi (k + 1)" "2 powi j \<le> x" "x < 2 powi (j + 1)"
  shows "k = j"
proof -
  have "(2 :: rat) powi k < 2 powi (j + 1)" "(2 :: rat) powi j < 2 powi (k + 1)"
    using assms by linarith+
  then show ?thesis by simp
qed

lemma ilog2_bounds:
  assumes "0 < x"
  shows "2 powi (ilog2 x) \<le> x \<and> x < 2 powi (ilog2 x + 1)"
proof -
  obtain n d where q: "quotient_of x = (n, d)" by fastforce
  then have d: "0 < d" and x: "x = of_int n / of_int d"
    by (auto simp: quotient_of_denom_pos quotient_of_div)
  then have n: "0 < n" using assms by (simp add: zero_less_divide_iff)
  have bound: "2 powi (bitlen m - 1) \<le> (of_int m :: rat) \<and> (of_int m :: rat) < 2 powi bitlen m"
    if "0 < m" for m
  proof -
    have b: "bitlen m \<ge> 1" using that bitlen_nonneg[of m] bitlen_eq_zero_iff[of m] by linarith
    have "(of_int (2 ^ nat (bitlen m - 1)) :: rat) \<le> of_int m"
      "(of_int m :: rat) < of_int (2 ^ nat (bitlen m))"
      using bitlen_bounds[OF that] by (auto simp only: of_int_le_iff of_int_less_iff)
    with b show ?thesis by (simp add: power_int_def)
  qed
  let ?k = "bitlen n - bitlen d"
  have dp: "0 < (of_int d :: rat)" using d by simp
  have "2 powi (?k - 1) * (of_int d :: rat) \<le> 2 powi (?k - 1) * 2 powi bitlen d"
    using bound[OF d] by (intro mult_left_mono) (auto intro: less_imp_le)
  also have "\<dots> = 2 powi (bitlen n - 1)" by (simp flip: powi_split)
  also have "\<dots> \<le> of_int n" using bound[OF n] by simp
  finally have lo: "2 powi (?k - 1) \<le> x" using dp by (simp add: x pos_le_divide_eq)
  have "(of_int n :: rat) < 2 powi bitlen n" using bound[OF n] by simp
  also have "\<dots> = 2 powi (?k + 1) * 2 powi (bitlen d - 1)" by (simp flip: powi_split)
  also have "\<dots> \<le> 2 powi (?k + 1) * of_int d"
    using bound[OF d] by (intro mult_left_mono) (auto intro: less_imp_le)
  finally have hi: "x < 2 powi (?k + 1)" using dp by (simp add: x pos_divide_less_eq)
  show ?thesis
  proof (cases "2 powi ?k \<le> x")
    case True
    then have "ilog2 x = ?k" by (simp add: ilog2_def q)
    with True hi show ?thesis by simp
  next
    case False
    then have "ilog2 x = ?k - 1" by (simp add: ilog2_def q)
    with False lo show ?thesis by simp
  qed
qed

lemma ilog2_mono: "0 < x \<Longrightarrow> x \<le> y \<Longrightarrow> ilog2 x \<le> ilog2 y"
proof -
  assume "0 < x" "x \<le> y"
  then have "(2 :: rat) powi (ilog2 x) < 2 powi (ilog2 y + 1)"
    using ilog2_bounds[of x] ilog2_bounds[of y] by linarith
  then show ?thesis by simp
qed

lemma round_half_even_bounds: "of_int (round_half_even x) \<le> x + 1 / 2" "x - 1 / 2 \<le> of_int (round_half_even x)"
  unfolding round_half_even_def Let_def by (auto; linarith)+

lemma round_half_even_int [simp]: "round_half_even (of_int i) = i"
  by (simp add: round_half_even_def)

lemma round_half_even_mono:
  assumes "x \<le> y"
  shows "round_half_even x \<le> round_half_even y"
proof (cases "floor x = floor y")
  case True
  with assms show ?thesis by (auto simp: round_half_even_def Let_def)
next
  case False
  with assms have "floor x + 1 \<le> floor y" using floor_mono[OF assms] by linarith
  moreover have "round_half_even x \<le> floor x + 1" "floor y \<le> round_half_even y"
    by (auto simp: round_half_even_def Let_def)
  ultimately show ?thesis by linarith
qed

lemma round_half_even_neg: "round_half_even (- x) = - round_half_even x"
proof (cases "x = of_int (floor x)")
  case True
  then show ?thesis by (metis of_int_minus round_half_even_int)
next
  case False
  then have f: "floor (- x) = - floor x - 1"
    by (intro floor_unique) (auto intro: less_imp_le, linarith+)
  show ?thesis
    unfolding round_half_even_def Let_def f by (auto simp: field_simps)
qed

lemma round_val_zero [simp]: "round_val 0 = 0"
  by (simp add: round_val_def)

lemma round_val_neg: "round_val (- x) = - round_val x"
  by (simp add: round_val_def ulp_def round_half_even_neg)

lemma ulp_pos [simp]: "0 < ulp x"
  by (simp add: ulp_def)

definition representable :: "rat \<Rightarrow> bool" where
  "representable x \<longleftrightarrow> (\<exists>m e. x = of_int m * 2 powi e \<and> \<bar>m\<bar> < 2 ^ 24 \<and> - 149 \<le> e)"

lemma representable_neg: "representable (- x) = representable x"
proof -
  have "representable (- x)" if r: "representable x" for x
  proof -
    obtain m e where "x = of_int m * 2 powi e" "\<bar>m\<bar> < 2 ^ 24" "- 149 \<le> e"
      using r unfolding representable_def by blast
    then have "- x = of_int (- m) * 2 powi e" "\<bar>- m\<bar> < 2 ^ 24" by simp_all
    with \<open>- 149 \<le> e\<close> show ?thesis unfolding representable_def by blast
  qed
  from this[of x] this[of "- x"] show ?thesis by auto
qed

lemma round_val_id:
  assumes "representable x"
  shows "round_val x = x"
proof (cases "x = 0")
  case False
  obtain m e where x: "x = of_int m * 2 powi e" and m: "\<bar>m\<bar> < 2 ^ 24" and e: "- 149 \<le> e"
    using assms unfolding representable_def by blast
  define k where "k = max (ilog2 \<bar>x\<bar> - 23) (- 149)"
  have "2 powi (ilog2 \<bar>x\<bar>) \<le> \<bar>x\<bar>" using ilog2_bounds[of "\<bar>x\<bar>"] False by simp
  also have "\<bar>x\<bar> = of_int \<bar>m\<bar> * 2 powi e" by (simp add: x abs_mult)
  also have "\<dots> < 2 ^ 24 * 2 powi e"
    using m by (intro mult_strict_right_mono) (simp_all flip: of_int_less_iff)
  also have "\<dots> = 2 powi (24 + e)" by (simp add: powi_split)
  finally have "ilog2 \<bar>x\<bar> < 24 + e" by simp
  then have "k \<le> e" using e by (simp add: k_def)
  then have "x / 2 powi k = of_int m * 2 powi (e - k)"
    by (simp add: x power_int_diff)
  also have "\<dots> = of_int (m * 2 ^ nat (e - k))"
    using \<open>k \<le> e\<close> by (simp add: power_int_def)
  finally have "round_half_even (x / 2 powi k) = m * 2 ^ nat (e - k)"
    and xi: "x / 2 powi k = of_int (m * 2 ^ nat (e - k))"
    by (metis round_half_even_int)+
  then have "of_int (round_half_even (x / 2 powi k)) * 2 powi k = x"
    by (metis powi_pos less_irrefl nonzero_divide_eq_eq)
  then show ?thesis using False by (simp add: round_val_def ulp_def k_def)
qed simp

text \<open>The scaled value lies in the binade: below \<open>2 ^ 24\<close>, and at least \<open>2 ^ 23\<close> unless the result is
  subnormal.\<close>

lemma scaled_bounds:
  assumes "0 < x"
  shows "x / ulp x < 2 ^ 24" and "- 149 < ilog2 x - 23 \<Longrightarrow> 2 ^ 23 \<le> x / ulp x"
proof -
  let ?k = "max (ilog2 x - 23) (- 149)"
  have "x < 2 powi (ilog2 x + 1)" using ilog2_bounds[OF assms] by blast
  also have "\<dots> \<le> 2 powi (24 + ?k)" by simp
  also have "\<dots> = 2 ^ 24 * 2 powi ?k" by (simp add: powi_split)
  finally show "x / ulp x < 2 ^ 24" using assms by (simp add: ulp_def pos_divide_less_eq)
  assume "- 149 < ilog2 x - 23"
  then have "?k = ilog2 x - 23" by simp
  have "2 ^ 23 * (2 powi (ilog2 x - 23) :: rat) = 2 powi (23 + (ilog2 x - 23))"
    by (subst powi_split) simp
  also have "\<dots> \<le> x" using ilog2_bounds[OF assms] by simp
  finally show "2 ^ 23 \<le> x / ulp x"
    using assms \<open>?k = ilog2 x - 23\<close> by (simp add: ulp_def pos_le_divide_eq)
qed

lemma round_val_nonneg: "0 \<le> x \<Longrightarrow> 0 \<le> round_val x"
  using round_half_even_mono[of 0 "x / ulp x"] round_half_even_int[of 0]
  by (simp add: round_val_def less_imp_le)

lemma round_val_mono_pos:
  assumes "0 < x" "x \<le> y"
  shows "round_val x \<le> round_val y"
proof -
  have y: "0 < y" using assms by linarith
  have rv: "round_val x = of_int (round_half_even (x / ulp x)) * ulp x"
    "round_val y = of_int (round_half_even (y / ulp y)) * ulp y"
    using assms y by (simp_all add: round_val_def)
  have le: "ilog2 x \<le> ilog2 y" using assms by (rule ilog2_mono)
  show ?thesis
  proof (cases "ulp x = ulp y")
    case True
    have "x / ulp y \<le> y / ulp y" using assms by (simp add: divide_right_mono less_imp_le)
    then have "round_half_even (x / ulp y) \<le> round_half_even (y / ulp y)"
      by (rule round_half_even_mono)
    with True show ?thesis unfolding rv by (simp add: mult_right_mono less_imp_le)
  next
    case False
    then have "max (ilog2 x - 23) (- 149) \<noteq> max (ilog2 y - 23) (- 149)"
      using assms y by (auto simp: ulp_def)
    then have big: "- 149 < ilog2 y - 23" and less: "max (ilog2 x - 23) (- 149) < ilog2 y - 23"
      using le by (auto simp: max_def split: if_splits)
    have "round_half_even (x / ulp x) \<le> 2 ^ 24"
      using round_half_even_mono[of "x / ulp x" "of_int (2 ^ 24)"] scaled_bounds(1)[OF assms(1)]
      unfolding round_half_even_int by simp
    then have "round_val x \<le> of_int (2 ^ 24) * ulp x"
      unfolding rv by (intro mult_right_mono) (simp_all flip: of_int_le_iff add: less_imp_le)
    also have "\<dots> = 2 powi (24 + max (ilog2 x - 23) (- 149))"
      using assms by (simp add: ulp_def powi_split)
    also have "\<dots> \<le> 2 powi (23 + (ilog2 y - 23))"
      using less unfolding powi_le_iff by linarith
    also have "\<dots> = of_int (2 ^ 23) * ulp y"
      using y big by (subst powi_split) (simp add: ulp_def max_def)
    also have "\<dots> \<le> round_val y"
    proof -
      have "2 ^ 23 \<le> round_half_even (y / ulp y)"
        using round_half_even_mono[of "of_int (2 ^ 23)" "y / ulp y"] scaled_bounds(2)[OF y big]
        unfolding round_half_even_int by simp
      then show ?thesis
        unfolding rv by (intro mult_right_mono) (simp_all flip: of_int_le_iff add: less_imp_le)
    qed
    finally show ?thesis .
  qed
qed

lemma round_val_mono:
  assumes "x \<le> y"
  shows "round_val x \<le> round_val y"
proof -
  consider "0 < x" | "x \<le> 0" "0 \<le> y" | "y < 0" using assms by linarith
  then show ?thesis
  proof cases
    case 1
    then show ?thesis using assms by (rule round_val_mono_pos)
  next
    case 2
    then show ?thesis
      using round_val_nonneg[of y] round_val_nonneg[of "- x"] by (simp add: round_val_neg)
  next
    case 3
    then show ?thesis
      using round_val_mono_pos[of "- y" "- x"] assms by (simp add: round_val_neg)
  qed
qed

lemma representable_round: "representable (round_val x)"
proof -
  have pos: "representable (round_val x)" if x: "0 < x" for x
  proof -
    define k where "k = max (ilog2 x - 23) (- 149)"
    define m where "m = round_half_even (x / ulp x)"
    have rv: "round_val x = of_int m * 2 powi k" and k: "- 149 \<le> k"
      using x by (simp_all add: round_val_def ulp_def m_def k_def)
    have m: "m \<le> 2 ^ 24" "0 \<le> m"
      using round_half_even_mono[of "x / ulp x" "of_int (2 ^ 24)"] scaled_bounds(1)[OF x]
        round_half_even_mono[of "of_int 0" "x / ulp x"] x
      unfolding round_half_even_int m_def by (simp_all add: less_imp_le)
    show ?thesis
    proof (cases "m = 2 ^ 24")
      case True
      have "round_val x = of_int (2 ^ 23) * 2 powi (k + 1)"
        unfolding rv True powi_split by simp
      moreover have "\<bar>2 ^ 23\<bar> < (2 ^ 24 :: int)" by simp
      moreover have "- 149 \<le> k + 1" using k by simp
      ultimately show ?thesis unfolding representable_def by blast
    next
      case False
      with m have "\<bar>m\<bar> < 2 ^ 24" by simp
      with rv k show ?thesis unfolding representable_def by blast
    qed
  qed
  consider "0 < x" | "x = 0" | "x < 0" by linarith
  then show ?thesis
  proof cases
    case 2
    have "representable 0" unfolding representable_def by (intro exI[of _ 0]) simp
    with 2 show ?thesis by simp
  next
    case 3
    with pos[of "- x"] show ?thesis by (simp add: round_val_neg representable_neg)
  qed (rule pos)
qed

section \<open>The operations on floats\<close>

named_theorems f32_simps

text \<open>A value that an operation can produce.\<close>

fun f_wf :: "f32 \<Rightarrow> bool" where
  "f_wf (F_num q) \<longleftrightarrow> q \<noteq> 0 \<and> representable q \<and> \<bar>q\<bar> < 2 ^ 128"
| "f_wf _ \<longleftrightarrow> True"

lemma f_isnan_simps [simp]:
  "f_isnan F_nan" "\<not> f_isnan (F_inf s)" "\<not> f_isnan (F_zero s)" "\<not> f_isnan (F_num q)"
  by (simp_all add: f_isnan_def)

lemma f_finite_not_nan [simp]: "f_finite a \<Longrightarrow> \<not> f_isnan a"
  by (cases a) auto

lemma f_isnan_neg [simp]: "f_isnan (f_neg a) = f_isnan a"
  by (cases a) auto

lemma f_finite_neg [simp]: "f_finite (f_neg a) = f_finite a"
  by (cases a) auto

lemma f_val_neg [simp]: "f_val (f_neg a) = - f_val a"
  by (cases a) auto

lemma f_le_finite [f32_simps]:
  "f_finite a \<Longrightarrow> f_finite b \<Longrightarrow> f_le a b \<longleftrightarrow> f_val a \<le> f_val b"
  by (cases a; cases b) (auto simp: f_le_def)

lemma f_le_refl [simp]: "\<not> f_isnan a \<Longrightarrow> f_le a a"
  by (cases a) (auto simp: f_le_def split: bool.split)

lemma f_le_trans: "f_le a b \<Longrightarrow> f_le b c \<Longrightarrow> f_le a c"
  by (cases a; cases b; cases c) (auto simp: f_le_def split: bool.splits)

lemma f_le_total: "\<not> f_isnan a \<Longrightarrow> \<not> f_isnan b \<Longrightarrow> f_le a b \<or> f_le b a"
  by (cases a; cases b) (auto simp: f_le_def split: bool.splits)

lemma f_le_not_nan: "f_le a b \<Longrightarrow> \<not> f_isnan a \<and> \<not> f_isnan b"
  by (auto simp: f_le_def split: if_splits)

lemma f_add_comm: "f_add a b = f_add b a"
  by (cases a; cases b) (auto simp: f_add_def add.commute)

lemma f_round_not_nan [simp]: "\<not> f_isnan (f_round s x)"
  by (simp add: f_round_def Let_def)

lemma f_round_wf [simp]: "f_wf (f_round s x)"
  by (simp add: f_round_def Let_def representable_round not_le)

lemma f_round_le:
  assumes "x \<le> y"
  shows "f_le (f_round s x) (f_round t y)"
  using round_val_mono[OF assms]
  by (auto simp: f_round_def Let_def f_le_def split: if_splits bool.splits)

lemma f_round_id [f32_simps]:
  assumes "representable x" "\<bar>x\<bar> < 2 ^ 128"
  shows "f_round s x = (if x = 0 then F_zero s else F_num x)"
  using assms by (simp add: f_round_def Let_def round_val_id)

lemma f_val_round: "representable x \<Longrightarrow> \<bar>x\<bar> < 2 ^ 128 \<Longrightarrow> f_val (f_round s x) = x \<and> f_finite (f_round s x)"
  by (simp add: f_round_id)

lemma f_wf_val: "f_wf a \<Longrightarrow> f_finite a \<Longrightarrow> representable (f_val a) \<and> \<bar>f_val a\<bar> < 2 ^ 128"
  by (cases a) (auto simp: representable_def intro!: exI[of _ 0])

text \<open>The sum of two finite values: the rounded sum, up to the sign of a zero.\<close>

lemma f_add_finite:
  assumes "f_finite a" "f_finite b"
  obtains s where "f_add a b = f_round s (f_val a + f_val b)"
proof (cases "\<exists>s t. a = F_zero s \<and> b = F_zero t")
  case True
  then obtain s t where "a = F_zero s" "b = F_zero t" by blast
  then have "f_add a b = f_round (s \<and> t) (f_val a + f_val b)"
    by (simp add: f_add_def f_round_def)
  then show thesis by (rule that)
next
  case False
  with assms have "f_add a b = f_round False (f_val a + f_val b)"
    by (cases a; cases b) (auto simp: f_add_def)
  then show thesis by (rule that)
qed

lemma f_add_not_nan: "f_finite a \<Longrightarrow> f_finite b \<Longrightarrow> \<not> f_isnan (f_add a b)"
  by (metis f_add_finite f_round_not_nan)

lemma f_wf_le_round:
  assumes "f_wf a" "f_finite a"
  shows "f_val a \<le> x \<Longrightarrow> f_le a (f_round s x)" and "x \<le> f_val a \<Longrightarrow> f_le (f_round s x) a"
proof -
  have r: "f_finite (f_round True (f_val a))" "f_val (f_round True (f_val a)) = f_val a"
    using f_wf_val[OF assms] f_val_round by blast+
  have eq: "f_le a (f_round True (f_val a))" "f_le (f_round True (f_val a)) a"
    using assms r by (simp_all add: f_le_finite)
  show "f_val a \<le> x \<Longrightarrow> f_le a (f_round s x)" and "x \<le> f_val a \<Longrightarrow> f_le (f_round s x) a"
    using eq f_round_le f_le_trans by blast+
qed

lemma f_sub_le:
  assumes "f_wf c" "f_finite c" "f_finite s" "0 \<le> f_val s"
  shows "f_le (f_sub c s) c" and "f_le c (f_add c s)"
proof -
  obtain t where "f_sub c s = f_round t (f_val c - f_val s)"
    using f_add_finite[of c "f_neg s"] assms by (auto simp: f_sub_def)
  then show "f_le (f_sub c s) c" using f_wf_le_round(2)[OF assms(1,2)] assms(4) by simp
  obtain t where "f_add c s = f_round t (f_val c + f_val s)"
    using f_add_finite[of c s] assms by blast
  then show "f_le c (f_add c s)" using f_wf_le_round(1)[OF assms(1,2)] assms(4) by simp
qed

text \<open>Integers and half integers of moderate size are exact.\<close>

lemma f_of_int_exact:
  assumes "\<bar>i\<bar> < 2 ^ 24"
  shows "f_finite (f_of_int i)" and "f_val (f_of_int i) = of_int i"
proof -
  have "representable (of_int i)"
    using assms unfolding representable_def by (intro exI[of _ i] exI[of _ 0]) simp
  moreover have "\<bar>of_int i :: rat\<bar> < 2 ^ 128"
  proof -
    have "\<bar>of_int i :: rat\<bar> = of_int \<bar>i\<bar>" by simp
    also have "\<dots> < of_int (2 ^ 24)" using assms by (simp only: of_int_less_iff)
    finally show ?thesis by simp
  qed
  ultimately show "f_finite (f_of_int i)" and "f_val (f_of_int i) = of_int i"
    using f_val_round by (auto simp: f_of_int_def)
qed

lemma f_half_exact:
  assumes "\<bar>i\<bar> < 2 ^ 22"
  shows "f_finite (f_add (f_of_int i) (f_lit (1 / 2)))"
    and "f_val (f_add (f_of_int i) (f_lit (1 / 2))) = of_int i + 1 / 2"
proof -
  have half: "f_lit (1 / 2) = F_num (1 / 2)" by code_simp
  have rep: "representable (of_int i + 1 / 2)"
    using assms unfolding representable_def
    by (intro exI[of _ "2 * i + 1"] exI[of _ "- 1"]) (simp add: power_int_def field_simps)
  have "\<bar>of_int i + 1 / 2 :: rat\<bar> \<le> of_int \<bar>i\<bar> + 1" by simp
  also have "\<dots> < of_int (2 ^ 22) + 1" using assms by (simp only: of_int_less_iff add_less_cancel_right)
  also have "\<dots> < 2 ^ 128" by simp
  finally have small: "\<bar>of_int i + 1 / 2 :: rat\<bar> < 2 ^ 128" .
  have i: "f_finite (f_of_int i)" "f_val (f_of_int i) = of_int i"
    using f_of_int_exact[of i] assms by auto
  obtain s where "f_add (f_of_int i) (f_lit (1 / 2)) = f_round s (of_int i + 1 / 2)"
    using f_add_finite[of "f_of_int i" "f_lit (1 / 2)"] i half by auto
  with f_val_round[OF rep small]
  show "f_finite (f_add (f_of_int i) (f_lit (1 / 2)))"
    and "f_val (f_add (f_of_int i) (f_lit (1 / 2))) = of_int i + 1 / 2" by auto
qed

end
