(* ===== verification/Objects.thy ===== *)
theory Objects
  imports F32 Grid Umap State_Machine
begin

text \<open>
  The objects that the server shares through pointers: nodes, collision shapes, collision objects
  and entities. They live in a heap of addresses; a \<open>shared_ptr\<close> or a raw pointer is an address, and
  the class of an object is a constructor of \<open>object\<close>, which is what \<open>dynamic_cast\<close> inspects.
  Reading an address that is not in the heap (a freed object) is undefined behaviour. The steps
  of the model free nothing; which objects still have an owner is the subject of \<open>Ownership\<close>.

  GLM is third-party code: the functions of it that the sources call are the fields of the record
  \<open>glm\<close>, a parameter of every definition that uses one.
\<close>

section \<open>Vectors and GLM\<close>

record vec3 =
  vx :: f32
  vy :: f32
  vz :: f32

definition mk_vec :: "f32 \<Rightarrow> f32 \<Rightarrow> f32 \<Rightarrow> vec3" where
  "mk_vec x y z = \<lparr>vx = x, vy = y, vz = z\<rparr>"

lemma mk_vec_sel [simp]: "vx (mk_vec x y z) = x" "vy (mk_vec x y z) = y" "vz (mk_vec x y z) = z"
  by (simp_all add: mk_vec_def)

definition zero3 :: vec3 where
  "zero3 = mk_vec (F_zero False) (F_zero False) (F_zero False)"

record glm =
  g_distance :: "vec3 \<Rightarrow> vec3 \<Rightarrow> f32"
  g_normalize :: "vec3 \<Rightarrow> vec3"
  g_add :: "vec3 \<Rightarrow> vec3 \<Rightarrow> vec3"
  g_sub :: "vec3 \<Rightarrow> vec3 \<Rightarrow> vec3"
  g_scale :: "vec3 \<Rightarrow> f32 \<Rightarrow> vec3"
  g_rotate_up :: "f32 \<Rightarrow> vec3 \<Rightarrow> vec3"
  g_eps3 :: "vec3 \<Rightarrow> vec3 \<Rightarrow> f32 \<Rightarrow> bool"
  g_eps1 :: "f32 \<Rightarrow> f32 \<Rightarrow> f32 \<Rightarrow> bool"
  g_max :: "f32 \<Rightarrow> f32 \<Rightarrow> f32"
  g_min :: "f32 \<Rightarrow> f32 \<Rightarrow> f32"
  g_atan2 :: "f32 \<Rightarrow> f32 \<Rightarrow> f32"

text \<open>\<open>Point {fr, fc}\<close> of two floats.\<close>

definition point_of_floats :: "f32 \<Rightarrow> f32 \<Rightarrow> point option" where
  "point_of_floats fr fc =
     (case (f_floor_int fr, f_floor_int fc) of
        (Some r, Some c) \<Rightarrow> Some (Point r c)
      | _ \<Rightarrow> None)"

section \<open>The classes\<close>

type_synonym addr = nat

datatype entity_type = HUMAN | SIMPLE_MONSTER | Value_initialised

datatype movement_mode = FORWARD | TARGET

record entity_resource =
  max_health :: int
  health :: int

record fist =
  fist_node :: addr
  fist_damage :: int
  fist_shape :: addr

text \<open>\<open>std::shared_ptr<Equipment>\<close>: the only subclass of \<open>Equipment\<close> that is a \<open>MeleeAttackable\<close> is
  \<open>Fist\<close>.\<close>

datatype equipment = Fist_item fist | Other_equipment

datatype stat_type = Stat_LEVEL | Stat_EXP | Stat_STR | Stat_MAG | Stat_AGI | Stat_CON | Stat_FAITH

record stat =
  stat_kind :: stat_type
  stat_value :: int

record stats =
  st_level :: stat
  st_exp :: stat
  st_str :: stat
  st_mag :: stat
  st_agi :: stat
  st_con :: stat
  st_optionals :: "(stat_type, stat) umap"

record player_data =
  pl_character_id :: u32
  pl_player_name :: string
  pl_main_weapon :: "equipment option"
  pl_stats :: stats

datatype monster_state = IDLE | CHASING | ATTACKING

record monster_data =
  mo_state :: monster_state
  mo_weapon :: fist
  mo_detection_area :: addr
  mo_chasing_target :: "addr option"
  mo_chasing_path :: "point list"
  mo_chasing_path_index :: nat
  mo_chasing_started :: int

datatype entity_class = Player_class player_data | Monster_class monster_data

record entity =
  entity_id :: u32
  en_type :: entity_type
  state_machine :: "unit state_machine"
  resource :: entity_resource
  movement_mode :: movement_mode
  target_direction :: vec3
  target_position :: vec3
  movement_speed_base :: f32
  en_class :: entity_class

datatype object =
    Plain_node
  | Cube_shape vec3
  | Sphere_shape f32
  | Collider addr u32 u32
  | Entity_object entity

record node =
  node_id :: u32
  position :: vec3
  rotation :: f32
  parent :: "addr option"
  children :: "addr list"
  object :: object

type_synonym heap = "addr \<rightharpoonup> node"

text \<open>The heap with the two id generators.\<close>

record world =
  wd_heap :: heap
  wd_next :: addr
  wd_node_ids :: u32
  wd_entity_ids :: u32

definition is_player :: "object \<Rightarrow> bool" where
  "is_player ob =
     (case ob of Entity_object e \<Rightarrow> (case en_class e of Player_class _ \<Rightarrow> True | _ \<Rightarrow> False) | _ \<Rightarrow> False)"

text \<open>The entity at an address: \<open>dynamic_cast<Entity*>\<close>.\<close>

definition entity_at :: "heap \<Rightarrow> addr \<Rightarrow> entity option" where
  "entity_at h a =
     (case h a of
        Some n \<Rightarrow> (case object n of Entity_object e \<Rightarrow> Some e | _ \<Rightarrow> None)
      | None \<Rightarrow> None)"

definition set_entity :: "addr \<Rightarrow> entity \<Rightarrow> heap \<Rightarrow> heap" where
  "set_entity a e h =
     (case h a of Some n \<Rightarrow> h(a \<mapsto> n\<lparr>object := Entity_object e\<rparr>) | None \<Rightarrow> h)"

definition set_position :: "addr \<Rightarrow> vec3 \<Rightarrow> heap \<Rightarrow> heap" where
  "set_position a p h = (case h a of Some n \<Rightarrow> h(a \<mapsto> n\<lparr>position := p\<rparr>) | None \<Rightarrow> h)"

definition set_rotation :: "addr \<Rightarrow> f32 \<Rightarrow> heap \<Rightarrow> heap" where
  "set_rotation a r h = (case h a of Some n \<Rightarrow> h(a \<mapsto> n\<lparr>rotation := r\<rparr>) | None \<Rightarrow> h)"

named_theorems heap_simps

lemma entity_at_set_entity [heap_simps]:
  "entity_at (set_entity a e h) b = (if b = a \<and> h a \<noteq> None then Some e else entity_at h b)"
  by (auto simp: entity_at_def set_entity_def split: option.splits)

lemma entity_at_set_position [heap_simps]: "entity_at (set_position a p h) b = entity_at h b"
  by (auto simp: entity_at_def set_position_def split: option.splits)

lemma entity_at_set_rotation [heap_simps]: "entity_at (set_rotation a p h) b = entity_at h b"
  by (auto simp: entity_at_def set_rotation_def split: option.splits)

lemma dom_set_entity [heap_simps]: "dom (set_entity a e h) = dom h"
  by (auto simp: set_entity_def split: option.splits)

lemma dom_set_position [heap_simps]: "dom (set_position a p h) = dom h"
  by (auto simp: set_position_def split: option.splits)

lemma dom_set_rotation [heap_simps]: "dom (set_rotation a p h) = dom h"
  by (auto simp: set_rotation_def split: option.splits)

lemma entity_at_dom: "entity_at h a = Some e \<Longrightarrow> h a \<noteq> None"
  by (auto simp: entity_at_def split: option.splits)

section \<open>A concrete stand-in for GLM\<close>

text \<open>Used by the witnesses only: the distance is the sum of the absolute differences, a rotation is
  the identity, a comparison up to an epsilon is exact.\<close>

definition f_abs :: "f32 \<Rightarrow> f32" where
  "f_abs x = (if f_sign x then f_neg x else x)"

definition vec_map2 :: "(f32 \<Rightarrow> f32 \<Rightarrow> f32) \<Rightarrow> vec3 \<Rightarrow> vec3 \<Rightarrow> vec3" where
  "vec_map2 f a b = mk_vec (f (vx a) (vx b)) (f (vy a) (vy b)) (f (vz a) (vz b))"

definition sample_glm :: glm where
  "sample_glm =
     \<lparr>g_distance = (\<lambda>a b. let d = vec_map2 f_sub a b in
        f_add (f_add (f_abs (vx d)) (f_abs (vy d))) (f_abs (vz d))),
      g_normalize = id,
      g_add = vec_map2 f_add,
      g_sub = vec_map2 f_sub,
      g_scale = (\<lambda>v s. mk_vec (f_mul (vx v) s) (f_mul (vy v) s) (f_mul (vz v) s)),
      g_rotate_up = (\<lambda>_ v. v),
      g_eps3 = (\<lambda>a b _. f_le (vx a) (vx b) \<and> f_le (vx b) (vx a) \<and> f_le (vy a) (vy b)
         \<and> f_le (vy b) (vy a) \<and> f_le (vz a) (vz b) \<and> f_le (vz b) (vz a)),
      g_eps1 = (\<lambda>a b _. f_le a b \<and> f_le b a),
      g_max = (\<lambda>a b. if f_lt a b then b else a),
      g_min = (\<lambda>a b. if f_lt b a then b else a),
      g_atan2 = (\<lambda>_ _. F_zero False)\<rparr>"

end
