(* ===== verification/Node_Tree.thy ===== *)
theory Node_Tree
  imports Objects
begin

text \<open>
  \<open>Node\<close> of \<open>tower/world/node.hpp\<close>: the scene tree. A node refers to its parent weakly: locking the
  reference gives the parent as long as it is in the heap. The loops of \<open>get_root\<close>,
  \<open>get_global_position\<close> and \<open>get_global_rotation\<close> climb the parents; they need not end (a node can
  be made its own ancestor), so they are \<open>partial_function (option)\<close> and \<open>None\<close> also stands for a
  call that does not return.
\<close>

section \<open>Operations\<close>

text \<open>\<open>make_shared\<close> of a node: a fresh address and the next node id.\<close>

definition alloc_node :: "vec3 \<Rightarrow> f32 \<Rightarrow> object \<Rightarrow> world \<Rightarrow> addr \<times> world" where
  "alloc_node pos rot ob w =
     (let a = wd_next w; i = wd_node_ids w + 1 in
      (a, w\<lparr>wd_heap := (wd_heap w)(a \<mapsto> \<lparr>node_id = i, position = pos, rotation = rot, parent = None,
                                      children = [], object = ob\<rparr>),
            wd_next := Suc a, wd_node_ids := i\<rparr>))"

definition node_new :: "object \<Rightarrow> world \<Rightarrow> addr \<times> world" where
  "node_new ob w = alloc_node zero3 (F_zero False) ob w"

definition set_parent :: "addr \<Rightarrow> addr \<Rightarrow> heap \<Rightarrow> heap option" where
  "set_parent c p h = map_option (\<lambda>n. h(c \<mapsto> n\<lparr>parent := Some p\<rparr>)) (h c)"

definition add_child :: "addr \<Rightarrow> addr option \<Rightarrow> heap \<Rightarrow> heap option" where
  "add_child p child h =
     (case child of
        None \<Rightarrow> Some h
      | Some c \<Rightarrow>
          (case h p of
             None \<Rightarrow> None
           | Some n \<Rightarrow> set_parent c p (h(p \<mapsto> n\<lparr>children := children n @ [c]\<rparr>))))"

definition get_children :: "addr \<Rightarrow> heap \<Rightarrow> addr list option" where
  "get_children a h = map_option children (h a)"

text \<open>\<open>parent.lock()\<close>.\<close>

definition lock_parent :: "heap \<Rightarrow> node \<Rightarrow> addr option" where
  "lock_parent h n =
     (case parent n of None \<Rightarrow> None | Some p \<Rightarrow> if h p = None then None else Some p)"

definition get_parent :: "addr \<Rightarrow> heap \<Rightarrow> addr option option" where
  "get_parent a h = map_option (lock_parent h) (h a)"

partial_function (option) get_root :: "heap \<Rightarrow> addr \<Rightarrow> addr option" where
  "get_root h a =
     (case h a of
        None \<Rightarrow> None
      | Some n \<Rightarrow> (case lock_parent h n of None \<Rightarrow> Some a | Some p \<Rightarrow> get_root h p))"

text \<open>The loops of \<open>get_global_position\<close> and \<open>get_global_rotation\<close>, at the locked parent \<open>p\<close>.\<close>

partial_function (option) climb_position ::
  "glm \<Rightarrow> heap \<Rightarrow> addr option \<Rightarrow> vec3 \<Rightarrow> vec3 option" where
  "climb_position gl h p current =
     (case p of
        None \<Rightarrow> Some current
      | Some a \<Rightarrow>
          (case h a of
             None \<Rightarrow> None
           | Some n \<Rightarrow>
               climb_position gl h (lock_parent h n)
                 (g_add gl (position n) (g_rotate_up gl (rotation n) current))))"

definition get_global_position :: "glm \<Rightarrow> heap \<Rightarrow> addr \<Rightarrow> vec3 option" where
  "get_global_position gl h a =
     (case h a of None \<Rightarrow> None | Some n \<Rightarrow> climb_position gl h (lock_parent h n) (position n))"

partial_function (option) climb_rotation :: "heap \<Rightarrow> addr option \<Rightarrow> f32 \<Rightarrow> f32 option" where
  "climb_rotation h p current =
     (case p of
        None \<Rightarrow> Some current
      | Some a \<Rightarrow>
          (case h a of
             None \<Rightarrow> None
           | Some n \<Rightarrow> climb_rotation h (lock_parent h n) (f_add current (rotation n))))"

definition get_global_rotation :: "heap \<Rightarrow> addr \<Rightarrow> f32 option" where
  "get_global_rotation h a =
     (case h a of None \<Rightarrow> None | Some n \<Rightarrow> climb_rotation h (lock_parent h n) (rotation n))"

declare get_root.simps [code] and climb_position.simps [code] and climb_rotation.simps [code]

section \<open>The parent relation\<close>

text \<open>\<open>p\<close> is the live parent of \<open>c\<close>.\<close>

definition parent_edge :: "heap \<Rightarrow> (addr \<times> addr) set" where
  "parent_edge h = {(p, c). \<exists>n. h c = Some n \<and> lock_parent h n = Some p}"

text \<open>No node is its own ancestor, and no chain of ancestors is infinite.\<close>

definition acyclic_parents :: "heap \<Rightarrow> bool" where
  "acyclic_parents h \<longleftrightarrow> wf (parent_edge h)"

lemma parent_edge_iff:
  "(p, c) \<in> parent_edge h \<longleftrightarrow> (\<exists>n. h c = Some n \<and> parent n = Some p \<and> h p \<noteq> None)"
  by (auto simp: parent_edge_def lock_parent_def split: option.splits if_splits)

lemma lock_parent_live: "lock_parent h n = Some p \<Longrightarrow> h p \<noteq> None"
  by (auto simp: lock_parent_def split: option.splits if_splits)

text \<open>A node with no live parent above \<open>a\<close>.\<close>

definition is_root_of :: "heap \<Rightarrow> addr \<Rightarrow> addr \<Rightarrow> bool" where
  "is_root_of h r a \<longleftrightarrow> (r, a) \<in> (parent_edge h)\<^sup>* \<and> h r \<noteq> None \<and> (\<nexists>p. (p, r) \<in> parent_edge h)"

lemma is_root_of_step:
  assumes "h a = Some n"
  shows "is_root_of h r a \<longleftrightarrow>
    (case lock_parent h n of None \<Rightarrow> r = a | Some p \<Rightarrow> is_root_of h r p)"
proof -
  have edge: "(p, a) \<in> parent_edge h \<longleftrightarrow> lock_parent h n = Some p" for p
    using assms by (simp add: parent_edge_def)
  have "(r, a) \<in> (parent_edge h)\<^sup>* \<longleftrightarrow> r = a \<or> (\<exists>p. (r, p) \<in> (parent_edge h)\<^sup>* \<and> lock_parent h n = Some p)"
    unfolding edge[symmetric] by (auto elim: rtranclE)
  then show ?thesis
    using assms by (auto simp: is_root_of_def edge split: option.split)
qed

lemma get_root_iff:
  assumes "acyclic_parents h"
  shows "h a \<noteq> None \<Longrightarrow> get_root h a = Some r \<longleftrightarrow> is_root_of h r a"
proof (induction a rule: wf_induct[OF assms[unfolded acyclic_parents_def]])
  case (1 a)
  then obtain n where n: "h a = Some n" by blast
  show ?case
  proof (cases "lock_parent h n")
    case None
    then show ?thesis by (subst get_root.simps) (auto simp: is_root_of_step[of h a n r, OF n] n)
  next
    case (Some p)
    then have "(p, a) \<in> parent_edge h" using n by (simp add: parent_edge_def)
    then have "get_root h p = Some r \<longleftrightarrow> is_root_of h r p"
      using 1 lock_parent_live[OF Some] by blast
    with Some show ?thesis by (subst get_root.simps) (simp add: is_root_of_step[of h a n r, OF n] n)
  qed
qed

lemma get_root_total:
  assumes "acyclic_parents h"
  shows "h a \<noteq> None \<Longrightarrow> \<exists>r. get_root h a = Some r"
proof (induction a rule: wf_induct[OF assms[unfolded acyclic_parents_def]])
  case (1 a)
  then obtain n where n: "h a = Some n" by blast
  show ?case
  proof (cases "lock_parent h n")
    case (Some p)
    then have "\<exists>r. get_root h p = Some r"
      using 1 n lock_parent_live[OF Some] by (simp add: parent_edge_def)
    with Some n show ?thesis by (subst get_root.simps) simp
  qed (subst get_root.simps, simp add: n)
qed

lemma climb_total:
  assumes "acyclic_parents h"
  shows "h a \<noteq> None \<Longrightarrow> (\<exists>v. climb_position gl h (Some a) u = Some v) \<and> (\<exists>r. climb_rotation h (Some a) q = Some r)"
proof (induction a arbitrary: u q rule: wf_induct[OF assms[unfolded acyclic_parents_def]])
  case (1 a)
  then obtain n where n: "h a = Some n" by blast
  let ?u = "g_add gl (position n) (g_rotate_up gl (rotation n) u)" and ?q = "f_add q (rotation n)"
  have "(\<exists>v. climb_position gl h (lock_parent h n) ?u = Some v)
    \<and> (\<exists>r. climb_rotation h (lock_parent h n) ?q = Some r)"
  proof (cases "lock_parent h n")
    case None
    then show ?thesis by (simp add: climb_position.simps climb_rotation.simps)
  next
    case (Some p)
    then have "(p, a) \<in> parent_edge h" using n by (simp add: parent_edge_def)
    then show ?thesis using 1 lock_parent_live[OF Some] Some by simp
  qed
  then show ?case
    by (subst climb_position.simps, subst climb_rotation.simps) (simp add: n)
qed

text \<open>In a tree, whose nodes are not their own ancestors, the climbing loops of every node
  return: \<open>get_root\<close> with the one ancestor that has no live parent, and the global position and
  rotation with a value.\<close>

theorem node_loops_return:
  assumes "acyclic_parents h" and "h a \<noteq> None"
  shows "(\<exists>r. get_root h a = Some r \<and> is_root_of h r a)
    \<and> (\<exists>v. get_global_position gl h a = Some v) \<and> (\<exists>q. get_global_rotation h a = Some q)"
proof -
  obtain n where n: "h a = Some n" using assms(2) by blast
  have "(\<exists>v. climb_position gl h (lock_parent h n) (position n) = Some v)
    \<and> (\<exists>r. climb_rotation h (lock_parent h n) (rotation n) = Some r)"
  proof (cases "lock_parent h n")
    case None
    then show ?thesis by (simp add: climb_position.simps climb_rotation.simps)
  next
    case (Some p)
    then show ?thesis using climb_total[OF assms(1) lock_parent_live[OF Some]] by simp
  qed
  then show ?thesis
    using get_root_total[OF assms] get_root_iff[OF assms]
    by (simp add: get_global_position_def get_global_rotation_def n)
qed

section \<open>Adding a child\<close>

lemma add_child_heap:
  assumes "add_child p (Some c) h = Some h'"
  shows "parent_edge h' = insert (p, c) {(q, d) \<in> parent_edge h. d \<noteq> c}"
    and "dom h' = dom h"
proof -
  obtain np where np: "h p = Some np" and sp: "set_parent c p (h(p \<mapsto> np\<lparr>children := children np @ [c]\<rparr>)) = Some h'"
    using assms by (auto simp: add_child_def split: option.splits)
  let ?h = "h(p \<mapsto> np\<lparr>children := children np @ [c]\<rparr>)"
  obtain nc' where nc': "?h c = Some nc'" and h': "h' = ?h(c \<mapsto> nc'\<lparr>parent := Some p\<rparr>)"
    using sp by (auto simp: set_parent_def)
  obtain nc where nc: "h c = Some nc" using nc' np by (auto split: if_splits)
  show "dom h' = dom h" using np nc by (auto simp: h')
  show "parent_edge h' = insert (p, c) {(q, d) \<in> parent_edge h. d \<noteq> c}"
  proof -
    have "((q, d) \<in> parent_edge h') = ((q, d) \<in> insert (p, c) {(q, d) \<in> parent_edge h. d \<noteq> c})" for q d
      using np nc by (auto simp: parent_edge_iff h')
    then show ?thesis by auto
  qed
qed

text \<open>The new edge keeps the tree a tree unless the child is an ancestor of its new parent.\<close>

lemma add_child_acyclic:
  assumes "add_child p (Some c) h = Some h'" "acyclic_parents h" "(c, p) \<notin> (parent_edge h)\<^sup>*"
  shows "acyclic_parents h'"
proof -
  let ?E = "{(q, d) \<in> parent_edge h. d \<noteq> c}"
  have sub: "?E \<subseteq> parent_edge h" by blast
  have "wf ?E" using assms(2) sub unfolding acyclic_parents_def by (rule wf_subset)
  moreover have "(c, p) \<notin> ?E\<^sup>*" using assms(3) rtrancl_mono[OF sub] by blast
  ultimately show ?thesis
    unfolding acyclic_parents_def add_child_heap(1)[OF assms(1)] by (simp add: wf_insert)
qed

text \<open>Attaching a subtree: unless the child is an ancestor of the parent, \<open>add_child\<close> gives a tree
  again, and from then on the root of the child, and of every node below it, is the root of the
  parent.\<close>

theorem add_child_root:
  assumes "acyclic_parents h" and "h p \<noteq> None" and "h c \<noteq> None"
    and "(c, p) \<notin> (parent_edge h)\<^sup>*" and "(c, a) \<in> (parent_edge h)\<^sup>*"
  shows "\<exists>h' r. add_child p (Some c) h = Some h' \<and> acyclic_parents h'
    \<and> get_root h p = Some r \<and> get_root h' a = Some r"
proof -
  have "\<exists>h'. add_child p (Some c) h = Some h'"
    using assms(2,3) by (auto simp: add_child_def set_parent_def)
  then obtain h' where h': "add_child p (Some c) h = Some h'" by blast
  let ?E = "{(q, d) \<in> parent_edge h. d \<noteq> c}"
  note e = add_child_heap(1)[OF h'] and d = add_child_heap(2)[OF h']
  have ac: "acyclic_parents h'" by (rule add_child_acyclic[OF h' assms(1,4)])
  obtain r where r: "get_root h p = Some r" and rp: "is_root_of h r p"
    using get_root_total[OF assms(1,2)] get_root_iff[OF assms(1,2)] by auto
  have above_p: "(q, p) \<in> ?E\<^sup>*" if "(q, p) \<in> (parent_edge h)\<^sup>*" for q
    using that assms(4)
  proof (induction rule: converse_rtrancl_induct)
    case (step y z)
    then have "(z, p) \<in> ?E\<^sup>*" "z \<noteq> c" by auto
    with step show ?case by (auto intro: converse_rtrancl_into_rtrancl)
  qed simp
  have below_c: "(c, a) \<in> (parent_edge h')\<^sup>*"
    using assms(5)
  proof (induction rule: rtrancl_induct)
    case (step y z)
    then show ?case by (cases "z = c") (auto simp: e intro: rtrancl_into_rtrancl)
  qed simp
  have "(r, p) \<in> (parent_edge h')\<^sup>*"
    using above_p[of r] rp rtrancl_mono[of ?E "parent_edge h'"] by (auto simp: is_root_of_def e)
  moreover have "(p, c) \<in> parent_edge h'" by (simp add: e)
  ultimately have "(r, a) \<in> (parent_edge h')\<^sup>*"
    using below_c by (meson rtrancl_trans rtrancl_into_rtrancl)
  moreover have "r \<noteq> c" using assms(4) rp by (auto simp: is_root_of_def)
  moreover have "h' r \<noteq> None" using rp d by (auto simp: is_root_of_def)
  ultimately have root: "is_root_of h' r a" using rp by (auto simp: is_root_of_def e)
  have "h a \<noteq> None"
    using assms(5,3) by (cases rule: rtranclE) (auto simp: parent_edge_def)
  then have "h' a \<noteq> None" using d by auto
  with root ac have "get_root h' a = Some r" by (simp add: get_root_iff)
  with h' ac r show ?thesis by blast
qed

text \<open>A body with an empty node below it, for the witnesses.\<close>

definition two_nodes :: world where
  "two_nodes =
     (let (a, w) = node_new Plain_node \<lparr>wd_heap = Map.empty, wd_next = 0, wd_node_ids = 0, wd_entity_ids = 0\<rparr>
      in snd (alloc_node zero3 (F_zero False) (Sphere_shape (f_lit 1)) w))"

lemma two_nodes_heap:
  "dom (wd_heap two_nodes) = {0, 1}" "parent_edge (wd_heap two_nodes) = {}"
  by (auto simp: two_nodes_def node_new_def alloc_node_def Let_def parent_edge_iff split: if_splits)

lemma two_nodes_ok: "acyclic_parents (wd_heap two_nodes)"
  by (simp add: acyclic_parents_def two_nodes_heap)

lemma two_nodes_live: "wd_heap two_nodes 0 \<noteq> None" "wd_heap two_nodes 1 \<noteq> None"
  using two_nodes_heap(1) by (auto simp: dom_def set_eq_iff)

theorem node_loops_return_witness:
  "(\<exists>r. get_root (wd_heap two_nodes) 1 = Some r \<and> is_root_of (wd_heap two_nodes) r 1)
    \<and> (\<exists>v. get_global_position sample_glm (wd_heap two_nodes) 1 = Some v)
    \<and> (\<exists>q. get_global_rotation (wd_heap two_nodes) 1 = Some q)"
  by (rule node_loops_return[OF two_nodes_ok two_nodes_live(2)])

theorem add_child_root_witness:
  "\<exists>h' r. add_child 0 (Some 1) (wd_heap two_nodes) = Some h' \<and> acyclic_parents h'
    \<and> get_root (wd_heap two_nodes) 0 = Some r \<and> get_root h' 1 = Some r"
  by (rule add_child_root[OF two_nodes_ok two_nodes_live]) (simp_all add: two_nodes_heap)

end
