(* ===== verification/Collision.thy ===== *)
theory Collision
  imports Node_Tree
begin

text \<open>
  The collision shapes and \<open>CollisionObject\<close> of \<open>tower/physics\<close>. A shape is a node; its centre is its
  global position, so a test may fail to return (\<open>None\<close>) when the climb to the root does.
\<close>

unbundle bit_operations_syntax

section \<open>Shapes\<close>

definition cube_min :: "vec3 \<Rightarrow> vec3 \<Rightarrow> vec3" where
  "cube_min center sz =
     mk_vec (f_sub (vx center) (vx sz)) (f_sub (vy center) (vy sz)) (f_sub (vz center) (vz sz))"

definition cube_max :: "vec3 \<Rightarrow> vec3 \<Rightarrow> vec3" where
  "cube_max center sz =
     mk_vec (f_add (vx center) (vx sz)) (f_add (vy center) (vy sz)) (f_add (vz center) (vz sz))"

text \<open>The point of the box \<open>[mn, mx]\<close> that is closest to \<open>c\<close>.\<close>

definition closest_point :: "glm \<Rightarrow> vec3 \<Rightarrow> vec3 \<Rightarrow> vec3 \<Rightarrow> vec3" where
  "closest_point gl mn mx c =
     mk_vec (g_max gl (vx mn) (g_min gl (vx c) (vx mx)))
            (g_max gl (vy mn) (g_min gl (vy c) (vy mx)))
            (g_max gl (vz mn) (g_min gl (vz c) (vz mx)))"

definition boxes_overlap :: "vec3 \<Rightarrow> vec3 \<Rightarrow> vec3 \<Rightarrow> vec3 \<Rightarrow> bool" where
  "boxes_overlap mn mx other_mn other_mx \<longleftrightarrow>
     f_le (vx mn) (vx other_mx) \<and> f_le (vx other_mn) (vx mx) \<and>
     f_le (vy mn) (vy other_mx) \<and> f_le (vy other_mn) (vy mx) \<and>
     f_le (vz mn) (vz other_mx) \<and> f_le (vz other_mn) (vz mx)"

definition cube_is_colliding :: "glm \<Rightarrow> heap \<Rightarrow> addr \<Rightarrow> vec3 \<Rightarrow> addr \<Rightarrow> bool option" where
  "cube_is_colliding gl h a sz other =
     (case get_global_position gl h a of
        None \<Rightarrow> None
      | Some center \<Rightarrow>
          let mn = cube_min center sz; mx = cube_max center sz in
          (case h other of
             None \<Rightarrow> None
           | Some n \<Rightarrow>
               (case object n of
                  Cube_shape other_size \<Rightarrow>
                    map_option (\<lambda>other_center. boxes_overlap mn mx
                        (cube_min other_center other_size) (cube_max other_center other_size))
                      (get_global_position gl h other)
                | Sphere_shape other_radius \<Rightarrow>
                    map_option (\<lambda>other_center.
                        f_le (g_distance gl (closest_point gl mn mx other_center) other_center) other_radius)
                      (get_global_position gl h other)
                | _ \<Rightarrow> Some False)))"

definition sphere_is_colliding :: "glm \<Rightarrow> heap \<Rightarrow> addr \<Rightarrow> f32 \<Rightarrow> addr \<Rightarrow> bool option" where
  "sphere_is_colliding gl h a radius other =
     (case get_global_position gl h a of
        None \<Rightarrow> None
      | Some center \<Rightarrow>
          (case h other of
             None \<Rightarrow> None
           | Some n \<Rightarrow>
               (case object n of
                  Cube_shape other_size \<Rightarrow>
                    map_option (\<lambda>other_center.
                        f_le (g_distance gl (closest_point gl (cube_min other_center other_size)
                               (cube_max other_center other_size) center) center) radius)
                      (get_global_position gl h other)
                | Sphere_shape other_radius \<Rightarrow>
                    map_option (\<lambda>other_center.
                        f_le (g_distance gl center other_center) (f_add radius other_radius))
                      (get_global_position gl h other)
                | _ \<Rightarrow> Some False)))"

text \<open>The virtual call \<open>shape->is_colliding(other)\<close>.\<close>

definition shape_is_colliding :: "glm \<Rightarrow> heap \<Rightarrow> addr \<Rightarrow> addr \<Rightarrow> bool option" where
  "shape_is_colliding gl h a other =
     (case h a of
        None \<Rightarrow> None
      | Some n \<Rightarrow>
          (case object n of
             Cube_shape sz \<Rightarrow> cube_is_colliding gl h a sz other
           | Sphere_shape radius \<Rightarrow> sphere_is_colliding gl h a radius other
           | _ \<Rightarrow> None))"

text \<open>The overloads that test a point.\<close>

definition cube_contains :: "vec3 \<Rightarrow> vec3 \<Rightarrow> vec3 \<Rightarrow> bool" where
  "cube_contains center sz p \<longleftrightarrow>
     (let mn = cube_min center sz; mx = cube_max center sz in
      f_le (vx mn) (vx p) \<and> f_le (vx p) (vx mx) \<and>
      f_le (vy mn) (vy p) \<and> f_le (vy p) (vy mx) \<and>
      f_le (vz mn) (vz p) \<and> f_le (vz p) (vz mx))"

definition point_is_colliding :: "glm \<Rightarrow> heap \<Rightarrow> addr \<Rightarrow> vec3 \<Rightarrow> bool option" where
  "point_is_colliding gl h a p =
     (case h a of
        None \<Rightarrow> None
      | Some n \<Rightarrow>
          (case object n of
             Cube_shape sz \<Rightarrow>
               map_option (\<lambda>center. cube_contains center sz p) (get_global_position gl h a)
           | Sphere_shape radius \<Rightarrow>
               map_option (\<lambda>center. f_le (g_distance gl center p) radius) (get_global_position gl h a)
           | _ \<Rightarrow> None))"

section \<open>Collision objects\<close>

definition layer_entities :: u32 where
  "layer_entities = 1"

definition layer_areas :: u32 where
  "layer_areas = 2"

definition layer_players :: u32 where
  "layer_players = 4"

definition layer_mobs :: u32 where
  "layer_mobs = 8"

definition collision_object_create :: "addr \<Rightarrow> u32 \<Rightarrow> u32 \<Rightarrow> world \<Rightarrow> (addr \<times> world) option" where
  "collision_object_create shape layer msk w =
     (let (obj, w1) = node_new (Collider shape layer msk) w
      in map_option (\<lambda>h. (obj, w1\<lparr>wd_heap := h\<rparr>)) (add_child obj (Some shape) (wd_heap w1)))"

definition object_is_colliding :: "glm \<Rightarrow> heap \<Rightarrow> addr \<Rightarrow> addr \<Rightarrow> bool option" where
  "object_is_colliding gl h this other =
     (if this = other then Some False
      else case (h this, h other) of
        (Some n, Some m) \<Rightarrow>
          (case (object n, object m) of
             (Collider shape _ msk, Collider other_shape other_layer _) \<Rightarrow>
               if msk AND other_layer = 0 then Some False
               else shape_is_colliding gl h shape other_shape
           | _ \<Rightarrow> None)
      | _ \<Rightarrow> None)"

section \<open>Symmetry\<close>

definition is_shape :: "heap \<Rightarrow> addr \<Rightarrow> bool" where
  "is_shape h a \<longleftrightarrow>
     (case h a of
        Some n \<Rightarrow> (case object n of Cube_shape _ \<Rightarrow> True | Sphere_shape _ \<Rightarrow> True | _ \<Rightarrow> False)
      | None \<Rightarrow> False)"

lemma boxes_overlap_sym: "boxes_overlap a b c d = boxes_overlap c d a b"
  by (auto simp: boxes_overlap_def)

text \<open>Colliding is symmetric: whichever of two shapes is asked, and whatever their kinds, the
  answer is the same. GLM's distance must be symmetric, which matters for two spheres only.\<close>

theorem shape_collision_symmetric:
  assumes glm_distance_sym: "\<And>p q. g_distance gl p q = g_distance gl q p"
    and "is_shape h a" and "is_shape h b"
  shows "shape_is_colliding gl h a b = shape_is_colliding gl h b a"
proof -
  obtain n m where n: "h a = Some n" and m: "h b = Some m"
    using assms(2,3) by (auto simp: is_shape_def split: option.splits)
  show ?thesis
    using assms(2,3) n m glm_distance_sym
    by (cases "object n"; cases "object m"; cases "get_global_position gl h a";
        cases "get_global_position gl h b")
      (simp_all add: is_shape_def shape_is_colliding_def cube_is_colliding_def sphere_is_colliding_def
        Let_def boxes_overlap_sym f_add_comm)
qed

definition two_shapes :: heap where
  "two_shapes =
     [0 \<mapsto> \<lparr>node_id = 1, position = zero3, rotation = F_zero False, parent = None, children = [],
           object = Cube_shape (mk_vec (f_lit 1) (f_lit 1) (f_lit 1))\<rparr>,
      1 \<mapsto> \<lparr>node_id = 2, position = mk_vec (f_lit 2) (f_lit 0) (f_lit 0), rotation = F_zero False,
           parent = None, children = [], object = Sphere_shape (f_lit 1)\<rparr>,
      2 \<mapsto> \<lparr>node_id = 3, position = mk_vec (f_lit 2) (f_lit 0) (f_lit 0), rotation = F_zero False,
           parent = None, children = [], object = Cube_shape (mk_vec (f_lit 1) (f_lit 1) (f_lit 1))\<rparr>]"

definition even_glm :: glm where
  "even_glm = sample_glm\<lparr>g_distance := (\<lambda>p q. F_zero False)\<rparr>"

theorem shape_collision_symmetric_witness:
  "shape_is_colliding even_glm two_shapes 0 1 = Some True
   \<and> shape_is_colliding even_glm two_shapes 0 1 = shape_is_colliding even_glm two_shapes 1 0"
proof
  show "shape_is_colliding even_glm two_shapes 0 1 = Some True" by code_simp
  show "shape_is_colliding even_glm two_shapes 0 1 = shape_is_colliding even_glm two_shapes 1 0"
    by (rule shape_collision_symmetric) (simp add: even_glm_def, code_simp+)
qed

section \<open>What a collision of two cubes means\<close>

definition ordered3 :: "vec3 \<Rightarrow> vec3 \<Rightarrow> bool" where
  "ordered3 a b \<longleftrightarrow> f_le (vx a) (vx b) \<and> f_le (vy a) (vy b) \<and> f_le (vz a) (vz b)"

text \<open>A component of a centre: a finite float; of a size: a finite float that is not negative.\<close>

definition proper3 :: "vec3 \<Rightarrow> bool" where
  "proper3 v \<longleftrightarrow> f_wf (vx v) \<and> f_wf (vy v) \<and> f_wf (vz v)
     \<and> f_finite (vx v) \<and> f_finite (vy v) \<and> f_finite (vz v)"

definition nonneg3 :: "vec3 \<Rightarrow> bool" where
  "nonneg3 v \<longleftrightarrow> 0 \<le> f_val (vx v) \<and> 0 \<le> f_val (vy v) \<and> 0 \<le> f_val (vz v)"

lemma cube_bounds:
  assumes "proper3 c" "proper3 s" "nonneg3 s"
  shows "ordered3 (cube_min c s) c" "ordered3 c (cube_max c s)"
  using assms f_sub_le by (simp_all add: ordered3_def proper3_def nonneg3_def cube_min_def cube_max_def)

lemma cube_contains_iff:
  "cube_contains c s p \<longleftrightarrow> ordered3 (cube_min c s) p \<and> ordered3 p (cube_max c s)"
  by (auto simp: cube_contains_def ordered3_def Let_def)

text \<open>On one axis: two intervals overlap exactly when they have a common point.\<close>

lemma axis_overlap:
  assumes "f_le a1 b1" "f_le a2 b2"
  shows "f_le a1 b2 \<and> f_le a2 b1 \<longleftrightarrow> (\<exists>x. f_le a1 x \<and> f_le x b1 \<and> f_le a2 x \<and> f_le x b2)"
proof
  assume o: "f_le a1 b2 \<and> f_le a2 b1"
  have nn: "\<not> f_isnan a1" "\<not> f_isnan a2" using assms f_le_not_nan by blast+
  show "\<exists>x. f_le a1 x \<and> f_le x b1 \<and> f_le a2 x \<and> f_le x b2"
  proof (cases "f_le a1 a2")
    case True
    then show ?thesis using o assms nn f_le_refl by blast
  next
    case False
    then have "f_le a2 a1" using f_le_total nn by blast
    then show ?thesis using o assms nn f_le_refl by blast
  qed
next
  assume "\<exists>x. f_le a1 x \<and> f_le x b1 \<and> f_le a2 x \<and> f_le x b2"
  then show "f_le a1 b2 \<and> f_le a2 b1" using f_le_trans by blast
qed

lemma boxes_overlap_iff:
  assumes "ordered3 mn1 mx1" "ordered3 mn2 mx2"
  shows "boxes_overlap mn1 mx1 mn2 mx2 \<longleftrightarrow>
    (\<exists>p. ordered3 mn1 p \<and> ordered3 p mx1 \<and> ordered3 mn2 p \<and> ordered3 p mx2)"
proof -
  have ax: "f_le (s mn1) (s mx2) \<and> f_le (s mn2) (s mx1) \<longleftrightarrow>
      (\<exists>x. f_le (s mn1) x \<and> f_le x (s mx1) \<and> f_le (s mn2) x \<and> f_le x (s mx2))"
    if "s \<in> {vx, vy, vz}" for s
    using that assms by (intro axis_overlap) (auto simp: ordered3_def)
  show ?thesis
  proof
    assume "boxes_overlap mn1 mx1 mn2 mx2"
    then obtain x y z where
      "f_le (vx mn1) x" "f_le x (vx mx1)" "f_le (vx mn2) x" "f_le x (vx mx2)"
      "f_le (vy mn1) y" "f_le y (vy mx1)" "f_le (vy mn2) y" "f_le y (vy mx2)"
      "f_le (vz mn1) z" "f_le z (vz mx1)" "f_le (vz mn2) z" "f_le z (vz mx2)"
      using ax[of vx] ax[of vy] ax[of vz] by (auto simp: boxes_overlap_def)
    then show "\<exists>p. ordered3 mn1 p \<and> ordered3 p mx1 \<and> ordered3 mn2 p \<and> ordered3 p mx2"
      by (intro exI[of _ "mk_vec x y z"]) (simp add: ordered3_def)
  next
    assume "\<exists>p. ordered3 mn1 p \<and> ordered3 p mx1 \<and> ordered3 mn2 p \<and> ordered3 p mx2"
    then obtain p where "ordered3 mn1 p" "ordered3 p mx1" "ordered3 mn2 p" "ordered3 p mx2" by blast
    then show "boxes_overlap mn1 mx1 mn2 mx2"
      unfolding boxes_overlap_def ordered3_def by (meson f_le_trans)
  qed
qed

text \<open>C38. Two cubes collide exactly when some point lies in both: the twelve float comparisons of
  \<open>is_colliding(shape)\<close> agree with \<open>is_colliding(point)\<close>, rounding included. In particular the centre
  of a cube lies in it.\<close>

theorem cube_collision_iff_common_point:
  assumes "get_global_position gl h a = Some c" and "get_global_position gl h b = Some d"
    and "map_option object (h a) = Some (Cube_shape s)" and "map_option object (h b) = Some (Cube_shape t)"
    and "proper3 c" and "proper3 d" and "proper3 s" and "nonneg3 s" and "proper3 t" and "nonneg3 t"
  shows "(shape_is_colliding gl h a b = Some True \<longleftrightarrow>
           (\<exists>p. point_is_colliding gl h a p = Some True \<and> point_is_colliding gl h b p = Some True))
    \<and> point_is_colliding gl h a c = Some True"
proof -
  have bc: "ordered3 (cube_min c s) c" "ordered3 c (cube_max c s)"
    using cube_bounds assms(5,7,8) by blast+
  have bd: "ordered3 (cube_min d t) d" "ordered3 d (cube_max d t)"
    using cube_bounds assms(6,9,10) by blast+
  have "ordered3 (cube_min c s) (cube_max c s)" "ordered3 (cube_min d t) (cube_max d t)"
    using bc bd f_le_trans unfolding ordered3_def by blast+
  from boxes_overlap_iff[OF this] show ?thesis
    using assms(1-4) bc
    by (auto simp: shape_is_colliding_def cube_is_colliding_def point_is_colliding_def Let_def
        cube_contains_iff)
qed

theorem cube_collision_iff_common_point_witness:
  "\<exists>p. point_is_colliding sample_glm two_shapes 0 p = Some True
     \<and> point_is_colliding sample_glm two_shapes 2 p = Some True"
proof -
  let ?one = "mk_vec (f_lit 1) (f_lit 1) (f_lit 1)"
  have "shape_is_colliding sample_glm two_shapes 0 2 = Some True" by code_simp
  moreover have "get_global_position sample_glm two_shapes 0 = Some zero3"
    "get_global_position sample_glm two_shapes 2 = Some (mk_vec (f_lit 2) (f_lit 0) (f_lit 0))"
    "map_option object (two_shapes 0) = Some (Cube_shape ?one)"
    "map_option object (two_shapes 2) = Some (Cube_shape ?one)"
    by (simp_all add: get_global_position_def two_shapes_def lock_parent_def climb_position.simps)
  moreover have "f_lit 1 = F_num 1" "f_lit 2 = F_num 2" "f_lit 0 = F_zero False" by code_simp+
  moreover have "representable 1" "representable 2"
    unfolding representable_def by (intro exI[of _ 1] exI[of _ 0], simp) (intro exI[of _ 2] exI[of _ 0], simp)
  ultimately show ?thesis
    using cube_collision_iff_common_point[of sample_glm two_shapes 0 zero3 2 "mk_vec (f_lit 2) (f_lit 0) (f_lit 0)" ?one ?one]
    by (simp add: proper3_def nonneg3_def zero3_def)
qed

end
