(* ===== verification/Entities.thy ===== *)
theory Entities
  imports Collision "HOL-Library.Monad_Syntax"
begin

text \<open>
  Entities: \<open>EntityResource\<close> and \<open>Entity\<close> of \<open>tower/entity/entity.hpp\<close>, the weapon \<open>Fist\<close> with the
  data it reads from JSON, and the factories \<open>Player::create\<close> and \<open>SimpleMonster::create\<close>. Boost.JSON's
  value type is the datatype \<open>json\<close>; its parser is not modelled.
\<close>

section \<open>Resources\<close>

datatype change_mode = ADD | SET

text \<open>\<open>std::clamp\<close> has a precondition: \<open>lo <= hi\<close>.\<close>

definition clamp :: "int \<Rightarrow> int \<Rightarrow> int \<Rightarrow> int option" where
  "clamp v lo hi = (if hi < lo then None else Some (if v < lo then lo else if hi < v then hi else v))"

text \<open>The new resource and the arguments of the \<open>health_changed\<close> signal; \<open>None\<close> on signed overflow.\<close>

definition change_health ::
  "change_mode \<Rightarrow> int \<Rightarrow> entity_resource \<Rightarrow> (entity_resource \<times> change_mode \<times> int) option" where
  "change_health mode amount r =
     (case mode of
        ADD \<Rightarrow>
          if int_range (health r + amount)
          then map_option (\<lambda>v. (r\<lparr>health := v\<rparr>, mode, amount)) (clamp (health r + amount) 0 (max_health r))
          else None
      | SET \<Rightarrow>
          map_option (\<lambda>v. (r\<lparr>health := v\<rparr>, mode, v - health r)) (clamp amount 0 (max_health r)))"

definition resource_ok :: "entity_resource \<Rightarrow> bool" where
  "resource_ok r \<longleftrightarrow> 0 \<le> health r \<and> health r \<le> max_health r \<and> max_health r < 2 ^ 31"

definition entity_change_health :: "change_mode \<Rightarrow> int \<Rightarrow> addr \<Rightarrow> heap \<Rightarrow> heap option" where
  "entity_change_health mode amount a h =
     (case entity_at h a of
        None \<Rightarrow> None
      | Some e \<Rightarrow>
          map_option (\<lambda>(r, _). set_entity a (e\<lparr>resource := r\<rparr>) h) (change_health mode amount (resource e)))"

fun change_all :: "(change_mode \<times> int) list \<Rightarrow> entity_resource \<Rightarrow> entity_resource option" where
  "change_all [] r = Some r"
| "change_all ((mode, amount) # cs) r =
     (case change_health mode amount r of None \<Rightarrow> None | Some (r', _) \<Rightarrow> change_all cs r')"

lemma change_health_ok:
  assumes "resource_ok r" "change_health mode amount r = Some (r', sig)"
  shows "resource_ok r'" "max_health r' = max_health r"
    "health r' = max 0 (min (max_health r) (case mode of ADD \<Rightarrow> health r + amount | SET \<Rightarrow> amount))"
    "mode = SET \<Longrightarrow> sig = (SET, health r' - health r)"
  using assms
  by (auto simp: change_health_def clamp_def resource_ok_def split: change_mode.splits if_splits)

lemma change_all_ok: "resource_ok r \<Longrightarrow> change_all cs r = Some r' \<Longrightarrow> resource_ok r' \<and> max_health r' = max_health r"
proof (induction cs r rule: change_all.induct)
  case (2 mode amount cs r)
  then obtain r1 sig where "change_health mode amount r = Some (r1, sig)" "change_all cs r1 = Some r'"
    by (auto split: option.splits)
  with 2 show ?case using change_health_ok(1,2)[of r mode amount r1 sig] by auto
qed simp

lemma change_health_damage:
  assumes "resource_ok r" "- (2 ^ 31) \<le> d" "d \<le> 0"
  shows "change_health ADD d r = Some (r\<lparr>health := max 0 (health r + d)\<rparr>, ADD, d)"
  using assms by (auto simp: change_health_def clamp_def resource_ok_def int_range_def)

text \<open>Health never leaves its bounds: any sequence of changes whose sums stay in \<open>int\<close> keeps
  \<open>0 \<le> health \<le> max_health\<close> and the maximum; and from there damage (an \<open>ADD\<close> of a negative amount),
  whatever its size, is subtracted down to 0.\<close>

theorem health_stays_in_bounds:
  assumes "resource_ok r" and "change_all cs r = Some r'"
  shows "0 \<le> health r' \<and> health r' \<le> max_health r' \<and> max_health r' = max_health r
    \<and> (\<forall>d. - (2 ^ 31) \<le> d \<and> d \<le> 0 \<longrightarrow>
         change_health ADD d r' = Some (r'\<lparr>health := max 0 (health r' + d)\<rparr>, ADD, d))"
  using change_all_ok[OF assms] change_health_damage[of r'] by (auto simp: resource_ok_def)

theorem health_stays_in_bounds_witness:
  "change_health ADD (- 200) \<lparr>max_health = 100, health = 90\<rparr>
     = Some (\<lparr>max_health = 100, health = 0\<rparr>, ADD, - 200)"
proof -
  have "resource_ok \<lparr>max_health = 100, health = 100\<rparr>"
    "change_all [(ADD, - 30), (ADD, 1000), (SET, 90)] \<lparr>max_health = 100, health = 100\<rparr>
       = Some \<lparr>max_health = 100, health = 90\<rparr>"
    by code_simp+
  from health_stays_in_bounds[OF this] show ?thesis by simp
qed

section \<open>Entities and their ids\<close>

definition generate_entity_id :: "world \<Rightarrow> u32 \<times> world" where
  "generate_entity_id w =
     (let i = wd_entity_ids w + 1 in (i, w\<lparr>wd_entity_ids := i\<rparr>))"

text \<open>\<open>make_shared\<close> of an entity: the base class \<open>Node\<close> is constructed first.\<close>

definition entity_new :: "entity_type \<Rightarrow> entity_class \<Rightarrow> world \<Rightarrow> addr \<times> world" where
  "entity_new et cls w =
     (let (i, w1) = generate_entity_id w in
      node_new (Entity_object
        \<lparr>entity_id = i, en_type = et, state_machine = sm_new,
         resource = \<lparr>max_health = 0, health = 0\<rparr>, movement_mode = FORWARD,
         target_direction = zero3, target_position = zero3,
         movement_speed_base = F_zero False, en_class = cls\<rparr>) w1)"

text \<open>\<open>_entity_types_map[race]\<close>: an unknown race inserts a value-initialised entry.\<close>

definition entity_types_map :: "string \<Rightarrow> entity_type" where
  "entity_types_map race = (if race = ''HUMAN'' then HUMAN else Value_initialised)"

section \<open>The weapon\<close>

datatype json =
    Json_null
  | Json_int64 int
  | Json_double rat
  | Json_string string
  | Json_array "json list"
  | Json_object "(string, json) umap"

record fist_data =
  attack_interval :: int
  attack_shape_size :: vec3

definition json_index :: "(string, json) umap \<Rightarrow> string \<Rightarrow> json" where
  "json_index obj key = (case um_find obj key of None \<Rightarrow> Json_null | Some v \<Rightarrow> v)"

text \<open>\<open>as_int64\<close>, \<open>as_double\<close>, \<open>as_array\<close> throw on a value of another kind.\<close>

definition as_int64 :: "json \<Rightarrow> int result" where
  "as_int64 j = (case j of Json_int64 i \<Rightarrow> Inr i | _ \<Rightarrow> Inl System_error)"

definition as_double :: "json \<Rightarrow> rat result" where
  "as_double j = (case j of Json_double d \<Rightarrow> Inr d | _ \<Rightarrow> Inl System_error)"

definition as_array :: "json \<Rightarrow> json list result" where
  "as_array j = (case j of Json_array xs \<Rightarrow> Inr xs | _ \<Rightarrow> Inl System_error)"

definition json_at :: "json list \<Rightarrow> nat \<Rightarrow> json result" where
  "json_at xs i = (if i < length xs then Inr (xs ! i) else Inl Out_of_range)"

definition bind_sum :: "'a result \<Rightarrow> ('a \<Rightarrow> 'b result) \<Rightarrow> 'b result" where
  "bind_sum r k = (case r of Inl ex \<Rightarrow> Inl ex | Inr x \<Rightarrow> k x)"

text \<open>\<open>Fist::Data::load\<close>, on the parsed object. All three sides read element 0.\<close>

definition fist_data_load :: "(string, json) umap \<Rightarrow> fist_data result" where
  "fist_data_load obj =
     bind_sum (as_int64 (json_index obj ''attackInterval'')) (\<lambda>interval.
     bind_sum (as_array (json_index obj ''attackShape'')) (\<lambda>arr.
     bind_sum (bind_sum (json_at arr 0) as_double) (\<lambda>x.
     bind_sum (bind_sum (json_at arr 0) as_double) (\<lambda>y.
     bind_sum (bind_sum (json_at arr 0) as_double) (\<lambda>z.
       Inr \<lparr>attack_interval = interval, attack_shape_size = mk_vec (f_lit x) (f_lit y) (f_lit z)\<rparr>)))))"

text \<open>\<open>Fist::create\<close>; the shape's size is the static \<open>Data::attack_shape_size()\<close>.\<close>

definition fist_create :: "vec3 \<Rightarrow> world \<Rightarrow> (fist \<times> world) option" where
  "fist_create shape_size w =
     (let (nd, w1) = node_new Plain_node w;
          (sh, w2) = node_new (Cube_shape shape_size) w1
      in do {
        h \<leftarrow> add_child nd (Some sh) (wd_heap w2);
        Some (\<lparr>fist_node = nd, fist_damage = 1, fist_shape = sh\<rparr>, w2\<lparr>wd_heap := h\<rparr>)
      })"

section \<open>The factories\<close>

definition world_add_child :: "addr \<Rightarrow> addr \<Rightarrow> world \<Rightarrow> world option" where
  "world_add_child p c w = map_option (\<lambda>h. w\<lparr>wd_heap := h\<rparr>) (add_child p (Some c) (wd_heap w))"

definition modify_entity :: "addr \<Rightarrow> (entity \<Rightarrow> entity) \<Rightarrow> world \<Rightarrow> world option" where
  "modify_entity a f w =
     map_option (\<lambda>e. w\<lparr>wd_heap := set_entity a (f e) (wd_heap w)\<rparr>) (entity_at (wd_heap w) a)"

definition stat_new :: "stat_type \<Rightarrow> stat" where
  "stat_new k = \<lparr>stat_kind = k, stat_value = 0\<rparr>"

definition stats_new :: stats where
  "stats_new =
     \<lparr>st_level = stat_new Stat_LEVEL, st_exp = stat_new Stat_EXP, st_str = stat_new Stat_STR, st_mag = stat_new Stat_MAG,
      st_agi = stat_new Stat_AGI, st_con = stat_new Stat_CON, st_optionals = []\<rparr>"

definition body_size :: vec3 where
  "body_size = mk_vec (f_lit (1 / 2)) (f_lit 1) (f_lit (1 / 2))"

text \<open>The body collider: the shape, then the collision object, attached to \<open>owner\<close>.\<close>

definition attach_body :: "addr \<Rightarrow> u32 \<Rightarrow> world \<Rightarrow> (addr \<times> world) option" where
  "attach_body owner layer w =
     (let (sh, w1) = node_new (Cube_shape body_size) w in do {
        (body, w2) \<leftarrow> collision_object_create sh layer 0 w1;
        w3 \<leftarrow> world_add_child owner body w2;
        Some (body, w3)
      })"

definition full_health :: "int \<Rightarrow> entity \<Rightarrow> entity" where
  "full_health m e = e\<lparr>resource := \<lparr>max_health = m, health = m\<rparr>\<rparr>"

definition player_create :: "vec3 \<Rightarrow> entity_type \<Rightarrow> world \<Rightarrow> (addr \<times> world) option" where
  "player_create shape_size et w =
     (let (pl, w) = entity_new et (Player_class
            \<lparr>pl_character_id = 0, pl_player_name = [], pl_main_weapon = None, pl_stats = stats_new\<rparr>) w
      in do {
        w \<leftarrow> modify_entity pl (\<lambda>e. e\<lparr>state_machine := combat_machine\<rparr>) w;
        w \<leftarrow> modify_entity pl (\<lambda>e. full_health 100 (e\<lparr>movement_speed_base := f_lit (1 / 4)\<rparr>)) w;
        (body, w) \<leftarrow> attach_body pl (layer_entities OR layer_players) w;
        let (offset, w) = alloc_node (mk_vec (f_lit 0) (f_lit 0) (f_lit 1)) (F_zero False) Plain_node w;
        w \<leftarrow> world_add_child pl offset w;
        (fist, w) \<leftarrow> fist_create shape_size w;
        w \<leftarrow> world_add_child offset (fist_node fist) w;
        w \<leftarrow> modify_entity pl (\<lambda>e. case en_class e of
               Player_class d \<Rightarrow> e\<lparr>en_class := Player_class (d\<lparr>pl_main_weapon := Some (Fist_item fist)\<rparr>)\<rparr>
             | _ \<Rightarrow> e) w;
        Some (pl, w)
      })"

text \<open>Before \<open>create\<close> sets them, the members \<open>_weapon\<close> and \<open>_detection_area\<close> are null; the model
  attaches the monster's data at the end.\<close>

definition simple_monster_create :: "vec3 \<Rightarrow> world \<Rightarrow> (addr \<times> world) option" where
  "simple_monster_create shape_size w =
     (let (mo, w) = entity_new SIMPLE_MONSTER (Monster_class
            \<lparr>mo_state = IDLE, mo_weapon = \<lparr>fist_node = 0, fist_damage = 0, fist_shape = 0\<rparr>,
             mo_detection_area = 0, mo_chasing_target = None, mo_chasing_path = [],
             mo_chasing_path_index = 0, mo_chasing_started = 0\<rparr>) w
      in do {
        w \<leftarrow> modify_entity mo (\<lambda>e. e\<lparr>state_machine := combat_machine\<rparr>) w;
        (body, w) \<leftarrow> attach_body mo layer_entities w;
        w \<leftarrow> modify_entity mo (\<lambda>e. full_health 10
               (e\<lparr>movement_mode := TARGET, movement_speed_base := f_lit (1 / 5)\<rparr>)) w;
        let (area, w) = node_new (Sphere_shape (f_lit 4)) w;
        w \<leftarrow> world_add_child mo area w;
        (fist, w) \<leftarrow> fist_create shape_size w;
        w \<leftarrow> world_add_child mo (fist_node fist) w;
        w \<leftarrow> modify_entity mo (\<lambda>e. case en_class e of
               Monster_class d \<Rightarrow>
                 e\<lparr>en_class := Monster_class (d\<lparr>mo_weapon := fist, mo_detection_area := area\<rparr>)\<rparr>
             | _ \<Rightarrow> e) w;
        Some (mo, w)
      })"

section \<open>What the factories build\<close>

lemmas factory_defs = entity_new_def generate_entity_id_def node_new_def alloc_node_def Let_def
  modify_entity_def entity_at_def set_entity_def attach_body_def collision_object_create_def
  world_add_child_def add_child_def set_parent_def fist_create_def full_health_def

text \<open>\<open>body\<close> is a collision object on the layers \<open>layer\<close> whose root is the entity at \<open>a\<close>.\<close>

definition body_of :: "heap \<Rightarrow> addr \<Rightarrow> u32 \<Rightarrow> addr \<Rightarrow> bool" where
  "body_of h a layer body \<longleftrightarrow>
     (\<exists>n s m. h body = Some n \<and> object n = Collider s layer 0 \<and> h s = Some m \<and> object m = Cube_shape body_size)
     \<and> get_root h body = Some a"

definition idle_machine :: "entity \<Rightarrow> bool" where
  "idle_machine e \<longleftrightarrow> sm_current (state_machine e) = State_at ''Idle'' \<and> sm_delayed (state_machine e) = []"

lemma combat_machine_idle: "sm_current combat_machine = State_at ''Idle''" "sm_delayed combat_machine = []"
  by (simp_all add: combat_machine_def sm_new_def Let_def sm_add_state_def sm_set_initial_state_def
      um_contains_def plain_state_def add_transition_def)

text \<open>\<open>Player::create\<close> always succeeds and disturbs no object that exists. The new player has the
  next entity id, full health and an idle state machine; its body collider lies on the layers of
  entities and players and has the player as its root, so an attack that hits the collider finds the
  player; and so has the shape of its weapon, which therefore moves and turns with it.\<close>

theorem player_create_ok:
  "\<exists>pl w' e body fist. player_create sz et w = Some (pl, w')
    \<and> entity_at (wd_heap w') pl = Some e \<and> entity_id e = wd_entity_ids w + 1 \<and> en_type e = et
    \<and> idle_machine e \<and> resource e = \<lparr>max_health = 100, health = 100\<rparr>
    \<and> body_of (wd_heap w') pl (layer_entities OR layer_players) body
    \<and> (\<exists>d. en_class e = Player_class d \<and> pl_main_weapon d = Some (Fist_item fist))
    \<and> map_option object (wd_heap w' (fist_shape fist)) = Some (Cube_shape sz)
    \<and> get_root (wd_heap w') (fist_shape fist) = Some pl
    \<and> wd_heap w' |` {..<wd_next w} = wd_heap w |` {..<wd_next w}"
  by (simp add: player_create_def factory_defs split_beta idle_machine_def combat_machine_idle)
    (intro conjI exI[of _ "Suc (Suc (wd_next w))"],
      simp_all add: body_of_def get_root.simps lock_parent_def fun_eq_iff restrict_map_def)

text \<open>\<open>SimpleMonster::create\<close> likewise: a monster with 10 of 10 health, idle, in target mode, whose
  body collider (on the layer of entities), detection area and weapon have it as their root.\<close>

theorem simple_monster_create_ok:
  "\<exists>mo w' e d body. simple_monster_create sz w = Some (mo, w')
    \<and> entity_at (wd_heap w') mo = Some e \<and> entity_id e = wd_entity_ids w + 1
    \<and> en_type e = SIMPLE_MONSTER \<and> idle_machine e \<and> movement_mode e = TARGET
    \<and> resource e = \<lparr>max_health = 10, health = 10\<rparr>
    \<and> body_of (wd_heap w') mo layer_entities body
    \<and> en_class e = Monster_class d \<and> mo_state d = IDLE
    \<and> map_option object (wd_heap w' (mo_detection_area d)) = Some (Sphere_shape (f_lit 4))
    \<and> get_root (wd_heap w') (mo_detection_area d) = Some mo
    \<and> get_root (wd_heap w') (fist_shape (mo_weapon d)) = Some mo
    \<and> wd_heap w' |` {..<wd_next w} = wd_heap w |` {..<wd_next w}"
  by (simp add: simple_monster_create_def factory_defs split_beta idle_machine_def combat_machine_idle)
    (intro conjI exI[of _ "Suc (Suc (wd_next w))"],
      simp_all add: body_of_def get_root.simps lock_parent_def fun_eq_iff restrict_map_def)

section \<open>The data file\<close>

text \<open>The attack shape read from the data file is always a cube: whatever three numbers the file
  lists, all sides are the first one.\<close>

theorem fist_shape_uniform:
  assumes "fist_data_load obj = Inr d"
  shows "vx (attack_shape_size d) = vy (attack_shape_size d) \<and> vy (attack_shape_size d) = vz (attack_shape_size d)
    \<and> (\<exists>x rest. json_index obj ''attackShape'' = Json_array (Json_double x # rest)
          \<and> vx (attack_shape_size d) = f_lit x)"
proof -
  obtain arr where arr: "json_index obj ''attackShape'' = Json_array arr"
    using assms by (auto simp: fist_data_load_def bind_sum_def as_array_def split: sum.splits json.splits)
  then obtain x where "arr \<noteq> []" "arr ! 0 = Json_double x" and d: "attack_shape_size d = mk_vec (f_lit x) (f_lit x) (f_lit x)"
    using assms
    by (auto simp: fist_data_load_def bind_sum_def as_array_def json_at_def as_double_def
        split: sum.splits json.splits if_splits)
  then show ?thesis by (cases arr) (simp_all add: arr)
qed

definition sample_fist_json :: "(string, json) umap" where
  "sample_fist_json =
     [(''attackInterval'', Json_int64 1000),
      (''attackShape'', Json_array [Json_double 2, Json_double 1, Json_double 3])]"

theorem fist_shape_uniform_witness:
  "\<exists>d. fist_data_load sample_fist_json = Inr d \<and> vz (attack_shape_size d) = f_lit 2"
proof -
  have "(case fist_data_load sample_fist_json of Inr d \<Rightarrow> True | _ \<Rightarrow> False)" by code_simp
  then obtain d where d: "fist_data_load sample_fist_json = Inr d" by (auto split: sum.splits)
  from fist_shape_uniform[OF d] d show ?thesis
    by (auto simp: json_index_def sample_fist_json_def um_find_def)
qed

end
