(* ===== verification/Subworld.thy ===== *)
theory Subworld
  imports Entities
begin

text \<open>
  \<open>Subworld\<close> of \<open>tower/world/subworld.cpp\<close>: the entities of a zone, their colliders, the areas that
  watch for them and the grid of obstacles. The objects are in the heap; the maps hold addresses.
  An undefined read, or a climb that does not return, makes the operation \<open>None\<close>. Emissions of the
  signals \<open>body_entered\<close>, \<open>body_staying\<close> and \<open>body_exited\<close> are returned in order.
\<close>

section \<open>State\<close>

record subworld =
  sw_entities :: "(u32, addr) umap"
  sw_collision_objects :: "(u32, addr) umap"
  sw_collision_areas :: "(u32, addr) umap"
  sw_contacts :: "(u32, u32 set) umap"
  sw_obstacles_grid :: "bool grid"

definition subworld_new :: "bool grid \<Rightarrow> subworld" where
  "subworld_new g =
     \<lparr>sw_entities = [], sw_collision_objects = [], sw_collision_areas = [], sw_contacts = [],
      sw_obstacles_grid = g\<rparr>"

definition size_x :: "subworld \<Rightarrow> int" where
  "size_x sw = static_cast_int (uint (grid_cols (sw_obstacles_grid sw)))"

definition size_z :: "subworld \<Rightarrow> int" where
  "size_z sw = static_cast_int (uint (grid_rows (sw_obstacles_grid sw)))"

definition point2position :: "point \<Rightarrow> vec3" where
  "point2position p =
     mk_vec (f_add (f_of_int (pt_c p)) (f_lit (1 / 2))) (F_zero False)
       (f_add (f_of_int (pt_r p)) (f_lit (1 / 2)))"

section \<open>tick\<close>

definition epsilon :: f32 where
  "epsilon = f_lit (1 / 100000)"

text \<open>\<open>get_current_state_name\<close>: the pointer is read without a check.\<close>

definition current_state_name :: "entity \<Rightarrow> string option" where
  "current_state_name e =
     (case sm_deref (state_machine e) of Some (Some st) \<Rightarrow> Some (st_name st) | _ \<Rightarrow> None)"

text \<open>Where the entity at position \<open>pos\<close> wants to go: its new direction, and the next position unless
  it stays.\<close>

definition next_step :: "glm \<Rightarrow> entity \<Rightarrow> vec3 \<Rightarrow> vec3 \<times> vec3 option" where
  "next_step gl e pos =
     (let dir = target_direction e; speed = movement_speed_base e; target = target_position e in
      case movement_mode e of
        FORWARD \<Rightarrow>
          if g_eps3 gl dir zero3 epsilon then (dir, None)
          else (dir, Some (g_add gl pos (g_scale gl dir speed)))
      | TARGET \<Rightarrow>
          let target_distance = g_distance gl pos target in
          if g_eps1 gl target_distance (F_zero False) epsilon then (zero3, None)
          else
            let dir' = g_normalize gl (g_sub gl target pos) in
            if f_le target_distance speed then (dir', Some target)
            else (dir', Some (g_add gl pos (g_scale gl dir' speed))))"

definition move_entity :: "glm \<Rightarrow> bool grid \<Rightarrow> addr \<Rightarrow> heap \<Rightarrow> heap option" where
  "move_entity gl g a h =
     (case (h a, entity_at h a) of
        (Some n, Some e) \<Rightarrow>
          (case current_state_name e of
             None \<Rightarrow> None
           | Some name \<Rightarrow>
               if name = ''Attacking'' then Some h
               else
                 (let (dir, next_position) = next_step gl e (position n);
                      h1 = set_entity a (e\<lparr>target_direction := dir\<rparr>) h
                  in case next_position of
                    None \<Rightarrow> Some h1
                  | Some np \<Rightarrow>
                      (case point_of_floats (vz np) (vx np) of
                         None \<Rightarrow> None
                       | Some p \<Rightarrow>
                           if \<not> is_inside g p then Some h1
                           else case grid_ref g p of
                             None \<Rightarrow> None
                           | Some blocked \<Rightarrow> Some (if blocked then h1 else set_position a np h1))))
      | _ \<Rightarrow> None)"

datatype contact_event =
    Body_entered u32 u32
  | Body_staying u32 u32
  | Body_exited u32 u32

definition contact_set :: "(u32, u32 set) umap \<Rightarrow> u32 \<Rightarrow> u32 set" where
  "contact_set cs i = (case um_find cs i of None \<Rightarrow> {} | Some s \<Rightarrow> s)"

text \<open>The body of the inner loop for one area and one body; \<open>_contacts[area]\<close> inserts an empty set.\<close>

definition update_contact ::
  "glm \<Rightarrow> heap \<Rightarrow> addr \<Rightarrow> addr \<Rightarrow> (u32, u32 set) umap \<times> contact_event list
     \<Rightarrow> ((u32, u32 set) umap \<times> contact_event list) option" where
  "update_contact gl h area body st =
     (case (h area, h body) of
        (Some na, Some nb) \<Rightarrow>
          (let (cs, evs) = st; i = node_id na; j = node_id nb; known = contact_set cs i in
           case object_is_colliding gl h area body of
             None \<Rightarrow> None
           | Some True \<Rightarrow>
               if j \<in> known then Some (um_assign i known cs, evs @ [Body_staying i j])
               else Some (um_assign i (insert j known) cs, evs @ [Body_entered i j])
           | Some False \<Rightarrow>
               if j \<in> known then Some (um_assign i (known - {j}) cs, evs @ [Body_exited i j])
               else Some (um_assign i known cs, evs))
      | _ \<Rightarrow> None)"

definition update_contacts ::
  "glm \<Rightarrow> heap \<Rightarrow> addr list \<Rightarrow> addr list \<Rightarrow> (u32, u32 set) umap
     \<Rightarrow> ((u32, u32 set) umap \<times> contact_event list) option" where
  "update_contacts gl h areas bodies cs =
     fold_opt (\<lambda>area. fold_opt (update_contact gl h area) bodies) areas (cs, [])"

definition subworld_tick ::
  "glm \<Rightarrow> subworld \<Rightarrow> heap \<Rightarrow> (subworld \<times> heap \<times> contact_event list) option" where
  "subworld_tick gl sw h =
     (case fold_opt (move_entity gl (sw_obstacles_grid sw)) (um_values (sw_entities sw)) h of
        None \<Rightarrow> None
      | Some h' \<Rightarrow>
          map_option (\<lambda>(cs, evs). (sw\<lparr>sw_contacts := cs\<rparr>, h', evs))
            (update_contacts gl h' (um_values (sw_collision_areas sw))
               (um_values (sw_collision_objects sw)) (sw_contacts sw)))"

section \<open>Adding and removing\<close>

definition is_collider :: "node \<Rightarrow> bool" where
  "is_collider n = (case object n of Collider _ _ _ \<Rightarrow> True | _ \<Rightarrow> False)"

text \<open>The loops over the children, and below each child over its own children.\<close>

partial_function (option) add_objects_loop ::
  "heap \<Rightarrow> addr list \<Rightarrow> (u32, addr) umap \<Rightarrow> (u32, addr) umap option" where
  "add_objects_loop h cs m =
     (case cs of
        [] \<Rightarrow> Some m
      | c # rest \<Rightarrow>
          (case h c of
             None \<Rightarrow> None
           | Some n \<Rightarrow>
               Option.bind
                 (add_objects_loop h (children n) (if is_collider n then um_assign (node_id n) c m else m))
                 (\<lambda>m'. add_objects_loop h rest m')))"

partial_function (option) remove_objects_loop ::
  "heap \<Rightarrow> addr list \<Rightarrow> (u32, addr) umap \<Rightarrow> (u32, addr) umap option" where
  "remove_objects_loop h cs m =
     (case cs of
        [] \<Rightarrow> Some m
      | c # rest \<Rightarrow>
          (case h c of
             None \<Rightarrow> None
           | Some n \<Rightarrow>
               Option.bind
                 (remove_objects_loop h (children n) (if is_collider n then um_erase (node_id n) m else m))
                 (\<lambda>m'. remove_objects_loop h rest m')))"

declare add_objects_loop.simps [code] and remove_objects_loop.simps [code]

definition add_collision_objects_from_tree :: "heap \<Rightarrow> addr \<Rightarrow> subworld \<Rightarrow> subworld option" where
  "add_collision_objects_from_tree h a sw =
     Option.bind (get_children a h) (\<lambda>cs.
       map_option (\<lambda>m. sw\<lparr>sw_collision_objects := m\<rparr>)
         (add_objects_loop h cs (sw_collision_objects sw)))"

definition remove_collision_objects_from_tree :: "heap \<Rightarrow> addr \<Rightarrow> subworld \<Rightarrow> subworld option" where
  "remove_collision_objects_from_tree h a sw =
     Option.bind (get_children a h) (\<lambda>cs.
       map_option (\<lambda>m. sw\<lparr>sw_collision_objects := m\<rparr>)
         (remove_objects_loop h cs (sw_collision_objects sw)))"

definition add_entity :: "heap \<Rightarrow> addr \<Rightarrow> subworld \<Rightarrow> subworld option" where
  "add_entity h a sw =
     Option.bind (add_collision_objects_from_tree h a sw) (\<lambda>sw'.
       map_option (\<lambda>e. sw'\<lparr>sw_entities := um_assign (entity_id e) a (sw_entities sw')\<rparr>) (entity_at h a))"

definition remove_entity :: "heap \<Rightarrow> addr \<Rightarrow> subworld \<Rightarrow> subworld option" where
  "remove_entity h a sw =
     Option.bind (remove_collision_objects_from_tree h a sw) (\<lambda>sw'.
       map_option (\<lambda>e. sw'\<lparr>sw_entities := um_erase (entity_id e) (sw_entities sw')\<rparr>) (entity_at h a))"

definition add_collision_area :: "heap \<Rightarrow> addr \<Rightarrow> subworld \<Rightarrow> subworld option" where
  "add_collision_area h area sw =
     map_option (\<lambda>n. sw\<lparr>sw_collision_areas := um_assign (node_id n) area (sw_collision_areas sw),
                       sw_contacts := um_assign (node_id n) {} (sw_contacts sw)\<rparr>) (h area)"

definition remove_collision_area :: "u32 \<Rightarrow> subworld \<Rightarrow> subworld" where
  "remove_collision_area area_id sw =
     sw\<lparr>sw_collision_areas := um_erase area_id (sw_collision_areas sw),
        sw_contacts := um_erase area_id (sw_contacts sw)\<rparr>"

section \<open>Queries\<close>

text \<open>\<open>get_collisions\<close> of a collider: the loop skips the objects that the collider does collide with.\<close>

definition get_collisions_of :: "glm \<Rightarrow> heap \<Rightarrow> addr \<Rightarrow> subworld \<Rightarrow> addr list option" where
  "get_collisions_of gl h collider sw =
     fold_opt (\<lambda>other found.
         case object_is_colliding gl h collider other of
           None \<Rightarrow> None
         | Some True \<Rightarrow> Some found
         | Some False \<Rightarrow> Some (found @ [other]))
       (um_values (sw_collision_objects sw)) []"

text \<open>\<open>get_collisions\<close> of a shape, on the layers of \<open>msk\<close>.\<close>

definition collision_candidate :: "glm \<Rightarrow> heap \<Rightarrow> addr \<Rightarrow> u32 \<Rightarrow> addr \<Rightarrow> bool option" where
  "collision_candidate gl h target_shape msk c =
     (case h c of
        None \<Rightarrow> None
      | Some n \<Rightarrow>
          (case object n of
             Collider sh layer _ \<Rightarrow>
               if msk AND layer = 0 then Some False else shape_is_colliding gl h sh target_shape
           | _ \<Rightarrow> None))"

definition get_collisions_shape :: "glm \<Rightarrow> heap \<Rightarrow> addr \<Rightarrow> u32 \<Rightarrow> subworld \<Rightarrow> addr list option" where
  "get_collisions_shape gl h target_shape msk sw =
     fold_opt (\<lambda>c found.
         case collision_candidate gl h target_shape msk c of
           None \<Rightarrow> None
         | Some hit \<Rightarrow> Some (if hit then found @ [c] else found))
       (um_values (sw_collision_objects sw)) []"

end
