(* ===== verification/Subworld_Correct.thy ===== *)
theory Subworld_Correct
  imports Subworld Pathfinder
begin

text \<open>What the operations of \<open>Subworld\<close> guarantee: where entities may move, which contacts are known
  and announced after a tick, and what adding and removing an entity does to the colliders.\<close>

section \<open>Movement\<close>

definition position_at :: "heap \<Rightarrow> addr \<Rightarrow> vec3 option" where
  "position_at h a = map_option position (h a)"

definition on_free_cell :: "bool grid \<Rightarrow> heap \<Rightarrow> addr \<Rightarrow> bool" where
  "on_free_cell g h a \<longleftrightarrow>
     (\<exists>v p. position_at h a = Some v \<and> point_of_floats (vz v) (vx v) = Some p
        \<and> is_inside g p \<and> grid_ref g p = Some False)"

lemma position_at_set [heap_simps]:
  "position_at (set_entity a e h) b = position_at h b"
  "position_at (set_position a v h) b = (if b = a \<and> h a \<noteq> None then Some v else position_at h b)"
  by (auto simp: position_at_def set_entity_def set_position_def split: option.splits)

text \<open>One step of the loop: every other object is untouched, the entity keeps its state machine, and it
  either stays or goes to a free cell.\<close>

lemma move_entity_spec:
  assumes "move_entity gl g a h = Some h'"
  shows "\<And>b. b \<noteq> a \<Longrightarrow> h' b = h b"
    and "position_at h' a = position_at h a \<or> on_free_cell g h' a"
    and "map_option state_machine (entity_at h' a) = map_option state_machine (entity_at h a)"
    and "\<And>e. entity_at h a = Some e \<Longrightarrow> current_state_name e = Some ''Attacking'' \<Longrightarrow> h' = h"
proof -
  obtain n e where n: "h a = Some n" and e: "entity_at h a = Some e"
    using assms by (auto simp: move_entity_def split: option.splits)
  obtain name where name: "current_state_name e = Some name"
    using assms n e by (auto simp: move_entity_def split: option.splits)
  obtain dir np where step: "next_step gl e (position n) = (dir, np)" by fastforce
  let ?h1 = "set_entity a (e\<lparr>target_direction := dir\<rparr>) h"
  have cases: "h' = h \<and> name = ''Attacking'' \<or> name \<noteq> ''Attacking'' \<and> h' = ?h1 \<or>
    (name \<noteq> ''Attacking'' \<and> (\<exists>v p. h' = set_position a v ?h1 \<and> point_of_floats (vz v) (vx v) = Some p
        \<and> is_inside g p \<and> grid_ref g p = Some False))"
    using assms n e name step
    by (auto simp: move_entity_def Let_def split: option.splits if_splits)
  have h1: "?h1 a \<noteq> None" using n by (simp add: set_entity_def)
  show "\<And>b. b \<noteq> a \<Longrightarrow> h' b = h b"
    using cases by (auto simp: set_entity_def set_position_def split: option.splits)
  show "position_at h' a = position_at h a \<or> on_free_cell g h' a"
    using cases h1 by (auto simp: heap_simps on_free_cell_def)
  show "map_option state_machine (entity_at h' a) = map_option state_machine (entity_at h a)"
    using cases e n by (auto simp: heap_simps)
  show "h' = h" if "entity_at h a = Some e'" "current_state_name e' = Some ''Attacking''" for e'
    using cases that e name by auto
qed

definition attacking_at :: "heap \<Rightarrow> addr \<Rightarrow> bool" where
  "attacking_at h a \<longleftrightarrow> (\<exists>e. entity_at h a = Some e \<and> current_state_name e = Some ''Attacking'')"

lemma current_state_name_cong:
  "state_machine e = state_machine e' \<Longrightarrow> current_state_name e = current_state_name e'"
  by (simp add: current_state_name_def)

lemma attacking_at_cong:
  "map_option state_machine (entity_at h a) = map_option state_machine (entity_at h' a)
     \<Longrightarrow> attacking_at h a = attacking_at h' a"
  by (cases "entity_at h a"; cases "entity_at h' a")
    (auto simp: attacking_at_def dest: current_state_name_cong)

definition moved_ok :: "bool grid \<Rightarrow> addr set \<Rightarrow> heap \<Rightarrow> heap \<Rightarrow> bool" where
  "moved_ok g as h h' \<longleftrightarrow>
     (\<forall>b. (position_at h' b = position_at h b \<or> on_free_cell g h' b)
        \<and> (b \<notin> as \<or> attacking_at h b \<longrightarrow> h' b = h b)
        \<and> map_option state_machine (entity_at h' b) = map_option state_machine (entity_at h b))"

lemma moved_ok_step:
  assumes "moved_ok g as h h1" "a \<in> as" "move_entity gl g a h1 = Some h2"
  shows "moved_ok g as h h2"
  unfolding moved_ok_def
proof (intro allI)
  fix b
  note spec = move_entity_spec[OF assms(3)]
  have ok: "position_at h1 b = position_at h b \<or> on_free_cell g h1 b"
    "b \<notin> as \<or> attacking_at h b \<longrightarrow> h1 b = h b"
    "map_option state_machine (entity_at h1 b) = map_option state_machine (entity_at h b)"
    using assms(1) unfolding moved_ok_def by blast+
  show "(position_at h2 b = position_at h b \<or> on_free_cell g h2 b)
    \<and> (b \<notin> as \<or> attacking_at h b \<longrightarrow> h2 b = h b)
    \<and> map_option state_machine (entity_at h2 b) = map_option state_machine (entity_at h b)"
  proof (cases "b = a")
    case True
    have "h2 a = h1 a" if "attacking_at h a"
      using that attacking_at_cong[OF ok(3)] spec(4) unfolding True attacking_at_def by blast
    moreover have "position_at h2 a = position_at h a \<or> on_free_cell g h2 a"
      using spec(2) ok(1) unfolding True on_free_cell_def by metis
    ultimately show ?thesis using ok spec(3) assms(2) unfolding True by auto
  next
    case False
    then have "h2 b = h1 b" using spec(1) by blast
    with ok show ?thesis by (simp add: position_at_def on_free_cell_def entity_at_def)
  qed
qed

lemma move_entities_ok:
  assumes "fold_opt (move_entity gl g) as h = Some h'"
  shows "moved_ok g (set as) h h'"
  by (rule fold_opt_invariant[OF assms]) (simp add: moved_ok_def, rule moved_ok_step)

text \<open>C10. A tick of the world moves nothing into an obstacle or off the map: whatever the entities'
  targets and directions (NaN and infinities included), a node whose position the tick changes ends on
  a cell inside the grid that is not blocked; an attacking entity, and whatever is not an entity of the
  zone, is left exactly as it was.\<close>

theorem tick_moves_to_free_cells:
  assumes "subworld_tick gl sw h = Some (sw', h', evs)"
  shows "\<forall>b. (position_at h' b = position_at h b \<or> on_free_cell (sw_obstacles_grid sw) h' b)
    \<and> (b \<notin> set (um_values (sw_entities sw)) \<or> attacking_at h b \<longrightarrow> h' b = h b)"
proof -
  have "fold_opt (move_entity gl (sw_obstacles_grid sw)) (um_values (sw_entities sw)) h = Some h'"
    using assms by (auto simp: subworld_tick_def split: option.splits)
  from move_entities_ok[OF this] show ?thesis unfolding moved_ok_def by blast
qed

section \<open>Contacts\<close>

definition nid :: "heap \<Rightarrow> addr \<Rightarrow> u32" where
  "nid h a = (case h a of Some n \<Rightarrow> node_id n | None \<Rightarrow> 0)"

text \<open>What one pair of an area and a body announces, given the contacts known before.\<close>

definition expected_event :: "glm \<Rightarrow> heap \<Rightarrow> (u32, u32 set) umap \<Rightarrow> addr \<Rightarrow> addr \<Rightarrow> contact_event list" where
  "expected_event gl h cs area body =
     (let known = nid h body \<in> contact_set cs (nid h area) in
      if object_is_colliding gl h area body = Some True
      then [(if known then Body_staying else Body_entered) (nid h area) (nid h body)]
      else if known then [Body_exited (nid h area) (nid h body)] else [])"

definition collides :: "glm \<Rightarrow> heap \<Rightarrow> addr \<Rightarrow> addr \<Rightarrow> bool" where
  "collides gl h area body \<longleftrightarrow> object_is_colliding gl h area body = Some True"

lemma contact_set_assign:
  "contact_set (um_assign i s cs) k = (if k = i then s else contact_set cs k)"
  by (simp add: contact_set_def)

lemma update_contact_spec:
  assumes "update_contact gl h area body (cs, evs) = Some (cs', evs')"
  shows "contact_set cs' k =
      (if k \<noteq> nid h area then contact_set cs k
       else if collides gl h area body then insert (nid h body) (contact_set cs k)
       else contact_set cs k - {nid h body})"
    and "evs' = evs @ expected_event gl h cs area body"
proof -
  obtain na nb c where "h area = Some na" "h body = Some nb" "object_is_colliding gl h area body = Some c"
    using assms by (auto simp: update_contact_def Let_def split: option.splits)
  with assms show "contact_set cs' k =
      (if k \<noteq> nid h area then contact_set cs k
       else if collides gl h area body then insert (nid h body) (contact_set cs k)
       else contact_set cs k - {nid h body})"
    and "evs' = evs @ expected_event gl h cs area body"
    by (auto simp: update_contact_def Let_def nid_def expected_event_def collides_def contact_set_assign
        split: bool.splits if_splits)
qed

lemma expected_event_cong:
  "(nid h body \<in> contact_set cs (nid h area)) = (nid h body \<in> contact_set cs' (nid h area))
     \<Longrightarrow> expected_event gl h cs area body = expected_event gl h cs' area body"
  by (simp add: expected_event_def)

text \<open>The inner loop.\<close>

lemma area_contacts:
  assumes "fold_opt (update_contact gl h area) bodies (cs, evs) = Some (cs', evs')"
    and "distinct (map (nid h) bodies)"
  shows "(\<forall>k. k \<noteq> nid h area \<longrightarrow> contact_set cs' k = contact_set cs k)
    \<and> (\<forall>body \<in> set bodies. nid h body \<in> contact_set cs' (nid h area) \<longleftrightarrow> collides gl h area body)
    \<and> (\<forall>j. j \<notin> nid h ` set bodies \<longrightarrow> (j \<in> contact_set cs' (nid h area)) = (j \<in> contact_set cs (nid h area)))
    \<and> evs' = evs @ concat (map (expected_event gl h cs area) bodies)"
  using assms
proof (induction bodies arbitrary: cs evs)
  case (Cons b bs)
  obtain cs1 evs1 where u: "update_contact gl h area b (cs, evs) = Some (cs1, evs1)"
    and f: "fold_opt (update_contact gl h area) bs (cs1, evs1) = Some (cs', evs')"
    using Cons.prems(1) by (auto split: option.splits)
  note one = update_contact_spec[OF u]
  have fresh: "nid h b \<notin> nid h ` set bs" using Cons.prems(2) by simp
  have IH: "(\<forall>k. k \<noteq> nid h area \<longrightarrow> contact_set cs' k = contact_set cs1 k)
    \<and> (\<forall>body \<in> set bs. nid h body \<in> contact_set cs' (nid h area) \<longleftrightarrow> collides gl h area body)
    \<and> (\<forall>j. j \<notin> nid h ` set bs \<longrightarrow> (j \<in> contact_set cs' (nid h area)) = (j \<in> contact_set cs1 (nid h area)))
    \<and> evs' = evs1 @ concat (map (expected_event gl h cs1 area) bs)"
    using Cons.IH[OF f] Cons.prems(2) by simp
  have "concat (map (expected_event gl h cs1 area) bs) = concat (map (expected_event gl h cs area) bs)"
  proof (intro arg_cong[of _ _ concat] map_cong refl expected_event_cong)
    fix x assume "x \<in> set bs"
    then have "nid h x \<noteq> nid h b" using fresh by (metis image_eqI)
    then show "(nid h x \<in> contact_set cs1 (nid h area)) = (nid h x \<in> contact_set cs (nid h area))"
      by (simp add: one(1))
  qed
  moreover have "nid h b \<in> contact_set cs' (nid h area) \<longleftrightarrow> collides gl h area b"
    using IH fresh by (simp add: one(1))
  ultimately show ?case using IH one by (auto split: if_splits)
qed simp

text \<open>The outer loop.\<close>

lemma all_contacts:
  assumes "fold_opt (\<lambda>area. fold_opt (update_contact gl h area) bodies) areas (cs, evs) = Some (cs', evs')"
    and "distinct (map (nid h) bodies)" and "distinct (map (nid h) areas)"
  shows "(\<forall>k. k \<notin> nid h ` set areas \<longrightarrow> contact_set cs' k = contact_set cs k)
    \<and> (\<forall>area \<in> set areas. \<forall>body \<in> set bodies.
         nid h body \<in> contact_set cs' (nid h area) \<longleftrightarrow> collides gl h area body)
    \<and> evs' = evs @ concat (map (\<lambda>area. concat (map (expected_event gl h cs area) bodies)) areas)"
  using assms
proof (induction areas arbitrary: cs evs)
  case (Cons a as)
  obtain cs1 evs1 where u: "fold_opt (update_contact gl h a) bodies (cs, evs) = Some (cs1, evs1)"
    and f: "fold_opt (\<lambda>area. fold_opt (update_contact gl h area) bodies) as (cs1, evs1) = Some (cs', evs')"
    using Cons.prems(1) by (auto split: option.splits)
  note one = area_contacts[OF u Cons.prems(2)]
  have fresh: "nid h a \<notin> nid h ` set as" using Cons.prems(3) by simp
  have IH: "(\<forall>k. k \<notin> nid h ` set as \<longrightarrow> contact_set cs' k = contact_set cs1 k)
    \<and> (\<forall>area \<in> set as. \<forall>body \<in> set bodies.
         nid h body \<in> contact_set cs' (nid h area) \<longleftrightarrow> collides gl h area body)
    \<and> evs' = evs1 @ concat (map (\<lambda>area. concat (map (expected_event gl h cs1 area) bodies)) as)"
    using Cons.IH[OF f] Cons.prems(2,3) by simp
  have "concat (map (expected_event gl h cs1 x) bodies) = concat (map (expected_event gl h cs x) bodies)"
    if "x \<in> set as" for x
  proof (intro arg_cong[of _ _ concat] map_cong refl expected_event_cong)
    fix y
    have "nid h x \<noteq> nid h a" using that fresh by (metis image_eqI)
    then show "(nid h y \<in> contact_set cs1 (nid h x)) = (nid h y \<in> contact_set cs (nid h x))"
      using one by simp
  qed
  then have "concat (map (\<lambda>area. concat (map (expected_event gl h cs1 area) bodies)) as)
      = concat (map (\<lambda>area. concat (map (expected_event gl h cs area) bodies)) as)"
    by (rule arg_cong[OF map_cong[OF refl]])
  with IH one fresh show ?case by auto
qed simp

text \<open>The maps of colliders and areas are keyed by the objects' node ids.\<close>

definition keyed_by_node_id :: "heap \<Rightarrow> (u32, addr) umap \<Rightarrow> bool" where
  "keyed_by_node_id h m \<longleftrightarrow> um_ok m \<and> (\<forall>(k, a) \<in> set m. nid h a = k)"

lemma keyed_distinct:
  assumes "keyed_by_node_id h m"
  shows "distinct (map (nid h) (um_values m))"
proof -
  have "map (nid h) (um_values m) = map fst m"
    using assms by (auto simp: keyed_by_node_id_def um_values_def)
  then show ?thesis using assms by (simp add: keyed_by_node_id_def um_ok_def)
qed

lemma move_entity_nid:
  assumes "move_entity gl g a h = Some h'"
  shows "nid h' b = nid h b"
  using assms
  by (auto simp: move_entity_def Let_def nid_def set_entity_def set_position_def
      split: option.splits if_splits prod.splits)

lemma move_entities_nid:
  assumes "fold_opt (move_entity gl g) as h = Some h'"
  shows "nid h' b = nid h b"
  by (rule fold_opt_invariant[OF assms]) (simp_all add: move_entity_nid)


section \<open>Adding and removing an entity\<close>

text \<open>The colliders below the nodes \<open>cs\<close>, in the order of the loops, with their ids.\<close>

inductive tree_colliders :: "heap \<Rightarrow> addr list \<Rightarrow> (u32 \<times> addr) list \<Rightarrow> bool" for h where
  Nil: "tree_colliders h [] []"
| Cons: "h c = Some n \<Longrightarrow> tree_colliders h (children n) xs \<Longrightarrow> tree_colliders h rest ys
    \<Longrightarrow> tree_colliders h (c # rest) ((if is_collider n then [(node_id n, c)] else []) @ xs @ ys)"

definition assign_all :: "(u32 \<times> addr) list \<Rightarrow> (u32, addr) umap \<Rightarrow> (u32, addr) umap" where
  "assign_all kvs = fold (\<lambda>(k, v). um_assign k v) kvs"

definition erase_all :: "u32 list \<Rightarrow> (u32, addr) umap \<Rightarrow> (u32, addr) umap" where
  "erase_all ks = fold um_erase ks"

lemma add_objects_sound:
  assumes "add_objects_loop h cs m = Some m'"
  shows "\<exists>kvs. tree_colliders h cs kvs \<and> m' = assign_all kvs m"
proof (rule add_objects_loop.raw_induct[where P = "\<lambda>h cs m m'. \<exists>kvs. tree_colliders h cs kvs \<and> m' = assign_all kvs m",
        OF _ assms])
  fix loop h cs m m'
  assume IH: "\<And>h cs m m'. loop h cs m = Some m' \<Longrightarrow> \<exists>kvs. tree_colliders h cs kvs \<and> m' = assign_all kvs m"
    and run: "(case cs of [] \<Rightarrow> Some m
      | c # rest \<Rightarrow>
          (case h c of
             None \<Rightarrow> None
           | Some n \<Rightarrow>
               Option.bind (loop h (children n) (if is_collider n then um_assign (node_id n) c m else m))
                 (\<lambda>m'. loop h rest m'))) = Some m'"
  show "\<exists>kvs. tree_colliders h cs kvs \<and> m' = assign_all kvs m"
  proof (cases cs)
    case Nil
    then have "tree_colliders h cs [] \<and> m' = assign_all [] m"
      using run by (simp add: tree_colliders.Nil assign_all_def)
    then show ?thesis by blast
  next
    case (Cons c rest)
    then obtain n m1 where n: "h c = Some n"
      and 1: "loop h (children n) (if is_collider n then um_assign (node_id n) c m else m) = Some m1"
      and 2: "loop h rest m1 = Some m'"
      using run by (auto split: option.splits simp: Option.bind_eq_Some_conv)
    obtain xs where xs: "tree_colliders h (children n) xs"
      "m1 = assign_all xs (if is_collider n then um_assign (node_id n) c m else m)"
      using IH[OF 1] by blast
    obtain ys where ys: "tree_colliders h rest ys" "m' = assign_all ys m1" using IH[OF 2] by blast
    have "m' = assign_all ((if is_collider n then [(node_id n, c)] else []) @ xs @ ys) m"
      using xs(2) ys(2) by (simp add: assign_all_def)
    then show ?thesis using tree_colliders.Cons[OF n xs(1) ys(1)] Cons by blast
  qed
qed

lemma remove_objects_complete:
  "tree_colliders h cs kvs \<Longrightarrow> remove_objects_loop h cs m = Some (erase_all (map fst kvs) m)"
proof (induction arbitrary: m rule: tree_colliders.induct)
  case Nil
  then show ?case by (simp add: remove_objects_loop.simps erase_all_def)
next
  case (Cons c n xs rest ys)
  then show ?case by (subst remove_objects_loop.simps) (simp add: erase_all_def)
qed

lemma find_assign_all:
  "um_ok m \<Longrightarrow> um_ok (assign_all kvs m) \<and>
     um_find (assign_all kvs m) k = (case map_of (rev kvs) k of Some v \<Rightarrow> Some v | None \<Rightarrow> um_find m k)"
  unfolding assign_all_def by (rule um.find_fold_assign)

lemma find_erase_all:
  "um_ok m \<Longrightarrow> um_ok (erase_all ks m) \<and> um_find (erase_all ks m) k = (if k \<in> set ks then None else um_find m k)"
  unfolding erase_all_def by (rule um.find_fold_erase)

inductive_cases tree_colliders_NilE: "tree_colliders h [] kvs"
inductive_cases tree_colliders_ConsE: "tree_colliders h (c # cs) kvs"

lemma tree_colliders_unique: "tree_colliders h cs kvs \<Longrightarrow> tree_colliders h cs kvs' \<Longrightarrow> kvs = kvs'"
proof (induction arbitrary: kvs' rule: tree_colliders.induct)
  case Nil
  then show ?case by (auto elim: tree_colliders_NilE)
next
  case (Cons c n xs rest ys)
  from Cons.prems show ?case
    by (rule tree_colliders_ConsE) (use Cons.IH Cons.hyps(1) in auto)
qed

definition subworld_ok :: "subworld \<Rightarrow> bool" where
  "subworld_ok sw \<longleftrightarrow> um_ok (sw_entities sw) \<and> um_ok (sw_collision_objects sw)
     \<and> um_ok (sw_collision_areas sw) \<and> um_ok (sw_contacts sw)"

text \<open>Removing an entity undoes adding it. If an entity can be added, whose id and whose colliders'
  ids are not in use, then afterwards every collider of its tree is registered under its id, the
  entity can be removed again, and the zone's entities and colliders are then what they were.\<close>

theorem add_remove_entity:
  assumes "subworld_ok sw" and "add_entity h a sw = Some sw1"
    and "entity_at h a = Some e" and "um_find (sw_entities sw) (entity_id e) = None"
    and "get_children a h = Some cs" and "tree_colliders h cs kvs"
    and "distinct (map fst kvs)" and "\<forall>k \<in> fst ` set kvs. um_find (sw_collision_objects sw) k = None"
  shows "\<exists>sw2. remove_entity h a sw1 = Some sw2
    \<and> um_find (sw_entities sw1) (entity_id e) = Some a
    \<and> (\<forall>(k, c) \<in> set kvs. um_find (sw_collision_objects sw1) k = Some c)
    \<and> um_find (sw_entities sw2) = um_find (sw_entities sw)
    \<and> um_find (sw_collision_objects sw2) = um_find (sw_collision_objects sw)"
proof -
  let ?m = "sw_collision_objects sw"
  obtain m1 where m1: "add_objects_loop h cs ?m = Some m1"
    and sw1: "sw1 = sw\<lparr>sw_collision_objects := m1, sw_entities := um_assign (entity_id e) a (sw_entities sw)\<rparr>"
    using assms(2,3,5)
    by (auto simp: add_entity_def add_collision_objects_from_tree_def Option.bind_eq_Some_conv)
  obtain kvs' where kvs': "tree_colliders h cs kvs'" "m1 = assign_all kvs' ?m"
    using add_objects_sound[OF m1] by blast
  then have m1': "m1 = assign_all kvs ?m" using tree_colliders_unique[OF assms(6)] by blast
  have ok: "um_ok ?m" "um_ok (sw_entities sw)" using assms(1) by (simp_all add: subworld_ok_def)
  let ?m2 = "erase_all (map fst kvs) m1"
  have rm: "remove_objects_loop h cs m1 = Some ?m2" by (rule remove_objects_complete[OF assms(6)])
  define sw2 where "sw2 = sw1\<lparr>sw_collision_objects := ?m2,
      sw_entities := um_erase (entity_id e) (sw_entities sw1)\<rparr>"
  have "remove_entity h a sw1 = Some sw2"
    using rm assms(3,5)
    by (simp add: remove_entity_def remove_collision_objects_from_tree_def sw1 sw2_def)
  moreover have "\<forall>(k, c) \<in> set kvs. um_find m1 k = Some c"
  proof clarify
    fix k c assume "(k, c) \<in> set kvs"
    then have "map_of (rev kvs) k = Some c"
      using assms(7) by (intro map_of_is_SomeI) (simp_all add: rev_map[symmetric])
    then show "um_find m1 k = Some c" by (simp add: m1' find_assign_all[OF ok(1)])
  qed
  moreover have "um_find ?m2 = um_find ?m"
  proof
    fix k
    have "um_find m1 k = um_find ?m k" if "k \<notin> fst ` set kvs"
      using that by (simp add: m1' find_assign_all[OF ok(1)] map_of_eq_None_iff split: option.split)
        (metis fst_conv image_eqI map_of_SomeD set_rev)
    then show "um_find ?m2 k = um_find ?m k"
      using find_erase_all[of m1 "map fst kvs" k] find_assign_all[OF ok(1), of kvs] assms(8)
      by (auto simp: m1')
  qed
  moreover have "um_find (um_erase (entity_id e) (um_assign (entity_id e) a (sw_entities sw)))
      = um_find (sw_entities sw)"
    using um.find_erase_assign[OF ok(2), of "entity_id e" a] assms(4) by (simp add: um.keys_def)
  ultimately show ?thesis by (simp add: sw1 sw2_def)
qed

section \<open>A zone for the witnesses\<close>

text \<open>A player in the corner of a 3x3 map, walking along the first row, and an area that covers it.\<close>

definition plain_node_at :: "u32 \<Rightarrow> vec3 \<Rightarrow> addr option \<Rightarrow> addr list \<Rightarrow> object \<Rightarrow> node" where
  "plain_node_at i v p cs ob = \<lparr>node_id = i, position = v, rotation = F_zero False, parent = p, children = cs, object = ob\<rparr>"

definition walker :: entity where
  "walker = \<lparr>entity_id = 1, en_type = HUMAN, state_machine = combat_machine,
     resource = \<lparr>max_health = 100, health = 100\<rparr>, movement_mode = FORWARD,
     target_direction = mk_vec (f_lit 1) (f_lit 0) (f_lit 0), target_position = zero3,
     movement_speed_base = f_lit (1 / 4),
     en_class = Player_class \<lparr>pl_character_id = 0, pl_player_name = [], pl_main_weapon = None, pl_stats = stats_new\<rparr>\<rparr>"

definition walk_heap :: heap where
  "walk_heap =
     [0 \<mapsto> plain_node_at 1 (mk_vec (f_lit (1 / 2)) (f_lit 0) (f_lit (1 / 2))) None [1] (Entity_object walker),
      1 \<mapsto> plain_node_at 2 zero3 (Some 0) [2] (Collider 2 layer_entities 0),
      2 \<mapsto> plain_node_at 3 zero3 (Some 1) [] (Cube_shape body_size),
      3 \<mapsto> plain_node_at 4 zero3 None [4] (Collider 4 layer_areas layer_entities),
      4 \<mapsto> plain_node_at 5 zero3 (Some 3) [] (Cube_shape body_size)]"

definition walk_world :: subworld where
  "walk_world = \<lparr>sw_entities = [(1, 0)], sw_collision_objects = [(2, 1)], sw_collision_areas = [(4, 3)],
     sw_contacts = [(4, {})], sw_obstacles_grid = test_grid\<rparr>"

lemma walk_tick:
  obtains sw' h' where "subworld_tick sample_glm walk_world walk_heap = Some (sw', h', [Body_entered 4 2])"
    "position_at h' 0 = Some (mk_vec (F_num (3 / 4)) (F_zero False) (F_num (1 / 2)))"
proof -
  have "(case subworld_tick sample_glm walk_world walk_heap of None \<Rightarrow> False
     | Some (sw', h', evs) \<Rightarrow> evs = [Body_entered 4 2]
         \<and> position_at h' 0 = Some (mk_vec (F_num (3 / 4)) (F_zero False) (F_num (1 / 2))))"
    by code_simp
  with that show thesis by (auto split: option.splits prod.splits)
qed

theorem tick_moves_to_free_cells_witness:
  "\<exists>sw' h' evs. subworld_tick sample_glm walk_world walk_heap = Some (sw', h', evs)
     \<and> position_at h' 0 \<noteq> position_at walk_heap 0 \<and> on_free_cell test_grid h' 0"
proof -
  obtain sw' h' where t: "subworld_tick sample_glm walk_world walk_heap = Some (sw', h', [Body_entered 4 2])"
    "position_at h' 0 = Some (mk_vec (F_num (3 / 4)) (F_zero False) (F_num (1 / 2)))"
    by (rule walk_tick)
  have "position_at walk_heap 0 \<noteq> Some (mk_vec (F_num (3 / 4)) (F_zero False) (F_num (1 / 2)))"
    by code_simp
  moreover have "sw_obstacles_grid walk_world = test_grid" by (simp add: walk_world_def)
  ultimately show ?thesis using tick_moves_to_free_cells[OF t(1)] t by metis
qed


theorem add_remove_entity_witness:
  "\<exists>sw1 sw2. add_entity walk_heap 0 (subworld_new test_grid) = Some sw1
     \<and> um_find (sw_collision_objects sw1) 2 = Some 1
     \<and> remove_entity walk_heap 0 sw1 = Some sw2 \<and> um_find (sw_collision_objects sw2) 2 = None"
proof -
  let ?sw = "subworld_new test_grid"
  have tree: "tree_colliders walk_heap [1] [(2, 1)]"
  proof -
    have "tree_colliders walk_heap [2] []"
      using tree_colliders.Cons[of walk_heap 2 "plain_node_at 3 zero3 (Some 1) [] (Cube_shape body_size)" "[]" "[]" "[]"]
      by (simp add: walk_heap_def plain_node_at_def is_collider_def tree_colliders.Nil)
    then show ?thesis
      using tree_colliders.Cons[of walk_heap 1 "plain_node_at 2 zero3 (Some 0) [2] (Collider 2 layer_entities 0)" "[]" "[]" "[]"]
      by (simp add: walk_heap_def plain_node_at_def is_collider_def tree_colliders.Nil)
  qed
  have "(case add_entity walk_heap 0 ?sw of None \<Rightarrow> False | Some _ \<Rightarrow> True)" by code_simp
  then obtain sw1 where sw1: "add_entity walk_heap 0 ?sw = Some sw1" by (auto split: option.splits)
  have "entity_at walk_heap 0 = Some walker" "get_children 0 walk_heap = Some [1]" "subworld_ok ?sw"
    by (simp_all add: entity_at_def get_children_def walk_heap_def plain_node_at_def subworld_ok_def
        subworld_new_def)
  from add_remove_entity[OF this(3) sw1 this(1) _ this(2) tree] show ?thesis
    using sw1 by (auto simp: subworld_new_def)
qed

section \<open>Queries and coordinates\<close>

lemma fold_opt_filter:
  assumes "fold_opt (\<lambda>c found. case f c of None \<Rightarrow> None | Some hit \<Rightarrow> Some (if hit then found @ [c] else found)) cs acc
      = Some res"
  shows "res = acc @ filter (\<lambda>c. f c = Some True) cs \<and> (\<forall>c \<in> set cs. f c \<noteq> None)"
  using assms
proof (induction cs arbitrary: acc)
  case (Cons a cs)
  then obtain hit where "f a = Some hit" by (auto split: option.splits)
  with Cons.prems Cons.IH[of "if hit then acc @ [a] else acc"] show ?case by auto
qed simp

text \<open>The two overloads of \<open>get_collisions\<close> disagree on what they return: the one for a shape
  returns exactly the colliders on the asked layers that collide with it, the one for a collider
  exactly those that do \<^emph>\<open>not\<close> collide with it.\<close>

theorem get_collisions_results:
  assumes "get_collisions_shape gl h sh msk sw = Some shape_hits"
    and "get_collisions_of gl h c sw = Some collider_hits"
  shows "shape_hits = filter (\<lambda>b. collision_candidate gl h sh msk b = Some True) (um_values (sw_collision_objects sw))
    \<and> collider_hits = filter (\<lambda>b. \<not> collides gl h c b) (um_values (sw_collision_objects sw))"
proof -
  have eq: "(\<lambda>other found. case object_is_colliding gl h c other of
           None \<Rightarrow> None | Some True \<Rightarrow> Some found | Some False \<Rightarrow> Some (found @ [other]))
      = (\<lambda>other found. case map_option Not (object_is_colliding gl h c other) of
           None \<Rightarrow> None | Some hit \<Rightarrow> Some (if hit then found @ [other] else found))"
    by (auto simp: fun_eq_iff split: option.split bool.split)
  note 1 = fold_opt_filter[OF assms(1)[unfolded get_collisions_shape_def]]
  note 2 = fold_opt_filter[OF assms(2)[unfolded get_collisions_of_def eq]]
  have "filter (\<lambda>b. map_option Not (object_is_colliding gl h c b) = Some True) (um_values (sw_collision_objects sw))
      = filter (\<lambda>b. \<not> collides gl h c b) (um_values (sw_collision_objects sw))"
  proof (intro filter_cong refl)
    fix b assume "b \<in> set (um_values (sw_collision_objects sw))"
    then obtain y where "object_is_colliding gl h c b = Some y" using 2 by auto
    then show "(map_option Not (object_is_colliding gl h c b) = Some True) = (\<not> collides gl h c b)"
      by (simp add: collides_def)
  qed
  with 1 2 show ?thesis by simp
qed

theorem get_collisions_results_witness:
  "get_collisions_shape sample_glm walk_heap 4 layer_entities walk_world = Some [1]
   \<and> get_collisions_of sample_glm walk_heap 3 walk_world = Some []
   \<and> [1] = filter (\<lambda>b. collision_candidate sample_glm walk_heap 4 layer_entities b = Some True) [1]
   \<and> [] = filter (\<lambda>b. \<not> collides sample_glm walk_heap 3 b) [1]"
proof -
  have vals: "um_values (sw_collision_objects walk_world) = [1]"
    by (simp add: walk_world_def um_values_def)
  have "shape_is_colliding sample_glm walk_heap 2 4 = Some True" by code_simp
  then have "collision_candidate sample_glm walk_heap 4 layer_entities 1 = Some True"
    by (simp add: collision_candidate_def walk_heap_def plain_node_at_def layer_entities_def)
  then have 1: "get_collisions_shape sample_glm walk_heap 4 layer_entities walk_world = Some [1]"
    by (simp add: get_collisions_shape_def vals)
  have "object_is_colliding sample_glm walk_heap 3 1 = Some True" by code_simp
  then have 2: "get_collisions_of sample_glm walk_heap 3 walk_world = Some []"
    by (simp add: get_collisions_of_def vals)
  show ?thesis using get_collisions_results[OF 1 2, unfolded vals] 1 2 by blast
qed

text \<open>Converting a cell to the position of its centre and back gives the cell, for all coordinates
  below \<open>2 ^ 22\<close> in absolute value: the float arithmetic is exact there.\<close>

theorem point2position_roundtrip:
  assumes "\<bar>pt_r p\<bar> < 2 ^ 22" and "\<bar>pt_c p\<bar> < 2 ^ 22"
  shows "point_of_floats (vz (point2position p)) (vx (point2position p)) = Some p"
proof -
  have fl: "f_floor_int (f_add (f_of_int i) (f_lit (1 / 2))) = Some i" if "\<bar>i\<bar> < 2 ^ 22" for i
  proof -
    have "floor (of_int i + 1 / 2 :: rat) = i" by (simp add: floor_eq_iff)
    moreover have "int_range i" using that by (auto simp: int_range_def)
    ultimately show ?thesis using f_half_exact[OF that] by (simp add: f_floor_int_def)
  qed
  show ?thesis using assms fl by (simp add: point_of_floats_def point2position_def)
qed

theorem point2position_roundtrip_witness:
  "point_of_floats (vz (point2position (Point 5 (- 7)))) (vx (point2position (Point 5 (- 7)))) = Some (Point 5 (- 7))"
  by (rule point2position_roundtrip) simp_all

end
