(* ===== verification/Players.thy ===== *)
theory Players
  imports Entities
begin

text \<open>
  \<open>Player::load\<close> and \<open>Player::write_player_info\<close> of \<open>tower/player/player.cpp\<close>, with \<open>Stat\<close> and
  \<open>Inventory\<close>. The database is third-party: the outcome of each query is an input, a row is a list
  of fields, and a field accessor throws \<open>bad_field_access\<close> on a field of another kind. A
  coroutine's suspension points do not matter here, as \<open>load\<close> touches no shared object but the id
  generators.
\<close>

section \<open>Rows\<close>

datatype db_field = Db_null | Db_int64 int | Db_string string | Db_other

type_synonym db_row = "db_field list"

definition row_at :: "db_row \<Rightarrow> nat \<Rightarrow> db_field result" where
  "row_at r i = (if i < length r then Inr (r ! i) else Inl Out_of_range)"

definition field_int64 :: "db_field \<Rightarrow> int result" where
  "field_int64 f = (case f of Db_int64 i \<Rightarrow> Inr i | _ \<Rightarrow> Inl Bad_field_access)"

definition field_string :: "db_field \<Rightarrow> string result" where
  "field_string f = (case f of Db_string s \<Rightarrow> Inr s | _ \<Rightarrow> Inl Bad_field_access)"

definition row_int64 :: "db_row \<Rightarrow> nat \<Rightarrow> int result" where
  "row_int64 r i = bind_sum (row_at r i) field_int64"

definition row_string :: "db_row \<Rightarrow> nat \<Rightarrow> string result" where
  "row_string r i = bind_sum (row_at r i) field_string"

definition cast_int16 :: "int \<Rightarrow> int" where
  "cast_int16 x = signed_take_bit 15 x"

definition cast_int32 :: "int \<Rightarrow> int" where
  "cast_int32 x = signed_take_bit 31 x"

section \<open>Stats and inventory\<close>

definition stat_set :: "int \<Rightarrow> stat \<Rightarrow> stat" where
  "stat_set v s = s\<lparr>stat_value := v\<rparr>"

definition type_to_string :: "stat_type \<Rightarrow> string result" where
  "type_to_string k =
     (case k of
        Stat_STR \<Rightarrow> Inr ''str'' | Stat_MAG \<Rightarrow> Inr ''mag'' | Stat_AGI \<Rightarrow> Inr ''agi''
      | Stat_CON \<Rightarrow> Inr ''con'' | Stat_FAITH \<Rightarrow> Inr ''faith''
      | _ \<Rightarrow> Inl Out_of_range)"

definition get_main_weapon :: "player_data \<Rightarrow> equipment option" where
  "get_main_weapon d = pl_main_weapon d"

definition set_main_weapon :: "equipment option \<Rightarrow> player_data \<Rightarrow> player_data" where
  "set_main_weapon wpn d = d\<lparr>pl_main_weapon := wpn\<rparr>"

text \<open>The reads of the second row, in the order of the source.\<close>

definition load_stats :: "db_row \<Rightarrow> stats \<Rightarrow> stats result" where
  "load_stats r s =
     bind_sum (row_int64 r 1) (\<lambda>level.
     bind_sum (row_int64 r 2) (\<lambda>exp.
     bind_sum (row_int64 r 3) (\<lambda>str.
     bind_sum (row_int64 r 4) (\<lambda>mag.
     bind_sum (row_int64 r 5) (\<lambda>agi.
     bind_sum (row_int64 r 6) (\<lambda>con.
     let s = s\<lparr>st_level := stat_set (cast_int16 level) (st_level s),
               st_exp := stat_set (cast_int32 exp) (st_exp s),
               st_str := stat_set (cast_int16 str) (st_str s),
               st_mag := stat_set (cast_int16 mag) (st_mag s),
               st_agi := stat_set (cast_int16 agi) (st_agi s),
               st_con := stat_set (cast_int16 con) (st_con s)\<rparr> in
     bind_sum (row_at r 7) (\<lambda>f7.
       if f7 = Db_null then Inr s
       else bind_sum (row_int64 r 7) (\<lambda>faith.
         Inr (s\<lparr>st_optionals :=
                um_assign Stat_FAITH (stat_set (cast_int16 faith) (stat_new Stat_FAITH)) (st_optionals s)\<rparr>)))))))))"

section \<open>Loading\<close>

text \<open>What the database answers: \<open>None\<close> is an error code.\<close>

record database =
  db_prepare_ok :: bool
  db_character :: "db_row list option"
  db_format_ok :: bool
  db_stats :: "u32 \<Rightarrow> db_row list option"

definition player_data_of :: "addr \<Rightarrow> world \<Rightarrow> player_data option" where
  "player_data_of pl w =
     (case entity_at (wd_heap w) pl of
        Some e \<Rightarrow> (case en_class e of Player_class d \<Rightarrow> Some d | _ \<Rightarrow> None)
      | None \<Rightarrow> None)"

definition modify_player :: "addr \<Rightarrow> (player_data \<Rightarrow> player_data) \<Rightarrow> world \<Rightarrow> world option" where
  "modify_player pl f w =
     modify_entity pl (\<lambda>e. case en_class e of
         Player_class d \<Rightarrow> e\<lparr>en_class := Player_class (f d)\<rparr> | _ \<Rightarrow> e) w"

text \<open>The part after the first query: create the player and read its stats. \<open>bad_field_access\<close> is caught
  and gives a null pointer; other exceptions leave the function. The world (the heap and the id counters)
  is what it is at that point.\<close>

definition load_rest ::
  "vec3 \<Rightarrow> database \<Rightarrow> u32 \<times> string \<times> string \<Rightarrow> world \<Rightarrow> (addr option result \<times> world) option" where
  "load_rest shape_size db ch w =
     (case ch of (character_id, name, race) \<Rightarrow> do {
        (pl, w) \<leftarrow> player_create shape_size (entity_types_map race) w;
        w \<leftarrow> modify_player pl (\<lambda>d. d\<lparr>pl_character_id := character_id, pl_player_name := name\<rparr>) w;
        if \<not> db_format_ok db then Some (Inl System_error, w)
        else case db_stats db character_id of
          None \<Rightarrow> Some (Inr None, w)
        | Some [] \<Rightarrow> Some (Inr None, w)
        | Some (r2 # _) \<Rightarrow> do {
            d \<leftarrow> player_data_of pl w;
            case load_stats r2 (pl_stats d) of
              Inl ex \<Rightarrow> Some (if ex = Bad_field_access then Inr None else Inl ex, w)
            | Inr s \<Rightarrow> do {
                w \<leftarrow> modify_player pl (\<lambda>d. d\<lparr>pl_stats := s\<rparr>) w;
                Some (Inr (Some pl), w)
              }
          }
      })"

definition read_character :: "db_row \<Rightarrow> (u32 \<times> string \<times> string) result" where
  "read_character r1 =
     bind_sum (row_int64 r1 0) (\<lambda>i.
     bind_sum (row_string r1 1) (\<lambda>name.
     bind_sum (row_string r1 2) (\<lambda>race. Inr (word_of_int i, name, race))))"

definition player_load :: "vec3 \<Rightarrow> database \<Rightarrow> world \<Rightarrow> (addr option result \<times> world) option" where
  "player_load shape_size db w =
     (if \<not> db_prepare_ok db then Some (Inr None, w)
      else case db_character db of
        None \<Rightarrow> Some (Inr None, w)
      | Some [] \<Rightarrow> Some (Inr None, w)
      | Some (r1 # _) \<Rightarrow>
          (case read_character r1 of
             Inl ex \<Rightarrow> Some (if ex = Bad_field_access then Inr None else Inl ex, w)
           | Inr ch \<Rightarrow> load_rest shape_size db ch w))"

section \<open>What the clients see\<close>

record player_info =
  pi_type :: entity_type
  pi_name :: string
  pi_resources :: "(int \<times> int) list"
  pi_level :: int
  pi_exp :: int
  pi_str :: int
  pi_mag :: int
  pi_agi :: int
  pi_con :: int
  pi_optionals :: "(stat_type \<times> int) list"

definition write_player_info :: "entity \<Rightarrow> player_data \<Rightarrow> player_info" where
  "write_player_info e d =
     (let s = pl_stats d in
      \<lparr>pi_type = en_type e, pi_name = pl_player_name d,
       pi_resources = [(health (resource e), max_health (resource e))],
       pi_level = stat_value (st_level s), pi_exp = stat_value (st_exp s),
       pi_str = stat_value (st_str s), pi_mag = stat_value (st_mag s),
       pi_agi = stat_value (st_agi s), pi_con = stat_value (st_con s),
       pi_optionals = map (\<lambda>(_, st). (stat_kind st, stat_value st)) (st_optionals s)\<rparr>)"

lemma cast_int16_id [cast_simps]: "- (2 ^ 15) \<le> x \<Longrightarrow> x < 2 ^ 15 \<Longrightarrow> cast_int16 x = x"
  by (simp add: cast_int16_def signed_take_bit_int_eq_self)

lemma cast_int32_id [cast_simps]: "- (2 ^ 31) \<le> x \<Longrightarrow> x < 2 ^ 31 \<Longrightarrow> cast_int32 x = x"
  by (simp add: cast_int32_def signed_take_bit_int_eq_self)

lemma player_create_data:
  "\<exists>pl w' e d. player_create sz et w = Some (pl, w') \<and> entity_at (wd_heap w') pl = Some e
    \<and> en_class e = Player_class d \<and> pl_stats d = stats_new \<and> en_type e = et
    \<and> resource e = \<lparr>max_health = 100, health = 100\<rparr>"
  by (simp add: player_create_def factory_defs split_beta)

lemma modify_player_spec:
  assumes "entity_at (wd_heap w) pl = Some e" "en_class e = Player_class d"
  obtains w' where "modify_player pl f w = Some w'"
    "entity_at (wd_heap w') pl = Some (e\<lparr>en_class := Player_class (f d)\<rparr>)"
proof (rule that)
  let ?h = "set_entity pl (e\<lparr>en_class := Player_class (f d)\<rparr>) (wd_heap w)"
  show "modify_player pl f w = Some (w\<lparr>wd_heap := ?h\<rparr>)"
    using assms by (simp add: modify_player_def modify_entity_def)
  show "entity_at (wd_heap (w\<lparr>wd_heap := ?h\<rparr>)) pl = Some (e\<lparr>en_class := Player_class (f d)\<rparr>)"
    using entity_at_dom[OF assms(1)] by (simp add: heap_simps)
qed


definition sample_db :: database where
  "sample_db =
     \<lparr>db_prepare_ok = True,
      db_character = Some [[Db_int64 7, Db_string ''ann'', Db_string ''HUMAN'']],
      db_format_ok = True,
      db_stats = (\<lambda>_. Some [[Db_int64 7, Db_int64 70000, Db_int64 70000, Db_int64 1, Db_int64 2,
                            Db_int64 3, Db_int64 4, Db_null]])\<rparr>"

definition empty_world :: world where
  "empty_world = \<lparr>wd_heap = Map.empty, wd_next = 0, wd_node_ids = 0, wd_entity_ids = 0\<rparr>"


end
