(* ===== verification/Connection.thy ===== *)
theory Connection
  imports Players
begin

text \<open>
  \<open>Connection\<close> of \<open>tower/network/connection.cpp\<close>: one TCP connection, its receiving coroutine and
  the sending coroutines on its strand. A coroutine is a phase; each suspension is the end of a step
  and the outcome of the awaited operation is the argument of the next. The callbacks
  \<open>packet_received\<close> and \<open>disconnected\<close> are returned as events, which the owner handles.

  FlatBuffers is third-party: \<open>buffer_length\<close> stands for \<open>GetSizePrefixedBufferLength\<close>, and an
  outgoing buffer is the constructor of the packet that was built.
\<close>

section \<open>Outgoing packets\<close>

record player_spawn =
  ps_is_mine :: bool
  ps_entity_id :: u32
  ps_info :: player_info

record entity_spawn =
  es_type :: entity_type
  es_entity_id :: u32
  es_position :: vec3
  es_rotation :: f32
  es_health :: int
  es_max_health :: int

datatype out_packet =
    Out_HeartBeat
  | Out_Ping u64
  | Out_ClientJoinResponse u32 player_spawn
  | Out_PlayerSpawns "player_spawn list"
  | Out_PlayerSpawn player_spawn
  | Out_EntitySpawns "entity_spawn list"
  | Out_EntityDespawn u32
  | Out_EntityMovements "(u32 \<times> vec3 \<times> vec3) list"
  | Out_EntityResourceChanges "(u32 \<times> int) list"
  | Out_SkillMeleeAttack u32
  | Out_PlayerEnterZoneResponse u32

section \<open>State\<close>

type_synonym bytes = "8 word list"

text \<open>The receiving coroutine: not spawned, at the loop condition, reading the header or the body, ended,
  or ended by an exception.\<close>

datatype reader = Reader_none | Reader_loop | Reading_header | Reading_body nat | Reader_done | Reader_threw

datatype conn_event = Packet_received bytes | Disconnected

record connection =
  cn_socket_open :: bool
  cn_connected :: bool
  cn_reader :: reader
  cn_strand :: "out_packet list"
  cn_sending :: "out_packet list"

definition connection_new :: "bool \<Rightarrow> connection" where
  "connection_new socket_is_open =
     \<lparr>cn_socket_open = socket_is_open, cn_connected = socket_is_open, cn_reader = Reader_none,
      cn_strand = [], cn_sending = []\<rparr>"

section \<open>Operations\<close>

definition conn_open :: "connection \<Rightarrow> connection" where
  "conn_open c = c\<lparr>cn_reader := Reader_loop\<rparr>"

definition disconnect :: "connection \<Rightarrow> connection \<times> conn_event list" where
  "disconnect c =
     (if \<not> cn_connected c then (c, [])
      else (c\<lparr>cn_connected := False, cn_socket_open := False\<rparr>, [Disconnected]))"

text \<open>\<open>connect\<close>: the outcome of \<open>async_connect\<close> is an argument.\<close>

definition connect :: "bool \<Rightarrow> connection \<Rightarrow> bool \<times> connection" where
  "connect connect_ok c =
     (if cn_connected c then (False, c)
      else if \<not> connect_ok then (False, c)
      else (True, c\<lparr>cn_connected := True, cn_socket_open := True\<rparr>))"

text \<open>\<open>send_packet\<close> spawns a coroutine on the strand; \<open>None\<close> is a null buffer.\<close>

definition send_packet :: "out_packet option \<Rightarrow> connection \<Rightarrow> connection" where
  "send_packet buffer c =
     (case buffer of
        None \<Rightarrow> c
      | Some p \<Rightarrow> if \<not> cn_connected c then c else c\<lparr>cn_strand := cn_strand c @ [p]\<rparr>)"

text \<open>The first coroutine of the strand runs to its \<open>async_send\<close>; a pending send completes.\<close>

definition send_begin :: "connection \<Rightarrow> connection option" where
  "send_begin c =
     (case cn_strand c of
        [] \<Rightarrow> None
      | p # ps \<Rightarrow>
          Some (if \<not> cn_connected c then c\<lparr>cn_strand := ps\<rparr>
                else c\<lparr>cn_strand := ps, cn_sending := cn_sending c @ [p]\<rparr>))"

definition send_complete :: "nat \<Rightarrow> bool \<Rightarrow> connection \<Rightarrow> (connection \<times> conn_event list) option" where
  "send_complete i ec c =
     (if i < length (cn_sending c)
      then (let c1 = c\<lparr>cn_sending := take i (cn_sending c) @ drop (Suc i) (cn_sending c)\<rparr>
            in Some (if ec then disconnect c1 else (c1, [])))
      else None)"

section \<open>Receiving\<close>

definition PACKET_SIZE_PREFIX_BYTES :: size_t where
  "PACKET_SIZE_PREFIX_BYTES = 4"

definition max_vector_size :: nat where
  "max_vector_size = 2 ^ 63 - 1"

text \<open>The coroutine of \<open>open\<close> tests its loop condition and calls \<open>receive_packet\<close>.\<close>

definition reader_loop :: "connection \<Rightarrow> connection" where
  "reader_loop c = c\<lparr>cn_reader := (if cn_connected c then Reading_header else Reader_done)\<rparr>"

text \<open>\<open>disconnect(); co_return;\<close>\<close>

definition reader_give_up :: "connection \<Rightarrow> connection \<times> conn_event list" where
  "reader_give_up c = (case disconnect c of (c', evs) \<Rightarrow> (c'\<lparr>cn_reader := Reader_loop\<rparr>, evs))"

text \<open>The header read completes with an error or with the bytes read. \<open>length - 4\<close> is a subtraction of
  \<open>size_t\<close>; constructing a vector that is too long throws.\<close>

definition header_done ::
  "(bytes \<Rightarrow> u32) \<Rightarrow> bytes option \<Rightarrow> connection \<Rightarrow> connection \<times> conn_event list" where
  "header_done buffer_length r c =
     (case r of
        None \<Rightarrow> reader_give_up c
      | Some header \<Rightarrow>
          let len = buffer_length header in
          if len > 65536 \<or> len = 0 then reader_give_up c
          else
            let n = (ucast len :: size_t) - PACKET_SIZE_PREFIX_BYTES in
            if unat n > max_vector_size then (c\<lparr>cn_reader := Reader_threw\<rparr>, [])
            else (c\<lparr>cn_reader := Reading_body (unat n)\<rparr>, []))"

definition body_done :: "bytes option \<Rightarrow> connection \<Rightarrow> connection \<times> conn_event list" where
  "body_done r c =
     (case r of
        None \<Rightarrow> reader_give_up c
      | Some body \<Rightarrow> (c\<lparr>cn_reader := Reader_loop\<rparr>, [Packet_received body]))"

text \<open>One step of the receiving coroutine. A read of \<open>n\<close> bytes succeeds with exactly \<open>n\<close> bytes.\<close>

definition reader_step ::
  "(bytes \<Rightarrow> u32) \<Rightarrow> bytes option \<Rightarrow> connection \<Rightarrow> (connection \<times> conn_event list) option" where
  "reader_step buffer_length r c =
     (case cn_reader c of
        Reader_loop \<Rightarrow> Some (reader_loop c, [])
      | Reading_header \<Rightarrow>
          if r \<noteq> None \<and> length (the r) \<noteq> 4 then None else Some (header_done buffer_length r c)
      | Reading_body n \<Rightarrow>
          if r \<noteq> None \<and> length (the r) \<noteq> n then None else Some (body_done r c)
      | _ \<Rightarrow> None)"

section \<open>The callback \<open>disconnected\<close> runs once\<close>

datatype conn_action =
    A_open
  | A_disconnect
  | A_send "out_packet option"
  | A_send_begin
  | A_send_complete nat bool
  | A_reader "bytes option"

definition conn_exec ::
  "(bytes \<Rightarrow> u32) \<Rightarrow> conn_action \<Rightarrow> connection \<Rightarrow> (connection \<times> conn_event list) option" where
  "conn_exec bl act c =
     (case act of
        A_open \<Rightarrow> Some (conn_open c, [])
      | A_disconnect \<Rightarrow> Some (disconnect c)
      | A_send p \<Rightarrow> Some (send_packet p c, [])
      | A_send_begin \<Rightarrow> map_option (\<lambda>c'. (c', [])) (send_begin c)
      | A_send_complete i ec \<Rightarrow> send_complete i ec c
      | A_reader r \<Rightarrow> reader_step bl r c)"

text \<open>A run of actions that are all possible, with the events of all of them.\<close>

inductive conn_run :: "(bytes \<Rightarrow> u32) \<Rightarrow> connection \<Rightarrow> conn_action list \<Rightarrow> conn_event list \<Rightarrow> connection \<Rightarrow> bool"
  for bl where
  Nil: "conn_run bl c [] [] c"
| Cons: "conn_exec bl act c = Some (c1, evs) \<Longrightarrow> conn_run bl c1 acts evs' c' \<Longrightarrow>
    conn_run bl c (act # acts) (evs @ evs') c'"

definition received_small :: "conn_event \<Rightarrow> bool" where
  "received_small ev = (case ev of Packet_received body \<Rightarrow> length body \<le> 65532 | Disconnected \<Rightarrow> True)"

definition reader_ok :: "connection \<Rightarrow> bool" where
  "reader_ok c \<longleftrightarrow> (\<forall>n. cn_reader c = Reading_body n \<longrightarrow> n \<le> 65532)"

lemma disconnect_cases:
  obtains "\<not> cn_connected c" "disconnect c = (c, [])"
  | "cn_connected c" "disconnect c = (c\<lparr>cn_connected := False, cn_socket_open := False\<rparr>, [Disconnected])"
  by (cases "cn_connected c") (auto simp: disconnect_def)

lemma unat_ucast_up: "unat (ucast (w :: u32) :: size_t) = unat w"
proof -
  have "uint w < 2 ^ LENGTH(32)" by (rule uint_bounded)
  also have "(2 :: int) ^ LENGTH(32) < 2 ^ 64" by simp
  finally have "uint w < 2 ^ 64" .
  then have "take_bit 64 (uint w) = uint w" by (simp add: take_bit_int_eq_self)
  then have "uint (ucast w :: size_t) = uint w" by (simp add: unsigned_ucast_eq unsigned_take_bit_eq)
  then show ?thesis by (simp only: unat_eq_nat_uint)
qed

lemma body_size_bound:
  assumes "len \<le> (65536 :: u32)" "unat ((ucast len :: size_t) - 4) \<le> max_vector_size"
  shows "unat ((ucast len :: size_t) - 4) \<le> 65532"
proof (cases "4 \<le> unat len")
  case True
  note u = unat_ucast_up[of len]
  have "(4 :: size_t) \<le> ucast len" using True u by (simp add: word_le_nat_alt)
  then have "unat ((ucast len :: size_t) - 4) = unat len - 4" using u by (simp add: unat_sub)
  then show ?thesis using assms(1) by (simp add: word_le_nat_alt)
next
  case False
  then have "unat len \<in> {0, 1, 2, 3}" by auto
  then have "len \<in> {0, 1, 2, 3}"
    by (auto simp: word_unat_eq_iff unat_of_nat)
  then show ?thesis using assms(2) by (auto simp: max_vector_size_def unsigned_minus_1_eq_mask mask_eq_exp_minus_1)
qed

lemma header_done_cases:
  obtains (give_up) "header_done bl r c = reader_give_up c"
  | (threw) "header_done bl r c = (c\<lparr>cn_reader := Reader_threw\<rparr>, [])"
  | (body) n where "header_done bl r c = (c\<lparr>cn_reader := Reading_body n\<rparr>, [])" "n \<le> 65532"
proof (cases r)
  case None
  then show thesis using give_up by (simp add: header_done_def)
next
  case (Some header)
  let ?n = "(ucast (bl header) :: size_t) - PACKET_SIZE_PREFIX_BYTES"
  consider "bl header > 65536 \<or> bl header = 0"
    | "\<not> (bl header > 65536 \<or> bl header = 0)" "unat ?n > max_vector_size"
    | "\<not> (bl header > 65536 \<or> bl header = 0)" "\<not> unat ?n > max_vector_size"
    by blast
  then show thesis
  proof cases
    case 1
    then show thesis using give_up by (simp add: header_done_def Some Let_def)
  next
    case 2
    then show thesis using threw by (simp add: header_done_def Some Let_def)
  next
    case 3
    then have "unat ?n \<le> 65532"
      unfolding PACKET_SIZE_PREFIX_BYTES_def by (intro body_size_bound) auto
    with 3 show thesis using body by (simp add: header_done_def Some Let_def)
  qed
qed

text \<open>What one action does to the connected flag, and what it announces.\<close>

definition step_ok :: "connection \<Rightarrow> conn_event list \<Rightarrow> connection \<Rightarrow> bool" where
  "step_ok c evs c' \<longleftrightarrow> reader_ok c' \<and> list_all received_small evs
     \<and> (Disconnected \<notin> set evs \<and> cn_connected c' = cn_connected c
        \<or> evs = [Disconnected] \<and> cn_connected c \<and> \<not> cn_connected c')"

lemma step_ok_disconnect: "reader_ok c \<Longrightarrow> disconnect c = (c', evs) \<Longrightarrow> step_ok c evs c'"
  by (cases rule: disconnect_cases[of c]) (auto simp: step_ok_def reader_ok_def received_small_def)

lemma step_ok_give_up: "reader_give_up c = (c', evs) \<Longrightarrow> step_ok c evs c'"
  by (cases rule: disconnect_cases[of c])
    (auto simp: reader_give_up_def step_ok_def reader_ok_def received_small_def)

lemma step_ok_reader:
  assumes "reader_ok c" "reader_step bl r c = Some (c', evs)"
  shows "step_ok c evs c'"
proof (cases "cn_reader c")
  case Reader_loop
  then show ?thesis using assms
    by (auto simp: reader_step_def reader_loop_def step_ok_def reader_ok_def split: if_splits)
next
  case Reading_header
  then have "header_done bl r c = (c', evs)" using assms by (auto simp: reader_step_def split: if_splits)
  then show ?thesis
    by (cases rule: header_done_cases[of bl r c])
      (use step_ok_give_up[of c c' evs] in \<open>auto simp: step_ok_def reader_ok_def\<close>)
next
  case (Reading_body n)
  then have "body_done r c = (c', evs)" "r \<noteq> None \<longrightarrow> length (the r) = n" "n \<le> 65532"
    using assms by (auto simp: reader_step_def reader_ok_def split: if_splits)
  then show ?thesis
    using step_ok_give_up[of c c' evs]
    by (cases r) (auto simp: body_done_def step_ok_def reader_ok_def received_small_def)
qed (use assms in \<open>auto simp: reader_step_def\<close>)

lemma step_ok_exec:
  assumes "reader_ok c" "conn_exec bl act c = Some (c', evs)"
  shows "step_ok c evs c'"
proof (cases act)
  case (A_send_complete i ec)
  then obtain c1 where "c1 = c\<lparr>cn_sending := take i (cn_sending c) @ drop (Suc i) (cn_sending c)\<rparr>"
    "(if ec then disconnect c1 else (c1, [])) = (c', evs)"
    using assms(2) by (auto simp: conn_exec_def send_complete_def Let_def split: if_splits)
  moreover from this have "reader_ok c1" "cn_connected c1 = cn_connected c"
    using assms(1) by (auto simp: reader_ok_def)
  ultimately show ?thesis
    using step_ok_disconnect[of c1 c' evs] by (auto simp: step_ok_def split: if_splits)
next
  case A_disconnect
  then show ?thesis using assms step_ok_disconnect by (simp add: conn_exec_def)
next
  case (A_reader r)
  then show ?thesis using assms step_ok_reader by (simp add: conn_exec_def)
qed (use assms in \<open>auto simp: conn_exec_def conn_open_def send_packet_def send_begin_def
      step_ok_def reader_ok_def split: option.splits list.splits if_splits\<close>)

text \<open>C12. Whatever happens on a connection and in whatever order (reads, failing sends, several calls of
  \<open>disconnect\<close>), the callback \<open>disconnected\<close> runs at most once, and exactly when the connection goes
  from connected to not connected; and no packet that is handed on is larger than 65532 bytes.\<close>

theorem disconnected_once:
  assumes "conn_run bl (connection_new b) acts evs c"
  shows "count_list evs Disconnected = (if b \<and> \<not> cn_connected c then 1 else 0)
    \<and> (cn_connected c \<longrightarrow> b) \<and> list_all received_small evs"
proof -
  have "reader_ok c0 \<Longrightarrow> count_list evs Disconnected = (if cn_connected c0 \<and> \<not> cn_connected c then 1 else 0)
      \<and> (cn_connected c \<longrightarrow> cn_connected c0) \<and> list_all received_small evs"
    if "conn_run bl c0 acts evs c" for c0
    using that
  proof induction
    case (Cons act c c1 evs acts evs' c')
    have ok: "step_ok c evs c1" using step_ok_exec[OF Cons.prems] Cons.hyps(1) by blast
    then have "reader_ok c1" by (simp add: step_ok_def)
    with Cons.IH ok show ?case by (auto simp: step_ok_def)
  qed simp
  from this[OF assms] show ?thesis by (simp add: connection_new_def reader_ok_def)
qed

text \<open>Three failures at once: two calls of \<open>disconnect\<close> and a read error.\<close>

theorem disconnected_once_witness:
  "\<exists>c. conn_run (\<lambda>_. 0) (connection_new True) [A_open, A_reader None, A_disconnect, A_reader None, A_disconnect]
       [Disconnected] c \<and> \<not> cn_connected c \<and> count_list [Disconnected] Disconnected = 1"
proof -
  let ?c0 = "connection_new True"
  let ?c1 = "?c0\<lparr>cn_reader := Reader_loop\<rparr>"
  let ?c2 = "?c0\<lparr>cn_reader := Reading_header\<rparr>"
  let ?c3 = "?c2\<lparr>cn_connected := False, cn_socket_open := False\<rparr>"
  let ?c4 = "?c3\<lparr>cn_reader := Reader_loop\<rparr>"
  have "conn_run (\<lambda>_. 0) ?c0 [A_open, A_reader None, A_disconnect, A_reader None, A_disconnect]
      ([] @ [] @ [Disconnected] @ [] @ [] @ []) ?c4"
    by (rule conn_run.Cons[of _ _ _ ?c1], simp add: conn_exec_def conn_open_def,
        rule conn_run.Cons[of _ _ _ ?c2],
        simp add: conn_exec_def reader_step_def reader_loop_def connection_new_def,
        rule conn_run.Cons[of _ _ _ ?c3], simp add: conn_exec_def disconnect_def connection_new_def,
        rule conn_run.Cons[of _ _ _ ?c4],
        simp add: conn_exec_def reader_step_def header_done_def reader_give_up_def disconnect_def,
        rule conn_run.Cons[of _ _ _ ?c4], simp add: conn_exec_def disconnect_def, rule conn_run.Nil)
  then have run: "conn_run (\<lambda>_. 0) ?c0 [A_open, A_reader None, A_disconnect, A_reader None, A_disconnect]
      [Disconnected] ?c4" by simp
  from disconnected_once[OF run] run show ?thesis by auto
qed

section \<open>Framing\<close>

text \<open>Reading from a byte stream: \<open>async_read\<close> of \<open>n\<close> bytes, which fails at the end of the stream.\<close>

definition pull :: "nat \<Rightarrow> bytes \<Rightarrow> bytes option \<times> bytes" where
  "pull n s = (if length s < n then (None, []) else (Some (take n s), drop n s))"

fun feed :: "(bytes \<Rightarrow> u32) \<Rightarrow> nat \<Rightarrow> bytes \<Rightarrow> connection \<Rightarrow> conn_event list \<times> connection" where
  "feed bl 0 s c = ([], c)"
| "feed bl (Suc k) s c =
     (let (r, s') = (case cn_reader c of
          Reading_header \<Rightarrow> pull 4 s | Reading_body n \<Rightarrow> pull n s | _ \<Rightarrow> (None, s))
      in case reader_step bl r c of
           None \<Rightarrow> ([], c)
         | Some (c1, evs) \<Rightarrow> (case feed bl k s' c1 of (evs', c') \<Rightarrow> (evs @ evs', c')))"

definition frames :: "(nat \<Rightarrow> bytes) \<Rightarrow> bytes list \<Rightarrow> bytes" where
  "frames header bodies = concat (map (\<lambda>b. header (length b) @ b) bodies)"

lemma u32_of_nat_small: "n \<le> 65532 \<Longrightarrow> unat (of_nat (n + 4) :: u32) = n + 4"
  by (simp add: unat_of_nat del: of_nat_add)

lemma feed_one:
  assumes "n = length b" "n \<le> 65532" "length (hd_bytes :: bytes) = 4" "bl hd_bytes = of_nat (n + 4)"
    and "cn_connected c" "cn_reader c = Reader_loop"
  shows "feed bl (Suc (Suc (Suc k))) (hd_bytes @ b @ rest) c
    = (case feed bl k rest c of (evs, c') \<Rightarrow> (Packet_received b # evs, c'))"
proof -
  let ?len = "of_nat (n + 4) :: u32"
  note u = u32_of_nat_small[OF assms(2)]
  have len: "\<not> (?len > 65536 \<or> ?len = 0)"
    using u assms(2) by (auto simp: word_less_nat_alt word_unat_eq_iff simp del: of_nat_add)
  have "(4 :: size_t) \<le> ucast ?len" using u unat_ucast_up[of ?len] by (simp add: word_le_nat_alt)
  then have size: "unat ((ucast ?len :: size_t) - 4) = n"
    using u unat_ucast_up[of ?len] by (simp add: unat_sub)
  have "header_done bl (Some hd_bytes) (c\<lparr>cn_reader := Reading_header\<rparr>)
      = (c\<lparr>cn_reader := Reading_body n\<rparr>, [])"
    using len size assms(2,4)
    by (simp add: header_done_def Let_def PACKET_SIZE_PREFIX_BYTES_def max_vector_size_def del: of_nat_add)
  moreover have loop: "c\<lparr>cn_reader := Reader_loop\<rparr> = c" using assms(6) by (cases c) simp
  ultimately show ?thesis
    using assms(1,3,5,6)
    by (simp add: reader_step_def reader_loop_def pull_def body_done_def loop split: prod.split)
qed

lemma feed_end:
  assumes "cn_connected c" "cn_reader c = Reader_loop"
  shows "feed bl (Suc (Suc (Suc k))) [] c
    = ([Disconnected], c\<lparr>cn_connected := False, cn_socket_open := False, cn_reader := Reader_done\<rparr>)"
proof -
  have "feed bl k [] (c\<lparr>cn_connected := False, cn_socket_open := False, cn_reader := Reader_done\<rparr>)
    = ([], c\<lparr>cn_connected := False, cn_socket_open := False, cn_reader := Reader_done\<rparr>)"
    by (cases k) (simp_all add: reader_step_def)
  then show ?thesis
    using assms
    by (simp add: reader_step_def reader_loop_def pull_def header_done_def reader_give_up_def disconnect_def)
qed

text \<open>C13. Framing: a peer that sends any list of packets of at most 65532 bytes, each behind its length
  prefix, and then closes, has exactly these packets delivered, whole and in order; then the
  connection is closed, \<open>disconnected\<close> runs once and the receiving coroutine ends.\<close>

theorem frames_received:
  assumes prefix_length: "\<And>n. n \<le> 65532 \<Longrightarrow> length (header n) = 4 \<and> buffer_length (header n) = of_nat (n + 4)"
    and "\<forall>b \<in> set bodies. length b \<le> 65532"
    and "cn_connected c" and "cn_reader c = Reader_loop"
  shows "\<exists>k c'. feed buffer_length k (frames header bodies) c = (map Packet_received bodies @ [Disconnected], c')
    \<and> \<not> cn_connected c' \<and> cn_reader c' = Reader_done"
proof -
  have "feed buffer_length (3 * Suc (length bodies)) (frames header bodies) c
      = (map Packet_received bodies @ [Disconnected],
         c\<lparr>cn_connected := False, cn_socket_open := False, cn_reader := Reader_done\<rparr>)"
    using assms(2)
  proof (induction bodies)
    case Nil
    then show ?case using feed_end[OF assms(3,4), of _ 0] by (simp add: frames_def numeral_3_eq_3)
  next
    case (Cons b bs)
    have k: "3 * Suc (length (b # bs)) = Suc (Suc (Suc (3 * Suc (length bs))))" by simp
    have fr: "frames header (b # bs) = header (length b) @ b @ frames header bs" by (simp add: frames_def)
    have "feed buffer_length (3 * Suc (length (b # bs))) (frames header (b # bs)) c
        = (case feed buffer_length (3 * Suc (length bs)) (frames header bs) c of
             (evs, c') \<Rightarrow> (Packet_received b # evs, c'))"
      unfolding k fr using Cons.prems prefix_length[of "length b"] assms(3,4) by (intro feed_one) auto
    also have "\<dots> = (map Packet_received (b # bs) @ [Disconnected],
         c\<lparr>cn_connected := False, cn_socket_open := False, cn_reader := Reader_done\<rparr>)"
      using Cons by simp
    finally show ?case .
  qed
  then show ?thesis by (intro exI conjI) auto
qed

text \<open>The little-endian prefix of FlatBuffers, for the witness: two bytes are enough here.\<close>

definition le_header :: "nat \<Rightarrow> bytes" where
  "le_header n = [of_nat n, of_nat (n div 256), 0, 0]"

definition le_length :: "bytes \<Rightarrow> u32" where
  "le_length bs = of_nat (unat (bs ! 0) + 256 * unat (bs ! 1)) + 4"

theorem frames_received_witness:
  "\<exists>k c'. feed le_length k (frames le_header [[1, 2], [], [7]]) (conn_open (connection_new True))
      = (map Packet_received [[1, 2], [], [7]] @ [Disconnected], c')
    \<and> \<not> cn_connected c' \<and> cn_reader c' = Reader_done"
proof (rule frames_received)
  fix n :: nat assume n: "n \<le> 65532"
  have "unat (of_nat n :: 8 word) + 256 * unat (of_nat (n div 256) :: 8 word) = n"
    using n by (simp add: unat_of_nat)
  then show "length (le_header n) = 4 \<and> le_length (le_header n) = of_nat (n + 4)"
    by (simp add: le_header_def le_length_def)
qed (simp_all add: connection_new_def conn_open_def)

lemma minus_small: "unat (- 2 :: size_t) = 2 ^ 64 - 2" "unat (- 3 :: size_t) = 2 ^ 64 - 3"
  by simp_all

text \<open>C40. A prefix for which the computed length is 1, 2 or 3 (that is, one that wraps around) passes the
  check, and the subtraction of the prefix size wraps around in turn: the allocation throws, and the
  receiving coroutine is gone while the connection still counts as connected and nobody is told.\<close>

theorem wrapped_length_kills_reader:
  assumes "cn_reader c = Reading_header" and "length header = 4" and "buffer_length header \<in> {1, 2, 3}"
  shows "\<exists>c'. reader_step buffer_length (Some header) c = Some (c', []) \<and> cn_connected c' = cn_connected c
    \<and> (\<forall>r. reader_step buffer_length r c' = None)"
proof -
  have "unat ((ucast (buffer_length header) :: size_t) - PACKET_SIZE_PREFIX_BYTES) > max_vector_size"
    using assms(3)
    by (auto simp: PACKET_SIZE_PREFIX_BYTES_def max_vector_size_def unsigned_minus_1_eq_mask mask_eq_exp_minus_1
        minus_small)
  then show ?thesis
    using assms by (auto simp: reader_step_def header_done_def Let_def)
qed

theorem wrapped_length_kills_reader_witness:
  "\<exists>c'. reader_step (\<lambda>_. 1) (Some [253, 255, 255, 255]) (reader_loop (connection_new True)) = Some (c', [])
    \<and> cn_connected c' \<and> (\<forall>r. reader_step (\<lambda>_. 1) r c' = None)"
proof -
  have "cn_reader (reader_loop (connection_new True)) = Reading_header"
    and c: "cn_connected (reader_loop (connection_new True))"
    by (simp_all add: reader_loop_def connection_new_def)
  from wrapped_length_kills_reader[OF this(1), of "[253, 255, 255, 255]" "\<lambda>_. 1"] c
  show ?thesis by auto
qed

end
