(* ===== verification/Timer.thy ===== *)
theory Timer
  imports Prelude
begin

text \<open>
  \<open>Timer\<close> of \<open>tower/system/timer.hpp\<close>: a periodic (or one-shot) timer. \<open>start\<close> spawns a coroutine
  that waits on the timer and emits \<open>timeout\<close>; several coroutines can be alive at once when the
  timer is stopped and started again. Each is spawned, waiting until a due time, or ready to resume
  with or without an error code. As asio defines it, \<open>expires_after\<close> and \<open>cancel\<close> make every pending
  wait on the timer complete with an error, and do not reach a wait that has already expired.

  Times are in milliseconds. What the slots of the signal do is the business of the caller: resuming
  is split into the test before the emission (\<open>timer_fires\<close>) and the rest of the loop
  (\<open>timer_continue\<close>).
\<close>

datatype coroutine = Co_spawned | Co_waiting int | Co_ready bool | Co_done

record timer =
  tm_duration :: int
  tm_one_shot :: bool
  tm_running :: bool
  tm_coros :: "coroutine list"

definition timer_new :: "int \<Rightarrow> bool \<Rightarrow> timer" where
  "timer_new duration one_shot =
     \<lparr>tm_duration = duration, tm_one_shot = one_shot, tm_running = False, tm_coros = []\<rparr>"

definition cancel_waits :: "coroutine list \<Rightarrow> coroutine list" where
  "cancel_waits cs = map (\<lambda>c. case c of Co_waiting _ \<Rightarrow> Co_ready True | _ \<Rightarrow> c) cs"

definition timer_start :: "timer \<Rightarrow> timer" where
  "timer_start tm =
     (if tm_running tm then tm
      else tm\<lparr>tm_running := True, tm_coros := tm_coros tm @ [Co_spawned]\<rparr>)"

definition timer_stop :: "timer \<Rightarrow> timer" where
  "timer_stop tm =
     (if \<not> tm_running tm then tm
      else tm\<lparr>tm_running := False, tm_coros := cancel_waits (tm_coros tm)\<rparr>)"

text \<open>\<open>expires_after\<close> and the start of the wait, by coroutine \<open>i\<close>.\<close>

definition timer_wait :: "nat \<Rightarrow> int \<Rightarrow> timer \<Rightarrow> timer" where
  "timer_wait i now tm =
     tm\<lparr>tm_coros := (cancel_waits (tm_coros tm))[i := Co_waiting (now + tm_duration tm)]\<rparr>"

definition timer_begin :: "nat \<Rightarrow> int \<Rightarrow> timer \<Rightarrow> timer option" where
  "timer_begin i now tm =
     (if i < length (tm_coros tm) \<and> tm_coros tm ! i = Co_spawned
      then Some (timer_wait i now tm) else None)"

definition timer_expire :: "nat \<Rightarrow> int \<Rightarrow> timer \<Rightarrow> timer option" where
  "timer_expire i now tm =
     (if i < length (tm_coros tm)
      then (case tm_coros tm ! i of
              Co_waiting due \<Rightarrow>
                if due \<le> now then Some (tm\<lparr>tm_coros := (tm_coros tm)[i := Co_ready False]\<rparr>) else None
            | _ \<Rightarrow> None)
      else None)"

text \<open>A ready coroutine resumes: does it go on to emit?\<close>

definition timer_fires :: "nat \<Rightarrow> timer \<Rightarrow> bool option" where
  "timer_fires i tm =
     (if i < length (tm_coros tm)
      then (case tm_coros tm ! i of Co_ready ec \<Rightarrow> Some (\<not> (ec \<or> \<not> tm_running tm)) | _ \<Rightarrow> None)
      else None)"

definition timer_return :: "nat \<Rightarrow> timer \<Rightarrow> timer" where
  "timer_return i tm = tm\<lparr>tm_coros := (tm_coros tm)[i := Co_done]\<rparr>"

text \<open>After the slots have run: the condition of the \<open>do\<close> loop, and its next round.\<close>

definition timer_continue :: "nat \<Rightarrow> int \<Rightarrow> timer \<Rightarrow> timer" where
  "timer_continue i now tm =
     (if \<not> tm_one_shot tm \<and> tm_running tm then timer_wait i now tm else timer_return i tm)"

section \<open>All behaviours\<close>

datatype timer_event =
    T_start
  | T_stop
  | T_begin nat int
  | T_expire nat int
  | T_resume nat int "timer_event list"

text \<open>An emission runs slots, which may themselves start or stop the timer.\<close>

primrec slot_action :: "timer_event \<Rightarrow> timer \<Rightarrow> timer" where
  "slot_action T_start tm = timer_start tm"
| "slot_action T_stop tm = timer_stop tm"
| "slot_action (T_begin _ _) tm = tm"
| "slot_action (T_expire _ _) tm = tm"
| "slot_action (T_resume _ _ _) tm = tm"

text \<open>The state after an event, and whether \<open>timeout\<close> was emitted.\<close>

fun timer_exec :: "timer_event \<Rightarrow> timer \<Rightarrow> (timer \<times> bool) option" where
  "timer_exec T_start tm = Some (timer_start tm, False)"
| "timer_exec T_stop tm = Some (timer_stop tm, False)"
| "timer_exec (T_begin i now) tm = map_option (\<lambda>t. (t, False)) (timer_begin i now tm)"
| "timer_exec (T_expire i now) tm = map_option (\<lambda>t. (t, False)) (timer_expire i now tm)"
| "timer_exec (T_resume i now slots) tm =
     (case timer_fires i tm of
        None \<Rightarrow> None
      | Some False \<Rightarrow> Some (timer_return i tm, False)
      | Some True \<Rightarrow> Some (timer_continue i now (fold slot_action slots tm), True))"

inductive timer_reach :: "int \<Rightarrow> bool \<Rightarrow> timer \<Rightarrow> bool" for d os where
  new: "timer_reach d os (timer_new d os)"
| event: "timer_reach d os tm \<Longrightarrow> timer_exec ev tm = Some (tm', fired) \<Longrightarrow> timer_reach d os tm'"

definition waiting :: "coroutine \<Rightarrow> bool" where
  "waiting c = (case c of Co_waiting _ \<Rightarrow> True | _ \<Rightarrow> False)"

definition waits :: "coroutine list \<Rightarrow> nat" where
  "waits cs = length (filter waiting cs)"

lemma waits_cancel [simp]: "waits (cancel_waits cs) = 0"
  by (induction cs) (auto simp: waits_def cancel_waits_def waiting_def split: coroutine.split)

lemma length_cancel [simp]: "length (cancel_waits cs) = length cs"
  by (simp add: cancel_waits_def)

lemma waits_append [simp]: "waits (xs @ ys) = waits xs + waits ys"
  by (simp add: waits_def)

lemma waits_update: "waits (cs[i := c]) \<le> waits cs + (if waiting c then 1 else 0)"
  by (induction cs arbitrary: i) (auto simp: waits_def split: nat.split)

lemma waits_wait: "waits (tm_coros (timer_wait i now tm)) \<le> 1"
  using waits_update[of "cancel_waits (tm_coros tm)" i "Co_waiting (now + tm_duration tm)"]
  by (simp add: timer_wait_def split: if_splits)

lemma waits_start [simp]: "waits (tm_coros (timer_start tm)) = waits (tm_coros tm)"
  by (simp add: timer_start_def waits_def waiting_def)

lemma waits_stop: "waits (tm_coros (timer_stop tm)) \<le> waits (tm_coros tm)"
  by (simp add: timer_stop_def)

lemma waits_slot:
  assumes "waits (tm_coros tm) \<le> 1"
  shows "waits (tm_coros (fold slot_action slots tm)) \<le> 1"
  using assms
proof (induction slots arbitrary: tm)
  case (Cons ev evs)
  have "waits (tm_coros (slot_action ev tm)) \<le> 1"
    using Cons.prems waits_stop[of tm] by (cases ev) simp_all
  then show ?case using Cons.IH by simp
qed simp

lemma waits_exec:
  assumes "waits (tm_coros tm) \<le> 1" "timer_exec ev tm = Some (tm', fired)"
  shows "waits (tm_coros tm') \<le> 1"
proof (cases ev)
  case (T_expire i now)
  then show ?thesis
    using assms waits_update[of "tm_coros tm" i "Co_ready False"]
    by (auto simp: timer_expire_def waiting_def split: if_splits coroutine.splits)
next
  case (T_resume i now slots)
  then obtain f where f: "timer_fires i tm = Some f" using assms(2) by (cases "timer_fires i tm") auto
  have ret: "waits (tm_coros (timer_return i t)) \<le> 1" if "waits (tm_coros t) \<le> 1" for t
    using that waits_update[of "tm_coros t" i Co_done] by (simp add: timer_return_def waiting_def)
  show ?thesis
    using assms T_resume f ret waits_slot[OF assms(1)] waits_wait
    by (cases f) (auto simp: timer_continue_def split: if_splits)
next
  case T_stop
  then show ?thesis using assms waits_stop[of tm] by auto
qed (use assms waits_wait in \<open>auto simp: timer_begin_def split: if_splits\<close>)

text \<open>C36. However a timer is started, stopped and restarted, inside its own slots included: at most one of
  its coroutines is ever waiting; a wait that a coroutine begins can expire no earlier than the full
  duration later; and while the timer is stopped no resumed coroutine emits \<open>timeout\<close>.\<close>

theorem timer_safety:
  assumes "timer_reach d os tm"
  shows "waits (tm_coros tm) \<le> 1
    \<and> (\<not> tm_running tm \<longrightarrow> (\<forall>i now slots tm' fired.
         timer_exec (T_resume i now slots) tm = Some (tm', fired) \<longrightarrow> \<not> fired))
    \<and> (\<forall>i now now' tm' tm''. timer_begin i now tm = Some tm' \<and> timer_expire i now' tm' = Some tm''
         \<longrightarrow> now + d \<le> now')"
proof -
  have dur: "tm_duration tm = d \<and> waits (tm_coros tm) \<le> 1"
    using assms
  proof induction
    case new
    then show ?case by (simp add: timer_new_def waits_def)
  next
    case (event tm ev tm' fired)
    have slots: "tm_duration (fold slot_action evs t) = tm_duration t" for evs t
    proof (induction evs arbitrary: t)
      case (Cons e evs)
      then show ?case by (cases e) (simp_all add: timer_start_def timer_stop_def)
    qed simp
    have "tm_duration tm' = tm_duration tm"
      using event.hyps(2)
      by (cases ev) (auto simp: slots timer_start_def timer_stop_def timer_begin_def timer_expire_def
          timer_wait_def timer_continue_def timer_return_def
          split: if_splits coroutine.splits option.splits bool.splits)
    with event waits_exec show ?case by auto
  qed
  then show ?thesis
    by (auto simp: timer_fires_def timer_begin_def timer_expire_def timer_wait_def
        split: if_splits coroutine.splits option.splits bool.splits)
qed

definition restarted_timer :: timer where
  "restarted_timer = timer_start (timer_stop (timer_wait 0 0 (timer_start (timer_new 5 False))))"

lemma restarted_reach: "timer_reach 5 False restarted_timer"
proof -
  note n = timer_reach.new[of 5 False]
  note e = timer_reach.event
  have "timer_reach 5 False (timer_start (timer_new 5 False))" by (rule e[OF n, of T_start _ False]) simp
  then have "timer_reach 5 False (timer_wait 0 0 (timer_start (timer_new 5 False)))"
    by (rule e[of _ _ _ "T_begin 0 0" _ False]) (simp add: timer_begin_def timer_start_def timer_new_def)
  then have "timer_reach 5 False (timer_stop (timer_wait 0 0 (timer_start (timer_new 5 False))))"
    by (rule e[of _ _ _ T_stop _ False]) simp
  then show ?thesis unfolding restarted_timer_def by (rule e[of _ _ _ T_start _ False]) simp
qed

theorem timer_safety_witness:
  "waits (tm_coros restarted_timer) \<le> 1 \<and> length (tm_coros restarted_timer) = 2"
  using timer_safety[OF restarted_reach]
  by (simp add: restarted_timer_def timer_start_def timer_stop_def timer_wait_def timer_new_def)

text \<open>A one-shot timer cannot be used twice: when its only coroutine has emitted and ended, the timer
  still counts as running, so \<open>start\<close> does nothing (unless a slot or the owner stops it first).\<close>

theorem one_shot_not_restartable:
  assumes "tm_one_shot tm" and "timer_exec (T_resume i now []) tm = Some (tm', True)"
  shows "tm_coros tm' ! i = Co_done \<and> timer_start tm' = tm'"
  using assms
  by (auto simp: timer_fires_def timer_continue_def timer_return_def timer_start_def
      split: option.splits if_splits coroutine.splits bool.splits)

theorem one_shot_not_restartable_witness:
  "\<exists>tm'. timer_exec (T_resume 0 9 []) \<lparr>tm_duration = 5, tm_one_shot = True, tm_running = True,
       tm_coros = [Co_ready False]\<rparr> = Some (tm', True) \<and> timer_start tm' = tm'"
proof -
  let ?tm = "\<lparr>tm_duration = 5, tm_one_shot = True, tm_running = True, tm_coros = [Co_ready False]\<rparr>"
  have "timer_exec (T_resume 0 9 []) ?tm = Some (timer_return 0 ?tm, True)"
    by (simp add: timer_fires_def timer_continue_def)
  from one_shot_not_restartable[OF _ this] this show ?thesis by auto
qed

end
