(* ===== verification/Client.thy ===== *)
theory Client
  imports Connection Timer
begin

text \<open>
  \<open>Client\<close> and its \<open>HeartBeater\<close> of \<open>tower/network/client.cpp\<close>. A client owns a connection and a
  heart beater with a periodic timer. The clock is an argument (milliseconds); the connection's
  events come back with the new client, and the callback \<open>disconnected\<close> of the server is the
  event \<open>Disconnected\<close>.
\<close>

section \<open>State\<close>

record heart_beater =
  hb_last_beat :: int
  hb_dead_beats :: u32
  hb_timer :: timer
  hb_on_beat :: bool

record client =
  client_id :: u32
  is_authenticated :: bool
  cl_player :: "addr option"
  cl_running :: bool
  cl_connection :: connection
  cl_heart_beater :: heart_beater

definition MAX_DEAD_BEATS :: u32 where
  "MAX_DEAD_BEATS = 3"

definition BEAT_INTERVAL :: int where
  "BEAT_INTERVAL = 5000"

definition heart_beater_new :: heart_beater where
  "heart_beater_new =
     \<lparr>hb_last_beat = 0, hb_dead_beats = 0, hb_timer = timer_new BEAT_INTERVAL False, hb_on_beat = True\<rparr>"

definition client_new :: "u32 \<Rightarrow> bool \<Rightarrow> client" where
  "client_new i socket_is_open =
     \<lparr>client_id = i, is_authenticated = False, cl_player = None, cl_running = False,
      cl_connection = connection_new socket_is_open, cl_heart_beater = heart_beater_new\<rparr>"

section \<open>Operations\<close>

definition client_send :: "out_packet \<Rightarrow> client \<Rightarrow> client" where
  "client_send p c = c\<lparr>cl_connection := send_packet (Some p) (cl_connection c)\<rparr>"

definition hb_start :: "int \<Rightarrow> heart_beater \<Rightarrow> heart_beater" where
  "hb_start now hb = hb\<lparr>hb_last_beat := now, hb_timer := timer_start (hb_timer hb)\<rparr>"

definition hb_stop :: "heart_beater \<Rightarrow> heart_beater" where
  "hb_stop hb = hb\<lparr>hb_on_beat := False, hb_timer := timer_stop (hb_timer hb)\<rparr>"

definition hb_beat :: "int \<Rightarrow> heart_beater \<Rightarrow> heart_beater" where
  "hb_beat now hb = hb\<lparr>hb_last_beat := now, hb_dead_beats := 0\<rparr>"

definition client_start :: "int \<Rightarrow> client \<Rightarrow> client" where
  "client_start now c =
     (if cl_running c then c
      else c\<lparr>cl_running := True, cl_connection := conn_open (cl_connection c),
             cl_heart_beater := hb_start now (cl_heart_beater c)\<rparr>)"

definition client_stop :: "client \<Rightarrow> client \<times> conn_event list" where
  "client_stop c =
     (if \<not> cl_running c then (c, [])
      else (case disconnect (cl_connection c) of (conn, evs) \<Rightarrow>
        (c\<lparr>cl_running := False, cl_heart_beater := hb_stop (cl_heart_beater c),
           cl_connection := conn\<rparr>, evs)))"

text \<open>The slot that the constructor connects to the timer's \<open>timeout\<close>.\<close>

definition on_beat :: "int \<Rightarrow> client \<Rightarrow> client \<times> conn_event list" where
  "on_beat now c =
     (let hb = cl_heart_beater c in
      if hb_dead_beats hb \<ge> MAX_DEAD_BEATS then
        client_stop (c\<lparr>cl_heart_beater := hb\<lparr>hb_timer := timer_stop (hb_timer hb)\<rparr>\<rparr>)
      else if now \<le> hb_last_beat hb + BEAT_INTERVAL then (c, [])
      else (client_send Out_HeartBeat (c\<lparr>cl_heart_beater := hb\<lparr>hb_dead_beats := hb_dead_beats hb + 1\<rparr>\<rparr>), []))"

definition client_timeout :: "int \<Rightarrow> client \<Rightarrow> client \<times> conn_event list" where
  "client_timeout now c = (if hb_on_beat (cl_heart_beater c) then on_beat now c else (c, []))"

text \<open>The timer's coroutine \<open>i\<close> resumes at \<open>now\<close>.\<close>

definition client_timer_resume :: "nat \<Rightarrow> int \<Rightarrow> client \<Rightarrow> (client \<times> conn_event list) option" where
  "client_timer_resume i now c =
     (case timer_fires i (hb_timer (cl_heart_beater c)) of
        None \<Rightarrow> None
      | Some fires \<Rightarrow>
          (let (c1, evs) = (if fires then client_timeout now c else (c, [])); hb = cl_heart_beater c1;
               tm = (if fires then timer_continue i now (hb_timer hb) else timer_return i (hb_timer hb))
           in Some (c1\<lparr>cl_heart_beater := hb\<lparr>hb_timer := tm\<rparr>\<rparr>, evs)))"

text \<open>The connection's callback for a received packet, before it calls the server's.\<close>

definition client_packet_received :: "int \<Rightarrow> client \<Rightarrow> client" where
  "client_packet_received now c =
     (if is_authenticated c then c\<lparr>cl_heart_beater := hb_beat now (cl_heart_beater c)\<rparr> else c)"

section \<open>Stopping\<close>

definition client_stopped :: "client \<Rightarrow> bool" where
  "client_stopped c \<longleftrightarrow> \<not> cl_running c \<and> \<not> cn_connected (cl_connection c)
     \<and> \<not> hb_on_beat (cl_heart_beater c) \<and> \<not> tm_running (hb_timer (cl_heart_beater c))"

text \<open>Stopping a running client closes everything it owns, in one call: connection, heart-beat slot and
  timer; the server is told at most once, exactly if the connection was still up; and from then on
  \<open>stop\<close> changes nothing, a timeout of the timer does nothing, and nothing more is sent.\<close>

theorem client_stop_final:
  assumes "cl_running c" and "client_stop c = (c', evs)"
  shows "client_stopped c' \<and> evs = (if cn_connected (cl_connection c) then [Disconnected] else [])
    \<and> client_stop c' = (c', []) \<and> client_timeout now c' = (c', []) \<and> client_send p c' = c'"
  using assms
  by (auto simp: client_stop_def disconnect_def client_stopped_def hb_stop_def timer_stop_def
      client_timeout_def client_send_def send_packet_def split: if_splits)

theorem client_stop_final_witness:
  "\<exists>c' evs. client_stop (client_start 0 (client_new 1 True)) = (c', evs) \<and> client_stopped c'
     \<and> evs = [Disconnected] \<and> client_stop c' = (c', [])"
proof -
  let ?c = "client_start 0 (client_new 1 True)"
  have r: "cl_running ?c" "cn_connected (cl_connection ?c)"
    by (simp_all add: client_start_def client_new_def conn_open_def connection_new_def)
  obtain c' evs where s: "client_stop ?c = (c', evs)" by fastforce
  from client_stop_final[OF r(1) s] r(2) s show ?thesis by auto
qed

section \<open>Heart beats\<close>

datatype hb_event = Beat int | Timeout int

primrec hb_exec :: "hb_event \<Rightarrow> client \<Rightarrow> client" where
  "hb_exec (Beat t) c = c\<lparr>cl_heart_beater := hb_beat t (cl_heart_beater c)\<rparr>"
| "hb_exec (Timeout t) c = fst (client_timeout t c)"

definition hb_alive :: "client \<Rightarrow> bool" where
  "hb_alive c \<longleftrightarrow> cl_running c \<and> hb_on_beat (cl_heart_beater c)"

definition dead_beats :: "client \<Rightarrow> nat" where
  "dead_beats c = unat (hb_dead_beats (cl_heart_beater c))"

definition last_beat :: "client \<Rightarrow> int" where
  "last_beat c = hb_last_beat (cl_heart_beater c)"

lemma timeout_step:
  assumes "hb_alive c"
  shows "3 \<le> dead_beats c \<Longrightarrow> \<not> cl_running (hb_exec (Timeout t) c) \<and> \<not> hb_on_beat (cl_heart_beater (hb_exec (Timeout t) c))"
    and "dead_beats c < 3 \<Longrightarrow> hb_alive (hb_exec (Timeout t) c) \<and> last_beat (hb_exec (Timeout t) c) = last_beat c
      \<and> dead_beats (hb_exec (Timeout t) c) = dead_beats c + (if last_beat c + 5000 < t then 1 else 0)"
proof -
  have three: "(hb_dead_beats (cl_heart_beater c) \<ge> MAX_DEAD_BEATS) = (3 \<le> dead_beats c)"
    by (simp add: MAX_DEAD_BEATS_def dead_beats_def word_le_nat_alt)
  show "3 \<le> dead_beats c \<Longrightarrow> \<not> cl_running (hb_exec (Timeout t) c) \<and> \<not> hb_on_beat (cl_heart_beater (hb_exec (Timeout t) c))"
    using assms three
    by (auto simp: hb_alive_def client_timeout_def on_beat_def client_stop_def disconnect_def hb_stop_def Let_def)
  assume "dead_beats c < 3"
  moreover from this have "unat (hb_dead_beats (cl_heart_beater c) + 1) = dead_beats c + 1"
    unfolding dead_beats_def
    using unat_add_lem[of "hb_dead_beats (cl_heart_beater c)" 1] by simp
  ultimately show "hb_alive (hb_exec (Timeout t) c) \<and> last_beat (hb_exec (Timeout t) c) = last_beat c
      \<and> dead_beats (hb_exec (Timeout t) c) = dead_beats c + (if last_beat c + 5000 < t then 1 else 0)"
    using assms three
    by (auto simp: hb_alive_def client_timeout_def on_beat_def client_send_def dead_beats_def last_beat_def
        BEAT_INTERVAL_def Let_def)
qed

lemma stopped_stays:
  "\<not> cl_running c \<Longrightarrow> \<not> hb_on_beat (cl_heart_beater c) \<Longrightarrow>
     \<not> cl_running (fold hb_exec evs c) \<and> \<not> hb_on_beat (cl_heart_beater (fold hb_exec evs c))"
proof (induction evs arbitrary: c)
  case (Cons ev evs)
  then show ?case by (cases ev) (auto simp: hb_beat_def client_timeout_def)
qed simp

text \<open>C34. A client that falls silent is stopped: whatever the state of its dead-beat counter, the fourth
  timeout that comes more than five seconds after its last beat finds it stopped or stops it.\<close>

theorem silent_client_stopped:
  assumes "hb_alive c" and "4 \<le> length (filter (\<lambda>t. last_beat c + 5000 < t) ts)"
  shows "\<not> cl_running (fold hb_exec (map Timeout ts) c)"
proof -
  have "\<not> cl_running (fold hb_exec (map Timeout ts) c)"
    if "hb_alive c" "last_beat c = lb"
      "dead_beats c < 3 \<longrightarrow> 4 \<le> dead_beats c + length (filter (\<lambda>t. lb + 5000 < t) ts)"
      "3 \<le> dead_beats c \<longrightarrow> ts \<noteq> []" for c lb
    using that
  proof (induction ts arbitrary: c)
    case (Cons t ts)
    show ?case
    proof (cases "3 \<le> dead_beats c")
      case True
      then show ?thesis using timeout_step(1)[OF Cons.prems(1) True] stopped_stays by simp
    next
      case False
      then have step: "hb_alive (hb_exec (Timeout t) c)" "last_beat (hb_exec (Timeout t) c) = lb"
        "dead_beats (hb_exec (Timeout t) c) = dead_beats c + (if lb + 5000 < t then 1 else 0)"
        using timeout_step(2)[OF Cons.prems(1), of t] Cons.prems(2) by auto
      have "\<not> cl_running (fold hb_exec (map Timeout ts) (hb_exec (Timeout t) c))"
        using Cons.prems(3) False
        by (intro Cons.IH[OF step(1,2)]) (auto simp: step(3) simp del: hb_exec.simps split: if_splits)
      then show ?thesis by simp
    qed
  qed auto
  from this[OF assms(1) refl] assms(2) show ?thesis by fastforce
qed

text \<open>Timeouts are at least five seconds apart (the timer guarantees it), and none comes more than twenty
  seconds after the last beat.\<close>

fun paced :: "int \<Rightarrow> int \<Rightarrow> hb_event list \<Rightarrow> bool" where
  "paced lt lb [] \<longleftrightarrow> True"
| "paced lt lb (Beat t # evs) \<longleftrightarrow> paced lt t evs"
| "paced lt lb (Timeout t # evs) \<longleftrightarrow> lt + 5000 \<le> t \<and> t \<le> lb + 20000 \<and> paced t lb evs"

text \<open>C35. A client that beats often enough is kept: as long as its beats are such that no timeout comes
  more than twenty seconds after the last one, the heart beater never stops it.\<close>

theorem beating_client_kept:
  assumes "hb_alive c" and "dead_beats c = 0" and "paced lt (last_beat c) evs"
  shows "cl_running (fold hb_exec evs c)"
proof -
  have "hb_alive (fold hb_exec evs c)"
    if "hb_alive c" "dead_beats c = 0 \<or> last_beat c + 5000 * int (dead_beats c) < lt" "dead_beats c \<le> 3"
      "paced lt (last_beat c) evs" for c lt
    using that
  proof (induction evs arbitrary: c lt)
    case (Cons ev evs)
    show ?case
    proof (cases ev)
      case (Beat t)
      then have "hb_alive (hb_exec ev c)" "dead_beats (hb_exec ev c) = 0" "last_beat (hb_exec ev c) = t"
        using Cons.prems(1) by (simp_all add: hb_alive_def dead_beats_def last_beat_def hb_beat_def)
      with Cons Beat show ?thesis by simp
    next
      case (Timeout t)
      have k: "dead_beats c < 3"
      proof (rule ccontr)
        assume "\<not> dead_beats c < 3"
        then have "dead_beats c = 3" using Cons.prems(3) by simp
        with Cons.prems(2,4) Timeout show False by simp
      qed
      note step = timeout_step(2)[OF Cons.prems(1) k, of t]
      have "dead_beats (hb_exec ev c) = 0 \<or> last_beat (hb_exec ev c) + 5000 * int (dead_beats (hb_exec ev c)) < t"
        using Cons.prems(2,4) Timeout step by (auto split: if_splits)
      moreover have "dead_beats (hb_exec ev c) \<le> 3" using step k Timeout by auto
      ultimately show ?thesis
        using Cons.IH[of "hb_exec ev c" t] Cons.prems(4) Timeout step by simp
    qed
  qed simp
  from this[of c lt] assms show ?thesis by (simp add: hb_alive_def)
qed

definition beating_client :: client where
  "beating_client = client_start 0 (client_new 1 True)"

lemma beating_client_alive: "hb_alive beating_client" "dead_beats beating_client = 0" "last_beat beating_client = 0"
  by (simp_all add: beating_client_def hb_alive_def dead_beats_def last_beat_def client_start_def
      client_new_def heart_beater_new_def hb_start_def)

theorem silent_client_stopped_witness:
  "\<not> cl_running (fold hb_exec (map Timeout [5000, 10000, 15000, 20000, 25000]) beating_client)"
  by (rule silent_client_stopped[OF beating_client_alive(1)]) (simp add: beating_client_alive)

theorem beating_client_kept_witness:
  "cl_running (fold hb_exec [Timeout 5000, Timeout 10000, Timeout 15000, Beat 19000, Timeout 20000] beating_client)"
  by (rule beating_client_kept[OF beating_client_alive(1,2), of 0]) (simp add: beating_client_alive)

end
