(* ===== verification/Zone_State.thy ===== *)
theory Zone_State
  imports Subworld_Correct Client
begin

text \<open>
  The state of \<open>Zone\<close> (\<open>tower/network/zone.hpp\<close>), \<open>start\<close>, \<open>stop\<close> and \<open>broadcast\<close>. \<open>Client\<close> objects are
  shared by the server, the zones and the queued jobs; they live in a store of addresses. \<open>_strand\<close> is
  the list of the handlers that were posted to it, first in first out: asio runs them one at a time, in
  this order. Sending to a client only puts the packet on the strand of the client's connection.
\<close>

section \<open>State\<close>

type_synonym clients = "addr \<rightharpoonup> client"

text \<open>What the clients send. A packet that passes the verifier may still have no body: the accessor of
  the union then gives a null pointer, and so does the accessor of an absent struct or string.\<close>

record join_request =
  jr_username :: "string option"
  jr_character_name :: "string option"
  jr_token :: "string option"

datatype in_packet =
    In_ClientJoinRequest "join_request option"
  | In_PlayerEnterZoneRequest "u32 option option"
  | In_HeartBeat
  | In_Ping "u64 option"
  | In_PlayerMovement "(f32 \<times> f32) option"
  | In_SkillMeleeAttack
  | In_other

datatype zone_job =
    Job_tick
  | Job_add addr
  | Job_remove addr
  | Job_packet addr in_packet

record zone =
  zone_id :: u32
  zn_running :: bool
  zn_last_tick :: int
  zn_clients :: "(u32, addr) umap"
  zn_subworld :: subworld
  zn_strand :: "zone_job list"

definition TICK_INTERVAL :: int where
  "TICK_INTERVAL = 100"

definition zone_post :: "zone_job \<Rightarrow> zone \<Rightarrow> zone" where
  "zone_post j z = z\<lparr>zn_strand := zn_strand z @ [j]\<rparr>"

definition zone_start :: "zone \<Rightarrow> zone" where
  "zone_start z = (if zn_running z then z else zone_post Job_tick (z\<lparr>zn_running := True\<rparr>))"

definition zone_stop :: "zone \<Rightarrow> zone" where
  "zone_stop z = (if \<not> zn_running z then z else z\<lparr>zn_running := False\<rparr>)"

definition handle_packet_deferred :: "addr \<Rightarrow> in_packet \<Rightarrow> zone \<Rightarrow> zone" where
  "handle_packet_deferred c p z = zone_post (Job_packet c p) z"

definition zone_add_client_deferred :: "addr \<Rightarrow> zone \<Rightarrow> zone" where
  "zone_add_client_deferred c z = zone_post (Job_add c) z"

definition zone_remove_client_deferred :: "addr \<Rightarrow> zone \<Rightarrow> zone" where
  "zone_remove_client_deferred c z = zone_post (Job_remove c) z"

section \<open>create\<close>

text \<open>The zone file: its size cannot be read, it is shorter than the root offset that \<open>GetZoneData\<close> reads
  before anything is verified, the verifier rejects it, or it holds the dimensions and the flags of the
  cells (no vector at all is a null pointer). The dimensions are 32-bit words, and so is their product.\<close>

record zone_data =
  zd_size_x :: u32
  zd_size_z :: u32
  zd_grid :: "bool list option"

datatype zone_file = File_unreadable | File_truncated | File_rejected | File_verified zone_data

definition fill_grid :: "bool list \<Rightarrow> bool grid \<Rightarrow> bool grid option" where
  "fill_grid flags g = fold_opt (\<lambda>(i, b) g. grid_assign_i g (of_nat i) b) (enumerate 0 flags) g"

definition zone_create :: "u32 \<Rightarrow> zone_file \<Rightarrow> zone option option" where
  "zone_create i file =
     (case file of
        File_unreadable \<Rightarrow> Some None
      | File_truncated \<Rightarrow> None
      | File_rejected \<Rightarrow> Some None
      | File_verified d \<Rightarrow>
          (case zd_grid d of
             None \<Rightarrow> None
           | Some flags \<Rightarrow>
               if unat (zd_size_x d * zd_size_z d) \<noteq> length flags then Some None
               else map_option (\<lambda>g. Some \<lparr>zone_id = i, zn_running = False, zn_last_tick = 0, zn_clients = [],
                                         zn_subworld = subworld_new g, zn_strand = []\<rparr>)
                      (fill_grid flags (grid_sized False (ucast (zd_size_z d)) (ucast (zd_size_x d))))))"

lemma fill_grid_from:
  assumes "length (grid_data g) = n + length bs" "length (grid_data g) < 2 ^ 64"
  shows "fold_opt (\<lambda>(i, b) g. grid_assign_i g (of_nat i) b) (enumerate n bs) g
    = Some (g\<lparr>grid_data := take n (grid_data g) @ bs\<rparr>)"
  using assms
proof (induction bs arbitrary: n g)
  case Nil
  then show ?case by (cases g) simp
next
  case (Cons b bs)
  let ?g = "g\<lparr>grid_data := (grid_data g)[n := b]\<rparr>"
  have n: "unat (of_nat n :: size_t) = n" using Cons.prems by (simp add: unsigned_of_nat take_bit_nat_eq_self)
  have "take (Suc n) ((grid_data g)[n := b]) = take n (grid_data g) @ [b]"
    using Cons.prems by (simp add: take_Suc_conv_app_nth)
  with Cons.IH[of ?g "Suc n"] Cons.prems n show ?case by (simp add: grid_assign_i_def)
qed

lemma fill_grid_eq:
  assumes "length (grid_data g) = length bs" "length bs < 2 ^ 64"
  shows "fill_grid bs g = Some (g\<lparr>grid_data := bs\<rparr>)"
  using fill_grid_from[of g 0 bs] assms by (simp add: fill_grid_def)

section \<open>Sending\<close>

definition send_to :: "addr \<Rightarrow> out_packet \<Rightarrow> clients \<Rightarrow> clients option" where
  "send_to c p cs = map_option (\<lambda>cl. cs(c \<mapsto> client_send p cl)) (cs c)"

definition broadcast :: "out_packet \<Rightarrow> u32 \<Rightarrow> zone \<Rightarrow> clients \<Rightarrow> clients option" where
  "broadcast p except z cs =
     fold_opt (\<lambda>(i, c) cs. if i = except then Some cs else send_to c p cs) (zn_clients z) cs"

lemma send_to_dom: "send_to c p cs = Some cs' \<Longrightarrow> dom cs' = dom cs"
  by (auto simp: send_to_def split: if_splits)

text \<open>Who gets a broadcast: the clients of the zone but the one with the id \<open>except\<close>, each once.\<close>

definition receives :: "u32 \<Rightarrow> (u32, addr) umap \<Rightarrow> addr \<Rightarrow> bool" where
  "receives except m c \<longleftrightarrow> (\<exists>i. (i, c) \<in> set m \<and> i \<noteq> except)"

lemma broadcast_fold:
  assumes "distinct (map snd m)"
    and "fold_opt (\<lambda>(i, c) cs. if i = except then Some cs else send_to c p cs) m cs = Some cs'"
  shows "cs' = (\<lambda>c. if receives except m c then map_option (client_send p) (cs c) else cs c)"
  using assms
proof (induction m arbitrary: cs)
  case Nil
  then show ?case by (simp add: receives_def)
next
  case (Cons x m)
  obtain i c where x: "x = (i, c)" by (cases x)
  obtain cs1 where cs1: "(if i = except then Some cs else send_to c p cs) = Some cs1"
    and rest: "fold_opt (\<lambda>(i, c) cs. if i = except then Some cs else send_to c p cs) m cs1 = Some cs'"
    using Cons.prems(2) by (auto simp: x split: option.splits)
  have "c \<notin> snd ` set m" and d: "distinct (map snd m)" using Cons.prems(1) by (auto simp: x)
  then have c: "\<not> receives except m c" by (force simp: receives_def)
  have r: "receives except (x # m) a \<longleftrightarrow> (a = c \<and> i \<noteq> except) \<or> receives except m a" for a
    by (auto simp: receives_def x)
  from cs1 c show ?case
    unfolding Cons.IH[OF d rest] r by (auto simp: send_to_def fun_eq_iff split: if_splits)
qed

lemma broadcast_result:
  assumes "broadcast p except z cs = Some cs'" "distinct (map snd (zn_clients z))"
  shows "cs' = (\<lambda>c. if receives except (zn_clients z) c then map_option (client_send p) (cs c) else cs c)"
  using broadcast_fold assms by (simp add: broadcast_def)

lemma broadcast_dom:
  assumes "broadcast p except z cs = Some cs'"
  shows "dom cs' = dom cs"
proof (rule fold_opt_invariant[OF assms[unfolded broadcast_def], where P = "\<lambda>c. dom c = dom cs"])
  fix x and s t :: clients
  assume "dom s = dom cs" "(\<lambda>(i, c) cs. if i = except then Some cs else send_to c p cs) x s = Some t"
  then show "dom t = dom cs" using send_to_dom by (cases x) (auto split: if_splits)
qed simp

lemma broadcast_total:
  assumes "snd ` set (zn_clients z) \<subseteq> dom cs"
  shows "\<exists>cs'. broadcast p except z cs = Some cs' \<and> dom cs' = dom cs"
  unfolding broadcast_def
proof (rule fold_opt_total[where P = "\<lambda>c. dom c = dom cs"])
  fix x and s :: clients
  assume "x \<in> set (zn_clients z)" and d: "dom s = dom cs"
  then have "snd x \<in> dom s" using assms by auto
  then obtain cl where "s (snd x) = Some cl" by auto
  then show "\<exists>t. (\<lambda>(i, c) cs. if i = except then Some cs else send_to c p cs) x s = Some t \<and> dom t = dom cs"
    using d by (cases x) (auto simp: send_to_def insert_absorb)
qed simp

end
