(* ===== verification/Melee_Attack.thy ===== *)
theory Melee_Attack
  imports Zone_State
begin

text \<open>
  \<open>MeleeAttack::use\<close> of \<open>tower/skill/melee_attack.hpp\<close>: a melee attack of an entity with a weapon.
  \<open>None\<close> is undefined behaviour (a dangling object, a signed overflow) or a loop over parents that does
  not end. The machine's coroutine for the way back to idle is stepped by \<open>sm_begin_wait\<close>, \<open>sm_expire\<close>
  and \<open>sm_resume\<close>.
\<close>

text \<open>The body of the loop over the colliders that the weapon's shape hits; \<open>me\<close> is the attacker's entity
  id.\<close>

definition hit_collider ::
  "u32 \<Rightarrow> int \<Rightarrow> addr \<Rightarrow> heap \<times> (u32 \<times> int) list \<Rightarrow> (heap \<times> (u32 \<times> int) list) option" where
  "hit_collider me damage collider st =
     (case st of (h, damages) \<Rightarrow>
        (case get_root h collider of
           None \<Rightarrow> None
         | Some owner \<Rightarrow>
             (case entity_at h owner of
                None \<Rightarrow> Some (h, damages)
              | Some e \<Rightarrow>
                  if me = entity_id e then Some (h, damages)
                  else if \<not> int_range (- damage) then None
                  else map_option (\<lambda>h'. (h', damages @ [(entity_id e, - damage)]))
                         (entity_change_health ADD (- damage) owner h))))"

definition set_machine :: "addr \<Rightarrow> unit state_machine \<Rightarrow> heap \<Rightarrow> heap option" where
  "set_machine a sm h = map_option (\<lambda>e. set_entity a (e\<lparr>state_machine := sm\<rparr>) h) (entity_at h a)"

text \<open>What happens once the transition to the attacking state has succeeded.\<close>

definition melee_strike ::
  "glm \<Rightarrow> int \<Rightarrow> zone \<Rightarrow> addr \<Rightarrow> u32 \<Rightarrow> fist \<Rightarrow> heap \<times> clients \<Rightarrow> (heap \<times> clients) option" where
  "melee_strike gl now z user me weapon st = do {
     let (h, cs) = st;
     colliders \<leftarrow> get_collisions_shape gl h (fist_shape weapon) layer_entities (zn_subworld z);
     (h, damages) \<leftarrow> fold_opt (hit_collider me (fist_damage weapon)) colliders (h, []);
     cs \<leftarrow> (if damages \<noteq> [] then broadcast (Out_EntityResourceChanges damages) 0 z cs else Some cs);
     cs \<leftarrow> broadcast (Out_SkillMeleeAttack me) 0 z cs;
     e \<leftarrow> entity_at h user;
     h \<leftarrow> set_machine user (sm_transition_delayed ''Idle'' now attack_cooldown_ms True (state_machine e)) h;
     Some (h, cs)
   }"

definition melee_use ::
  "glm \<Rightarrow> int \<Rightarrow> zone \<Rightarrow> addr \<Rightarrow> fist \<Rightarrow> heap \<times> clients \<Rightarrow> (heap \<times> clients) option" where
  "melee_use gl now z user weapon st = do {
     let (h, cs) = st;
     e \<leftarrow> entity_at h user;
     (ok, sm, _) \<leftarrow> sm_try_transition ''Attacking'' (state_machine e) ();
     if \<not> ok then Some (h, cs)
     else do {
       h \<leftarrow> set_machine user sm h;
       melee_strike gl now z user (entity_id e) weapon (h, cs)
     }
   }"

section \<open>Changing entities does not change the tree\<close>

definition same_tree :: "heap \<Rightarrow> heap \<Rightarrow> bool" where
  "same_tree h h' \<longleftrightarrow> (\<forall>a. map_option parent (h' a) = map_option parent (h a))"

lemma same_tree_refl [simp]: "same_tree h h"
  by (simp add: same_tree_def)

lemma same_tree_trans: "same_tree h h' \<Longrightarrow> same_tree h' h'' \<Longrightarrow> same_tree h h''"
  by (simp add: same_tree_def)

lemma same_tree_set_entity [simp]: "same_tree h (set_entity a e h)"
  by (simp add: same_tree_def set_entity_def split: option.split)

lemma same_tree_node:
  assumes "same_tree h h'" "h a = Some n"
  shows "\<exists>n'. h' a = Some n' \<and> lock_parent h' n' = lock_parent h n"
proof -
  have dom: "h' p = None \<longleftrightarrow> h p = None" for p
    using assms(1) unfolding same_tree_def by (metis map_option_is_None)
  obtain n' where "h' a = Some n'" "parent n' = parent n"
    using assms unfolding same_tree_def by (metis map_option_eq_Some option.map(2))
  then show ?thesis using dom by (simp add: lock_parent_def split: option.split)
qed

lemma get_root_same_tree_Some:
  assumes "get_root h a = Some r"
  shows "same_tree h h' \<longrightarrow> get_root h' a = Some r"
proof (rule get_root.raw_induct[where P = "\<lambda>h a r. same_tree h h' \<longrightarrow> get_root h' a = Some r", OF _ assms],
    intro impI)
  fix self h a r
  assume IH: "\<And>a b y. self a b = Some y \<Longrightarrow> same_tree a h' \<longrightarrow> get_root h' b = Some y"
    and r: "(case h a of None \<Rightarrow> None
      | Some n \<Rightarrow> (case lock_parent h n of None \<Rightarrow> Some a | Some p \<Rightarrow> self h p)) = Some r"
    and st: "same_tree h h'"
  then obtain n where n: "h a = Some n" by (auto split: option.splits)
  obtain n' where n': "h' a = Some n'" "lock_parent h' n' = lock_parent h n"
    using same_tree_node[OF st n] by blast
  show "get_root h' a = Some r"
  proof (cases "lock_parent h n")
    case None
    then show ?thesis using r n n' by (simp add: get_root.simps[of h'])
  next
    case (Some p)
    then have "get_root h' p = Some r" using r n IH st by simp
    then show ?thesis using Some n' by (simp add: get_root.simps[of h' a])
  qed
qed

lemma get_root_same_tree:
  assumes "same_tree h h'"
  shows "get_root h' a = get_root h a"
proof -
  have "same_tree h' h" using assms by (simp add: same_tree_def)
  then show ?thesis using get_root_same_tree_Some assms by (metis not_None_eq)
qed

text \<open>Everything but the objects of the nodes.\<close>

definition skeleton :: "heap \<Rightarrow> addr \<Rightarrow> node option" where
  "skeleton h a = map_option (\<lambda>n. n\<lparr>object := Plain_node\<rparr>) (h a)"

lemma skeleton_set_entity [simp]: "skeleton (set_entity a e h) = skeleton h"
  by (auto simp: skeleton_def set_entity_def fun_eq_iff split: option.split)

lemma skeleton_same_tree:
  assumes "skeleton h' = skeleton h"
  shows "same_tree h h'"
  unfolding same_tree_def
proof
  fix a
  have "map_option parent (skeleton h' a) = map_option parent (skeleton h a)" using assms by simp
  then show "map_option parent (h' a) = map_option parent (h a)"
    by (cases "h' a"; cases "h a") (auto simp: skeleton_def)
qed

section \<open>The damage of one strike\<close>

text \<open>The owners of the colliders that count, one entry for each collider.\<close>

definition victim :: "heap \<Rightarrow> u32 \<Rightarrow> addr \<Rightarrow> addr option" where
  "victim h me c =
     (case get_root h c of
        None \<Rightarrow> None
      | Some r \<Rightarrow> (case entity_at h r of Some e \<Rightarrow> if me = entity_id e then None else Some r | None \<Rightarrow> None))"

definition victims :: "heap \<Rightarrow> u32 \<Rightarrow> addr list \<Rightarrow> addr list" where
  "victims h me cols = List.map_filter (victim h me) cols"

definition wound :: "int \<Rightarrow> nat \<Rightarrow> entity \<Rightarrow> entity" where
  "wound d k e = e\<lparr>resource := (resource e)\<lparr>health := max 0 (health (resource e) - int k * d)\<rparr>\<rparr>"

definition resources_ok :: "heap \<Rightarrow> bool" where
  "resources_ok h \<longleftrightarrow> (\<forall>a e. entity_at h a = Some e \<longrightarrow> resource_ok (resource e))"

lemma wound_0: "resource_ok (resource e) \<Longrightarrow> wound d 0 e = e"
  by (cases e; cases "resource e") (simp add: wound_def resource_ok_def)

lemma wound_id [simp]: "entity_id (wound d k e) = entity_id e"
  by (simp add: wound_def)

lemma wound_Suc:
  assumes "0 \<le> d"
  shows "wound d k (wound d 1 e) = wound d (Suc k) e"
proof -
  have "0 \<le> int k * d" using assms by simp
  then have "max 0 (max 0 (x - d) - int k * d) = max 0 (x - (d + int k * d))" for x
    using assms by arith
  then show ?thesis by (cases e; cases "resource e") (simp add: wound_def algebra_simps)
qed

lemma wound_ok: "resource_ok (resource e) \<Longrightarrow> 0 \<le> d \<Longrightarrow> resource_ok (resource (wound d k e))"
  by (auto simp: wound_def resource_ok_def max_def zero_le_mult_iff
      intro: order_trans[of _ "health (resource e)"])

lemma change_health_wound:
  assumes "resource_ok (resource e)" "0 \<le> d" "change_health ADD (- d) (resource e) = Some (r, sig)"
  shows "e\<lparr>resource := r\<rparr> = wound d 1 e"
  using assms by (cases e; cases "resource e")
    (auto simp: change_health_def clamp_def wound_def resource_ok_def split: if_splits)

lemma hit_collider_effect:
  assumes "hit_collider me d c (h, ds) = Some (h', ds')" "resources_ok h" "0 \<le> d"
  shows "skeleton h' = skeleton h"
    and "entity_at h' a = map_option (if victim h me c = Some a then wound d 1 else id) (entity_at h a)"
    and "ds' = ds @ (case victim h me c of None \<Rightarrow> [] | Some r \<Rightarrow> [(entity_id (the (entity_at h r)), - d)])"
proof -
  obtain r where r: "get_root h c = Some r" using assms(1) by (auto simp: hit_collider_def split: option.splits)
  have "skeleton h' = skeleton h
    \<and> entity_at h' a = map_option (if victim h me c = Some a then wound d 1 else id) (entity_at h a)
    \<and> ds' = ds @ (case victim h me c of None \<Rightarrow> [] | Some r \<Rightarrow> [(entity_id (the (entity_at h r)), - d)])"
  proof (cases "victim h me c")
    case None
    then have "h' = h" "ds' = ds"
      using assms(1) r by (auto simp: hit_collider_def victim_def split: option.splits if_splits)
    then show ?thesis using None by (simp add: option.map_id0)
  next
    case (Some v)
    then obtain e where v: "v = r" "entity_at h r = Some e" "me \<noteq> entity_id e"
      using r by (auto simp: victim_def split: option.splits if_splits)
    then obtain res sig where ch: "change_health ADD (- d) (resource e) = Some (res, sig)"
      and h': "h' = set_entity r (e\<lparr>resource := res\<rparr>) h" and ds: "ds' = ds @ [(entity_id e, - d)]"
      using assms(1) r by (auto simp: hit_collider_def entity_change_health_def split: if_splits)
    have "e\<lparr>resource := res\<rparr> = wound d 1 e"
      using change_health_wound[OF _ assms(3) ch] assms(2) v(2) by (simp add: resources_ok_def)
    then show ?thesis
      using v Some ds entity_at_dom[OF v(2)] by (simp add: h' heap_simps option.map_id0)
  qed
  then show "skeleton h' = skeleton h"
    and "entity_at h' a = map_option (if victim h me c = Some a then wound d 1 else id) (entity_at h a)"
    and "ds' = ds @ (case victim h me c of None \<Rightarrow> [] | Some r \<Rightarrow> [(entity_id (the (entity_at h r)), - d)])"
    by blast+
qed

lemma victim_cong:
  assumes "same_tree h h'" "\<And>a. map_option entity_id (entity_at h' a) = map_option entity_id (entity_at h a)"
  shows "victim h' me c = victim h me c"
proof -
  have "(case entity_at h' r of Some e \<Rightarrow> if me = entity_id e then None else Some r | None \<Rightarrow> None)
    = (case entity_at h r of Some e \<Rightarrow> if me = entity_id e then None else Some r | None \<Rightarrow> None)" for r
    using assms(2)[of r] by (cases "entity_at h' r"; cases "entity_at h r") auto
  then show ?thesis by (cases "get_root h c") (simp_all add: victim_def get_root_same_tree[OF assms(1)])
qed

lemma victims_simps [simp]:
  "victims h me [] = []"
  "victims h me (c # cs) = (case victim h me c of None \<Rightarrow> [] | Some r \<Rightarrow> [r]) @ victims h me cs"
  by (simp_all add: victims_def List.map_filter_def split: option.split)

lemma victim_live: "victim h me c = Some r \<Longrightarrow> \<exists>e. entity_at h r = Some e \<and> entity_id e \<noteq> me"
  by (auto simp: victim_def split: option.splits if_splits)

lemma victims_live: "r \<in> set (victims h me cols) \<Longrightarrow> \<exists>e. entity_at h r = Some e \<and> entity_id e \<noteq> me"
  by (induction cols) (auto dest: victim_live dest!: victim_live[OF sym] split: option.splits)

lemma hits_effect:
  assumes "fold_opt (hit_collider me d) cols (h, ds) = Some (h', ds')" "resources_ok h" "0 \<le> d"
  shows "skeleton h' = skeleton h
    \<and> (\<forall>a. entity_at h' a = map_option (wound d (count_list (victims h me cols) a)) (entity_at h a))
    \<and> ds' = ds @ map (\<lambda>r. (entity_id (the (entity_at h r)), - d)) (victims h me cols)"
  using assms
proof (induction cols arbitrary: h ds)
  case Nil
  have "map_option (wound d 0) (entity_at h a) = entity_at h a" for a
    using Nil.prems(2) by (cases "entity_at h a") (auto simp: resources_ok_def wound_0)
  then show ?case using Nil.prems by simp
next
  case (Cons c cols)
  obtain h1 ds1 where one: "hit_collider me d c (h, ds) = Some (h1, ds1)"
    and rest: "fold_opt (hit_collider me d) cols (h1, ds1) = Some (h', ds')"
    using Cons.prems(1) by (auto split: option.splits)
  note e1 = hit_collider_effect[OF one Cons.prems(2,3)]
  have id1: "map_option entity_id (entity_at h1 a) = map_option entity_id (entity_at h a)" for a
    unfolding e1(2)[of a] by (cases "entity_at h a") simp_all
  have v1: "victim h1 me x = victim h me x" for x
    by (rule victim_cong[OF skeleton_same_tree[OF e1(1)] id1])
  then have vs: "victims h1 me cols = victims h me cols" by (simp add: victims_def List.map_filter_def)
  have idv: "entity_id (the (entity_at h1 r)) = entity_id (the (entity_at h r))" if "r \<in> set (victims h me cols)" for r
  proof -
    have "entity_at h r \<noteq> None" using victims_live[OF that] by blast
    then show ?thesis using id1[of r] by (cases "entity_at h1 r"; cases "entity_at h r") auto
  qed
  have ok1: "resources_ok h1"
    unfolding resources_ok_def e1(2) using Cons.prems(2,3)
    by (auto simp: resources_ok_def intro: wound_ok[OF _ Cons.prems(3)])
  note IH = Cons.IH[OF rest ok1 Cons.prems(3), unfolded vs]
  have "entity_at h' a = map_option (wound d (count_list (victims h me (c # cols)) a)) (entity_at h a)" for a
    using IH e1(2)[of a]
    by (cases "entity_at h a"; cases "victim h me c") (auto simp: wound_Suc[OF Cons.prems(3), unfolded One_nat_def])
  moreover have "ds' = ds @ map (\<lambda>r. (entity_id (the (entity_at h r)), - d)) (victims h me (c # cols))"
    using IH e1(3) idv by (auto split: option.split)
  ultimately show ?case using IH e1(1) by simp
qed

section \<open>Changing an entity does not change what collides\<close>

lemma skeleton_node:
  assumes "skeleton h' = skeleton h" "h a = Some n"
  shows "\<exists>n'. h' a = Some n' \<and> position n' = position n \<and> rotation n' = rotation n
    \<and> lock_parent h' n' = lock_parent h n"
proof -
  have "skeleton h' a = skeleton h a" using assms(1) by simp
  then obtain n' where n': "h' a = Some n'" "n'\<lparr>object := Plain_node\<rparr> = n\<lparr>object := Plain_node\<rparr>"
    using assms(2) by (auto simp: skeleton_def)
  from n'(2) have "position n' = position n" "rotation n' = rotation n"
    by (cases n'; cases n; simp)+
  then show ?thesis
    using same_tree_node[OF skeleton_same_tree[OF assms(1)] assms(2)] n'(1) by auto
qed

lemma climb_position_skeleton_Some:
  assumes "climb_position gl h p v = Some r"
  shows "skeleton h' = skeleton h \<longrightarrow> climb_position gl h' p v = Some r"
proof (rule climb_position.raw_induct[where P = "\<lambda>gl h p v r. skeleton h' = skeleton h \<longrightarrow> climb_position gl h' p v = Some r",
      OF _ assms], intro impI)
  fix self gl h p v r
  assume IH: "\<And>gl h p v r. self gl h p v = Some r \<Longrightarrow> skeleton h' = skeleton h \<longrightarrow> climb_position gl h' p v = Some r"
    and r: "(case p of None \<Rightarrow> Some v
      | Some a \<Rightarrow> (case h a of None \<Rightarrow> None
          | Some n \<Rightarrow> self gl h (lock_parent h n) (g_add gl (position n) (g_rotate_up gl (rotation n) v)))) = Some r"
    and sk: "skeleton h' = skeleton h"
  show "climb_position gl h' p v = Some r"
  proof (cases p)
    case None
    then show ?thesis using r by (simp add: climb_position.simps)
  next
    case (Some a)
    then obtain n where n: "h a = Some n" using r by (auto split: option.splits)
    obtain n' where n': "h' a = Some n'" "position n' = position n" "rotation n' = rotation n"
      "lock_parent h' n' = lock_parent h n"
      using skeleton_node[OF sk n] by blast
    have "climb_position gl h' (lock_parent h n) (g_add gl (position n) (g_rotate_up gl (rotation n) v)) = Some r"
      using r Some n IH sk by simp
    then show ?thesis using Some n' by (simp add: climb_position.simps[of gl h' "Some a"])
  qed
qed

lemma global_position_skeleton:
  assumes "skeleton h' = skeleton h"
  shows "get_global_position gl h' a = get_global_position gl h a"
proof -
  have c: "climb_position gl h' p v = climb_position gl h p v" for p v
    using climb_position_skeleton_Some[of gl h p v _ h'] climb_position_skeleton_Some[of gl h' p v _ h] assms
    by (cases "climb_position gl h p v"; cases "climb_position gl h' p v") auto
  show ?thesis
  proof (cases "h a")
    case None
    then have "skeleton h' a = None" using assms by (simp add: skeleton_def)
    then show ?thesis using None by (simp add: get_global_position_def skeleton_def)
  next
    case (Some n)
    from skeleton_node[OF assms this] obtain n' where "h' a = Some n'" "position n' = position n"
      "lock_parent h' n' = lock_parent h n" by blast
    then show ?thesis using Some by (simp add: get_global_position_def c)
  qed
qed

text \<open>Two heaps that differ in entities only: the same tree, and the same objects up to the entities.\<close>

definition kind :: "heap \<Rightarrow> addr \<Rightarrow> object option" where
  "kind h a = map_option (\<lambda>n. case object n of Entity_object _ \<Rightarrow> Plain_node | ob \<Rightarrow> ob) (h a)"

definition same_scene :: "heap \<Rightarrow> heap \<Rightarrow> bool" where
  "same_scene h h' \<longleftrightarrow> skeleton h' = skeleton h \<and> kind h' = kind h"

lemma same_scene_set_entity:
  assumes "entity_at h a \<noteq> None"
  shows "same_scene h (set_entity a e h)"
proof -
  have "kind (set_entity a e h) c = kind h c" for c
    using assms by (auto simp: kind_def set_entity_def entity_at_def split: option.splits object.splits)
  then show ?thesis by (simp add: same_scene_def fun_eq_iff)
qed

lemma cube_by_kind:
  "cube_is_colliding gl h a sz b =
     (case get_global_position gl h a of
        None \<Rightarrow> None
      | Some center \<Rightarrow>
          (case kind h b of
             None \<Rightarrow> None
           | Some (Cube_shape z) \<Rightarrow>
               map_option (\<lambda>oc. boxes_overlap (cube_min center sz) (cube_max center sz) (cube_min oc z) (cube_max oc z))
                 (get_global_position gl h b)
           | Some (Sphere_shape r) \<Rightarrow>
               map_option (\<lambda>oc. f_le (g_distance gl (closest_point gl (cube_min center sz) (cube_max center sz) oc) oc) r)
                 (get_global_position gl h b)
           | _ \<Rightarrow> Some False))"
  by (simp add: cube_is_colliding_def kind_def Let_def split: option.split object.split)

lemma sphere_by_kind:
  "sphere_is_colliding gl h a radius b =
     (case get_global_position gl h a of
        None \<Rightarrow> None
      | Some center \<Rightarrow>
          (case kind h b of
             None \<Rightarrow> None
           | Some (Cube_shape z) \<Rightarrow>
               map_option (\<lambda>oc. f_le (g_distance gl (closest_point gl (cube_min oc z) (cube_max oc z) center) center) radius)
                 (get_global_position gl h b)
           | Some (Sphere_shape r) \<Rightarrow>
               map_option (\<lambda>oc. f_le (g_distance gl center oc) (f_add radius r)) (get_global_position gl h b)
           | _ \<Rightarrow> Some False))"
  by (simp add: sphere_is_colliding_def kind_def split: option.split object.split)

lemma shape_by_kind:
  "shape_is_colliding gl h a b =
     (case kind h a of
        Some (Cube_shape sz) \<Rightarrow> cube_is_colliding gl h a sz b
      | Some (Sphere_shape r) \<Rightarrow> sphere_is_colliding gl h a r b
      | _ \<Rightarrow> None)"
  by (simp add: shape_is_colliding_def kind_def split: option.split object.split)

lemma candidate_by_kind:
  "collision_candidate gl h s msk c =
     (case kind h c of
        Some (Collider sh layer _) \<Rightarrow> if msk AND layer = 0 then Some False else shape_is_colliding gl h sh s
      | _ \<Rightarrow> None)"
proof (cases "h c")
  case (Some n)
  then show ?thesis by (cases "object n") (simp_all only: collision_candidate_def kind_def option.map option.case object.case)
qed (simp add: collision_candidate_def kind_def)

lemma get_collisions_shape_same_scene:
  assumes "same_scene h h'"
  shows "get_collisions_shape gl h' s msk sw = get_collisions_shape gl h s msk sw"
proof -
  have sk: "skeleton h' = skeleton h" and k: "kind h' = kind h" using assms by (simp_all add: same_scene_def)
  have gp: "get_global_position gl h' c = get_global_position gl h c" for c
    by (rule global_position_skeleton[OF sk])
  have cube: "cube_is_colliding gl h' a sz b = cube_is_colliding gl h a sz b" for a sz b
    unfolding cube_by_kind k gp ..
  have sphere: "sphere_is_colliding gl h' a r b = sphere_is_colliding gl h a r b" for a r b
    unfolding sphere_by_kind k gp ..
  have shape: "shape_is_colliding gl h' a b = shape_is_colliding gl h a b" for a b
    unfolding shape_by_kind k cube sphere ..
  have "collision_candidate gl h' s msk c = collision_candidate gl h s msk c" for c
    unfolding candidate_by_kind k shape ..
  then show ?thesis by (simp add: get_collisions_shape_def)
qed

section \<open>The whole attack\<close>

lemma set_machine_scene:
  assumes "set_machine a sm h = Some h'"
  shows "same_scene h h'"
    and "entity_at h' c = map_option (if c = a then state_machine_update (\<lambda>_. sm) else id) (entity_at h c)"
proof -
  obtain e where e: "entity_at h a = Some e" "h' = set_entity a (e\<lparr>state_machine := sm\<rparr>) h"
    using assms by (auto simp: set_machine_def)
  then show "same_scene h h'" using same_scene_set_entity by simp
  show "entity_at h' c = map_option (if c = a then state_machine_update (\<lambda>_. sm) else id) (entity_at h c)"
    using e entity_at_dom[OF e(1)] by (simp add: heap_simps option.map_id0)
qed

text \<open>The packets of a strike: the damages, if there are any, and the attack itself.\<close>

definition strike_packets :: "heap \<Rightarrow> u32 \<Rightarrow> int \<Rightarrow> addr list \<Rightarrow> zone \<Rightarrow> clients \<Rightarrow> clients option" where
  "strike_packets h me d vs z cs =
     Option.bind
       (if vs = [] then Some cs
        else broadcast (Out_EntityResourceChanges (map (\<lambda>r. (entity_id (the (entity_at h r)), - d)) vs)) 0 z cs)
       (broadcast (Out_SkillMeleeAttack me) 0 z)"

lemma melee_strike_effect:
  assumes "melee_strike gl now z user me weapon (h, cs) = Some (h', cs')"
    and "entity_at h user = Some e" "entity_id e = me"
    and "resources_ok h" "0 \<le> fist_damage weapon"
  shows "\<exists>cols. get_collisions_shape gl h (fist_shape weapon) layer_entities (zn_subworld z) = Some cols
    \<and> skeleton h' = skeleton h
    \<and> (\<forall>a. a \<noteq> user \<longrightarrow> entity_at h' a
          = map_option (wound (fist_damage weapon) (count_list (victims h me cols) a)) (entity_at h a))
    \<and> entity_at h' user = Some (e\<lparr>state_machine :=
          sm_transition_delayed ''Idle'' now attack_cooldown_ms True (state_machine e)\<rparr>)
    \<and> strike_packets h me (fist_damage weapon) (victims h me cols) z cs = Some cs'"
proof -
  let ?d = "fist_damage weapon"
  obtain cols h1 dmg cs1 where cols: "get_collisions_shape gl h (fist_shape weapon) layer_entities (zn_subworld z) = Some cols"
    and hits: "fold_opt (hit_collider me ?d) cols (h, []) = Some (h1, dmg)"
    and cs1: "(if dmg \<noteq> [] then broadcast (Out_EntityResourceChanges dmg) 0 z cs else Some cs) = Some cs1"
    and cs': "broadcast (Out_SkillMeleeAttack me) 0 z cs1 = Some cs'"
    and h': "\<exists>e1. entity_at h1 user = Some e1 \<and>
        set_machine user (sm_transition_delayed ''Idle'' now attack_cooldown_ms True (state_machine e1)) h1 = Some h'"
    using assms(1) by (auto simp: melee_strike_def bind_eq_Some_conv)
  note eff = hits_effect[OF hits assms(4,5)]
  let ?vs = "victims h me cols"
  have "user \<notin> set ?vs" using victims_live assms(2,3) by force
  then have "entity_at h1 user = Some (wound ?d 0 e)"
    using eff assms(2) by (simp add: count_list_0_iff)
  then have u1: "entity_at h1 user = Some e"
    using assms(2,4) wound_0 by (simp add: resources_ok_def)
  then have sm: "set_machine user (sm_transition_delayed ''Idle'' now attack_cooldown_ms True (state_machine e)) h1 = Some h'"
    using h' by simp
  note sc = set_machine_scene[OF sm]
  have "strike_packets h me ?d ?vs z cs = Some cs'"
    using cs1 cs' eff by (auto simp: strike_packets_def bind_eq_Some_conv)
  then show ?thesis
    using cols eff sc u1 by (auto simp: same_scene_def id_def[symmetric] option.map_id0 option.map_id)
qed

lemma melee_effect:
  assumes "melee_use gl now z user weapon (h, cs) = Some (h', cs')"
    and "entity_at h user = Some e"
    and "sm_try_transition ''Attacking'' (state_machine e) () = Some (ok, sm, ())"
    and "resources_ok h" "0 \<le> fist_damage weapon"
  shows "if \<not> ok then h' = h \<and> cs' = cs
    else \<exists>cols. get_collisions_shape gl h (fist_shape weapon) layer_entities (zn_subworld z) = Some cols
      \<and> skeleton h' = skeleton h \<and> resources_ok h'
      \<and> (\<forall>a. a \<noteq> user \<longrightarrow> entity_at h' a
            = map_option (wound (fist_damage weapon) (count_list (victims h (entity_id e) cols) a)) (entity_at h a))
      \<and> entity_at h' user = Some (e\<lparr>state_machine := sm_transition_delayed ''Idle'' now attack_cooldown_ms True sm\<rparr>)
      \<and> strike_packets h (entity_id e) (fist_damage weapon) (victims h (entity_id e) cols) z cs = Some cs'"
proof (cases ok)
  case False
  then show ?thesis using assms(1-3) by (simp add: melee_use_def)
next
  case True
  let ?e = "e\<lparr>state_machine := sm\<rparr>" and ?me = "entity_id e" and ?d = "fist_damage weapon"
  obtain h1 where h1: "set_machine user sm h = Some h1"
    and strike: "melee_strike gl now z user ?me weapon (h1, cs) = Some (h', cs')"
    using assms(1-3) True by (auto simp: melee_use_def bind_eq_Some_conv)
  note sc = set_machine_scene[OF h1]
  have ok1: "resources_ok h1"
    using assms(4) unfolding resources_ok_def sc(2) by auto
  have sk: "skeleton h1 = skeleton h" using sc(1) by (simp add: same_scene_def)
  have vs: "victims h1 ?me cols = victims h ?me cols" for cols
  proof -
    have "map_option entity_id (entity_at h1 a) = map_option entity_id (entity_at h a)" for a
      unfolding sc(2)[of a] by (cases "entity_at h a") auto
    then have "victim h1 ?me = victim h ?me" by (intro ext victim_cong[OF skeleton_same_tree[OF sk]])
    then show ?thesis by (simp add: victims_def)
  qed
  have pk: "strike_packets h1 ?me ?d (victims h ?me cols) z cs = strike_packets h ?me ?d (victims h ?me cols) z cs" for cols
  proof -
    have "entity_id (the (entity_at h1 r)) = entity_id (the (entity_at h r))" if "r \<in> set (victims h ?me cols)" for r
      using victims_live[OF that] by (auto simp: sc(2))
    then have "map (\<lambda>r. (entity_id (the (entity_at h1 r)), - ?d)) (victims h ?me cols)
      = map (\<lambda>r. (entity_id (the (entity_at h r)), - ?d)) (victims h ?me cols)" by simp
    then show ?thesis by (simp only: strike_packets_def)
  qed
  obtain cols where eff: "get_collisions_shape gl h1 (fist_shape weapon) layer_entities (zn_subworld z) = Some cols"
    "skeleton h' = skeleton h1"
    "\<forall>a. a \<noteq> user \<longrightarrow> entity_at h' a = map_option (wound ?d (count_list (victims h1 ?me cols) a)) (entity_at h1 a)"
    "entity_at h' user = Some (?e\<lparr>state_machine :=
          sm_transition_delayed ''Idle'' now attack_cooldown_ms True (state_machine ?e)\<rparr>)"
    "strike_packets h1 ?me ?d (victims h1 ?me cols) z cs = Some cs'"
    using melee_strike_effect[OF strike _ _ ok1 assms(5), of ?e] sc(2)[of user] assms(2) by auto
  have others: "\<forall>a. a \<noteq> user \<longrightarrow> entity_at h' a = map_option (wound ?d (count_list (victims h ?me cols) a)) (entity_at h a)"
    using eff(3) by (simp add: vs sc(2) option.map_id0)
  have "resources_ok h'"
    unfolding resources_ok_def
  proof (intro allI impI)
    fix a x assume x: "entity_at h' a = Some x"
    show "resource_ok (resource x)"
    proof (cases "a = user")
      case True
      then show ?thesis using x eff(4) assms(2,4) by (auto simp: resources_ok_def)
    next
      case False
      then obtain y where "entity_at h a = Some y" "x = wound ?d (count_list (victims h ?me cols) a) y"
        using x others by auto
      then show ?thesis using assms(4,5) wound_ok by (auto simp: resources_ok_def)
    qed
  qed
  then show ?thesis
    using True eff others sk by (auto simp: vs pk get_collisions_shape_same_scene[OF sc(1)])
qed

text \<open>C22. A melee attack does exactly this. If the attacker's state machine refuses the transition to
  \<open>Attacking\<close> (it is in its cooldown), nothing changes and nothing is sent. Otherwise every entity but
  the attacker loses the weapon's damage once for each of its colliders that the weapon's shape hits,
  but never falls below zero; nothing else about it changes, and no position, parent or shape does. The
  attacker is never hurt, whatever it hits, and is left with the delayed transition back to \<open>Idle\<close>. All
  clients of the zone are sent the list of the damages, unless it is empty, and then the attack.\<close>

theorem melee_damage_exact:
  assumes "melee_use gl now z user weapon (h, cs) = Some (h', cs')"
    and "entity_at h user = Some e"
    and "sm_try_transition ''Attacking'' (state_machine e) () = Some (ok, sm, ())"
    and "resources_ok h" "0 \<le> fist_damage weapon"
  shows "if \<not> ok then h' = h \<and> cs' = cs
    else \<exists>cols. get_collisions_shape gl h (fist_shape weapon) layer_entities (zn_subworld z) = Some cols
      \<and> skeleton h' = skeleton h \<and> resources_ok h'
      \<and> (\<forall>a. a \<noteq> user \<longrightarrow> entity_at h' a
            = map_option (wound (fist_damage weapon) (count_list (victims h (entity_id e) cols) a)) (entity_at h a))
      \<and> entity_at h' user = Some (e\<lparr>state_machine := sm_transition_delayed ''Idle'' now attack_cooldown_ms True sm\<rparr>)
      \<and> strike_packets h (entity_id e) (fist_damage weapon) (victims h (entity_id e) cols) z cs = Some cs'"
  using assms by (rule melee_effect)

text \<open>Two players at the same place; the weapon's shape touches both bodies.\<close>

definition duelist :: "u32 \<Rightarrow> int \<Rightarrow> entity" where
  "duelist i hp = \<lparr>entity_id = i, en_type = HUMAN, state_machine = combat_machine,
     resource = \<lparr>max_health = hp, health = hp\<rparr>, movement_mode = FORWARD,
     target_direction = zero3, target_position = zero3, movement_speed_base = F_zero False,
     en_class = Player_class \<lparr>pl_character_id = 0, pl_player_name = [], pl_main_weapon = None, pl_stats = stats_new\<rparr>\<rparr>"

definition duel_heap :: heap where
  "duel_heap =
     [0 \<mapsto> plain_node_at 1 zero3 None [1, 3] (Entity_object (duelist 1 100)),
      1 \<mapsto> plain_node_at 2 zero3 (Some 0) [2] (Collider 2 layer_entities 0),
      2 \<mapsto> plain_node_at 3 zero3 (Some 1) [] (Sphere_shape (F_zero False)),
      3 \<mapsto> plain_node_at 4 zero3 (Some 0) [] (Sphere_shape (F_zero False)),
      4 \<mapsto> plain_node_at 5 zero3 None [5] (Entity_object (duelist 2 10)),
      5 \<mapsto> plain_node_at 6 zero3 (Some 4) [6] (Collider 6 layer_entities 0),
      6 \<mapsto> plain_node_at 7 zero3 (Some 5) [] (Sphere_shape (F_zero False))]"

definition duel_fist :: fist where
  "duel_fist = \<lparr>fist_node = 3, fist_damage = 1, fist_shape = 3\<rparr>"

definition duel_clients :: clients where
  "duel_clients = [100 \<mapsto> client_new 1 True]"

definition duel_zone :: zone where
  "duel_zone = \<lparr>zone_id = 1, zn_running = True, zn_last_tick = 0, zn_clients = [(1, 100)],
     zn_subworld = \<lparr>sw_entities = [(1, 0), (2, 4)], sw_collision_objects = [(2, 1), (6, 5)],
       sw_collision_areas = [], sw_contacts = [], sw_obstacles_grid = test_grid\<rparr>, zn_strand = [Job_tick]\<rparr>"

lemma duel_entities:
  "entity_at duel_heap a = (if a = 0 then Some (duelist 1 100) else if a = 4 then Some (duelist 2 10) else None)"
  by (simp add: entity_at_def duel_heap_def plain_node_at_def)

lemma duel_transition:
  "\<exists>sm. sm_try_transition ''Attacking'' (state_machine (duelist 1 100)) () = Some (True, sm, ())"
  using table_can_transition(1)[of "state_machine (duelist 1 100)"]
  by (simp add: duelist_def sm_table_def combat_machine_idle)

theorem melee_damage_exact_witness:
  "\<exists>h' cs'. melee_use sample_glm 0 duel_zone 0 duel_fist (duel_heap, duel_clients) = Some (h', cs')
     \<and> map_option (health \<circ> resource) (entity_at h' 4) = Some 9
     \<and> map_option (health \<circ> resource) (entity_at h' 0) = Some 100"
proof -
  have "(case melee_use sample_glm 0 duel_zone 0 duel_fist (duel_heap, duel_clients) of None \<Rightarrow> False | Some _ \<Rightarrow> True)"
    by code_simp
  then obtain h' cs' where use: "melee_use sample_glm 0 duel_zone 0 duel_fist (duel_heap, duel_clients) = Some (h', cs')"
    by (auto split: option.splits)
  obtain sm where sm: "sm_try_transition ''Attacking'' (state_machine (duelist 1 100)) () = Some (True, sm, ())"
    using duel_transition by blast
  have cols: "get_collisions_shape sample_glm duel_heap (fist_shape duel_fist) layer_entities (zn_subworld duel_zone) = Some [1, 5]"
    by code_simp
  have vs: "victims duel_heap (entity_id (duelist 1 100)) [1, 5] = [4]" by code_simp
  have ok: "resources_ok duel_heap"
    by (auto simp: resources_ok_def duel_entities duelist_def resource_ok_def split: if_splits)
  have w: "entity_at duel_heap 0 = Some (duelist 1 100)" and d: "0 \<le> fist_damage duel_fist"
    by (simp_all add: duel_entities duel_fist_def)
  from melee_damage_exact[OF use w sm ok d] have
    "entity_at h' 4 = Some (wound 1 1 (duelist 2 10))" "map_option (health \<circ> resource) (entity_at h' 0) = Some 100"
    using cols vs by (simp_all add: duel_entities duel_fist_def duelist_def)
  then show ?thesis using use by (simp add: wound_def duelist_def)
qed

end
