(* ===== verification/Monster.thy ===== *)
theory Monster
  imports Melee_Attack Pathfinder
begin

text \<open>
  \<open>SimpleMonster::tick\<close> of \<open>tower/entity/simple_monster.cpp\<close>: the monster waits for a player in its
  detection area, chases it along the path of the path finder and attacks. \<open>None\<close> is undefined
  behaviour: above all \<open>_chasing_target\<close> is a raw pointer that is read even when the player it points
  to is gone from the heap.

  The tick gets the clock reading \<open>now\<close>, the tie-breaking \<open>pick\<close> of the priority queue of the path
  finder and the number \<open>tie\<close>, which says which of several equally near targets \<open>std::sort\<close> puts first.
\<close>

section \<open>tick\<close>

text \<open>The first element after sorting by distance. The comparison is a strict weak ordering only if no
  distance is a NaN. A single element is not compared.\<close>

definition nearest :: "glm \<Rightarrow> heap \<Rightarrow> vec3 \<Rightarrow> nat \<Rightarrow> addr list \<Rightarrow> addr option" where
  "nearest gl h my_position tie targets =
     (case targets of
        [] \<Rightarrow> None
      | [t] \<Rightarrow> Some t
      | _ \<Rightarrow>
          Option.bind (those (map (\<lambda>t. map_option (\<lambda>p. (g_distance gl p my_position, t)) (get_global_position gl h t)) targets))
            (\<lambda>ds.
              let best = filter (\<lambda>(d, _). list_all (\<lambda>(d', _). \<not> f_lt d' d) ds) ds in
              if list_ex (\<lambda>(d, _). f_isnan d) ds \<or> best = [] then None
              else Some (snd (best ! (tie mod length best)))))"

definition set_monster :: "addr \<Rightarrow> entity \<Rightarrow> monster_data \<Rightarrow> heap \<Rightarrow> heap" where
  "set_monster a e d h = set_entity a (e\<lparr>en_class := Monster_class d\<rparr>) h"

text \<open>The path from the cell of one position to the cell of another.\<close>

definition monster_path :: "(nat \<Rightarrow> nat) \<Rightarrow> subworld \<Rightarrow> vec3 \<Rightarrow> vec3 \<Rightarrow> point list result option" where
  "monster_path pick sw v w = do {
     s \<leftarrow> point_of_floats (vz v) (vx v);
     t \<leftarrow> point_of_floats (vz w) (vx w);
     find_path pick (sw_obstacles_grid sw) s t ASTAR
   }"

definition start_chase ::
  "int \<Rightarrow> addr \<Rightarrow> entity \<Rightarrow> monster_data \<Rightarrow> addr \<Rightarrow> point list \<Rightarrow> heap \<Rightarrow> heap" where
  "start_chase now a e d player path h =
     (case path of
        [] \<Rightarrow> set_monster a e (d\<lparr>mo_chasing_path := []\<rparr>) h
      | p # _ \<Rightarrow>
          set_monster a (e\<lparr>target_position := point2position p\<rparr>)
            (d\<lparr>mo_chasing_path := path, mo_chasing_target := Some player, mo_chasing_started := now,
               mo_chasing_path_index := 0, mo_state := CHASING\<rparr>) h)"

definition monster_idle ::
  "glm \<Rightarrow> (nat \<Rightarrow> nat) \<Rightarrow> nat \<Rightarrow> int \<Rightarrow> subworld \<Rightarrow> addr \<Rightarrow> node \<Rightarrow> entity \<Rightarrow> monster_data \<Rightarrow> heap
     \<Rightarrow> heap result option" where
  "monster_idle gl pick tie now sw a n e d h = do {
     targets \<leftarrow> get_collisions_shape gl h (mo_detection_area d) layer_players sw;
     if targets = [] then Some (Inr h)
     else do {
       my_position \<leftarrow> get_global_position gl h a;
       t \<leftarrow> nearest gl h my_position tie targets;
       r \<leftarrow> get_root h t;
       rn \<leftarrow> h r;
       if \<not> is_player (object rn) then Some (Inr h)
       else map_option (map_sum id (\<lambda>path. start_chase now a e d r path h))
              (monster_path pick sw (position n) (position rn))
     }
   }"

text \<open>\<open>!_chasing_target || !entities().contains(_chasing_target->entity_id)\<close>\<close>

definition target_gone :: "subworld \<Rightarrow> monster_data \<Rightarrow> heap \<Rightarrow> bool option" where
  "target_gone sw d h =
     (case mo_chasing_target d of
        None \<Rightarrow> Some True
      | Some t \<Rightarrow> map_option (\<lambda>te. \<not> um_contains (sw_entities sw) (entity_id te)) (entity_at h t))"

text \<open>Chasing after the path has been brought up to date: attack, give up or follow the path.\<close>

definition monster_follow ::
  "glm \<Rightarrow> addr \<Rightarrow> node \<Rightarrow> entity \<Rightarrow> monster_data \<Rightarrow> addr \<Rightarrow> heap \<Rightarrow> heap option" where
  "monster_follow gl a n e d target h =
     (if mo_chasing_path_index d \<ge> length (mo_chasing_path d)
      then map_option (\<lambda>tp.
             set_monster a e (d\<lparr>mo_state := (if f_lt (g_distance gl (position n) tp) (f_lit 1) then ATTACKING else IDLE)\<rparr>) h)
             (get_global_position gl h target)
      else if \<not> g_eps3 gl (target_position e) (position n) epsilon then Some (set_monster a e d h)
      else
        let i = mo_chasing_path_index d + 1; d' = d\<lparr>mo_chasing_path_index := i\<rparr> in
        Some (set_monster a
          (if i < length (mo_chasing_path d) then e\<lparr>target_position := point2position (mo_chasing_path d ! i)\<rparr> else e)
          d' h))"

definition monster_chasing ::
  "glm \<Rightarrow> (nat \<Rightarrow> nat) \<Rightarrow> int \<Rightarrow> subworld \<Rightarrow> addr \<Rightarrow> node \<Rightarrow> entity \<Rightarrow> monster_data \<Rightarrow> heap \<Rightarrow> heap result option" where
  "monster_chasing gl pick now sw a n e d h = do {
     gone \<leftarrow> target_gone sw d h;
     if gone then Some (Inr (set_monster a e (d\<lparr>mo_state := IDLE\<rparr>) h))
     else do {
       target \<leftarrow> mo_chasing_target d;
       if now > mo_chasing_started d + 3000 then do {
         tn \<leftarrow> h target;
         res \<leftarrow> monster_path pick sw (position n) (position tn);
         case res of
           Inl ex \<Rightarrow> Some (Inl ex)
         | Inr path \<Rightarrow>
             (let d' = d\<lparr>mo_chasing_path := path, mo_chasing_path_index := 0, mo_chasing_started := now\<rparr> in
              if path = [] then Some (Inr (set_monster a e (d'\<lparr>mo_state := IDLE\<rparr>) h))
              else map_option Inr (monster_follow gl a n e d' target h))
       }
       else map_option Inr (monster_follow gl a n e d target h)
     }
   }"

definition monster_attacking ::
  "glm \<Rightarrow> int \<Rightarrow> zone \<Rightarrow> addr \<Rightarrow> node \<Rightarrow> entity \<Rightarrow> monster_data \<Rightarrow> heap \<times> clients \<Rightarrow> (heap \<times> clients) option" where
  "monster_attacking gl now z a n e d st = do {
     let (h, cs) = st;
     gone \<leftarrow> target_gone (zn_subworld z) d h;
     if gone then Some (set_monster a e (d\<lparr>mo_state := IDLE\<rparr>) h, cs)
     else do {
       target \<leftarrow> mo_chasing_target d;
       tn \<leftarrow> h target;
       if f_lt (f_lit 1) (g_distance gl (position n) (position tn))
       then Some (set_monster a e (d\<lparr>mo_state := IDLE\<rparr>) h, cs)
       else melee_use gl now z a (mo_weapon d) (set_entity a (e\<lparr>target_position := position tn\<rparr>) h, cs)
     }
   }"

definition simple_monster_tick ::
  "glm \<Rightarrow> (nat \<Rightarrow> nat) \<Rightarrow> nat \<Rightarrow> int \<Rightarrow> zone \<Rightarrow> addr \<Rightarrow> heap \<times> clients \<Rightarrow> (heap \<times> clients) result option" where
  "simple_monster_tick gl pick tie now z a st = do {
     let (h, cs) = st;
     n \<leftarrow> h a;
     e \<leftarrow> entity_at h a;
     case en_class e of
       Player_class _ \<Rightarrow> None
     | Monster_class d \<Rightarrow>
         (case mo_state d of
            IDLE \<Rightarrow> map_option (map_sum id (\<lambda>h. (h, cs))) (monster_idle gl pick tie now (zn_subworld z) a n e d h)
          | CHASING \<Rightarrow> map_option (map_sum id (\<lambda>h. (h, cs))) (monster_chasing gl pick now (zn_subworld z) a n e d h)
          | ATTACKING \<Rightarrow> map_option Inr (monster_attacking gl now z a n e d (h, cs)))
   }"

section \<open>Chasing\<close>

text \<open>While it chases, the monster has a path that the path finder returned and an index into it, and
  heads for the centre of a cell of such a path.\<close>

definition heads_for :: "bool grid \<Rightarrow> vec3 \<Rightarrow> bool" where
  "heads_for g v \<longleftrightarrow> (\<exists>xs s t p. grid_walk g s t xs \<and> p \<in> set xs \<and> v = point2position p)"

lemma heads_for_nth: "grid_walk g s t xs \<Longrightarrow> i < length xs \<Longrightarrow> heads_for g (point2position (xs ! i))"
  unfolding heads_for_def using nth_mem by blast

definition chase_ok :: "bool grid \<Rightarrow> entity \<Rightarrow> monster_data \<Rightarrow> bool" where
  "chase_ok g e d \<longleftrightarrow> mo_state d = CHASING \<longrightarrow>
     (\<exists>s t. grid_walk g s t (mo_chasing_path d)) \<and> mo_chasing_path_index d \<le> length (mo_chasing_path d)
     \<and> heads_for g (target_position e)"

text \<open>The transitions of the monster's own state.\<close>

definition monster_arc :: "monster_state \<Rightarrow> monster_state \<Rightarrow> bool" where
  "monster_arc s s' \<longleftrightarrow> s' = s \<or>
     (s, s') \<in> {(IDLE, CHASING), (CHASING, IDLE), (CHASING, ATTACKING), (ATTACKING, IDLE)}"

text \<open>\<open>h'\<close> is \<open>h\<close> but for the entity at \<open>a\<close>, a monster that has kept the laws above.\<close>

definition monster_post :: "bool grid \<Rightarrow> addr \<Rightarrow> monster_data \<Rightarrow> heap \<Rightarrow> heap \<Rightarrow> bool" where
  "monster_post g a d h h' \<longleftrightarrow>
     (\<exists>e' d'. entity_at h' a = Some e' \<and> en_class e' = Monster_class d' \<and> chase_ok g e' d'
        \<and> monster_arc (mo_state d) (mo_state d')) \<and> (\<forall>b. b \<noteq> a \<longrightarrow> h' b = h b)"

lemma monster_postI:
  assumes "h a \<noteq> None" "chase_ok g e' d'" "monster_arc (mo_state d) (mo_state d')"
  shows "monster_post g a d h (set_monster a e' d' h)"
proof -
  have "chase_ok g (e'\<lparr>en_class := Monster_class d'\<rparr>) d'" using assms(2) by (simp add: chase_ok_def)
  then show ?thesis
    using assms by (auto simp: monster_post_def set_monster_def heap_simps)
      (auto simp: set_entity_def split: option.splits)
qed

lemma monster_path_ok:
  assumes "monster_path pick sw v w = Some r" "wf_grid (sw_obstacles_grid sw)"
  shows "\<exists>path. r = Inr path \<and> (path \<noteq> [] \<longrightarrow> (\<exists>s t. grid_walk (sw_obstacles_grid sw) s t path))"
proof -
  obtain s t where "find_path pick (sw_obstacles_grid sw) s t ASTAR = Some r"
    using assms(1) by (auto simp: monster_path_def bind_eq_Some_conv)
  then show ?thesis by (rule_tac astar_grid_cases[OF assms(2), of pick s t]) auto
qed

lemma map_sum_Inr: "map_sum id f r = Inr y \<longleftrightarrow> (\<exists>x. r = Inr x \<and> y = f x)"
  by (cases r) auto

lemma monster_idle_ok:
  assumes "monster_idle gl pick tie now sw a n e d h = Some (Inr h')" "wf_grid (sw_obstacles_grid sw)"
    and "entity_at h a = Some e" "en_class e = Monster_class d" "mo_state d = IDLE"
  shows "monster_post (sw_obstacles_grid sw) a d h h'"
proof (cases "h' = h")
  case True
  then show ?thesis using assms(3-5) by (auto simp: monster_post_def chase_ok_def monster_arc_def)
next
  case False
  have "\<exists>r (rn :: node) path. monster_path pick sw (position n) (position rn) = Some (Inr path)
      \<and> h' = start_chase now a e d r path h"
    using assms(1) False by (auto simp: monster_idle_def bind_eq_Some_conv map_sum_Inr split: if_splits)
  then obtain r path and rn :: node where "monster_path pick sw (position n) (position rn) = Some (Inr path)"
    and h': "h' = start_chase now a e d r path h"
    by blast
  from monster_path_ok[OF this(1) assms(2)] have walk: "path \<noteq> [] \<longrightarrow> (\<exists>s t. grid_walk (sw_obstacles_grid sw) s t path)"
    by simp
  have live: "h a \<noteq> None" using entity_at_dom[OF assms(3)] .
  show ?thesis
  proof (cases path)
    case Nil
    then show ?thesis
      using live by (auto simp: h' start_chase_def assms(5) chase_ok_def monster_arc_def intro!: monster_postI)
  next
    case (Cons p ps)
    then obtain s t where w: "grid_walk (sw_obstacles_grid sw) s t (p # ps)" using walk by blast
    then have "heads_for (sw_obstacles_grid sw) (point2position p)"
      using heads_for_nth[OF w, of 0] by simp
    moreover have "\<exists>s t. grid_walk (sw_obstacles_grid sw) s t (p # ps)" using w by blast
    ultimately show ?thesis
      using live by (simp add: h' start_chase_def Cons)
        (rule monster_postI, simp_all add: chase_ok_def monster_arc_def assms(5))
  qed
qed

lemma monster_follow_ok:
  assumes "monster_follow gl a n e d target h = Some h'"
    and "h a \<noteq> None" "mo_state d = CHASING" "chase_ok g e d" "mo_state d0 = CHASING"
  shows "monster_post g a d0 h h'"
proof -
  from assms(1) consider
    s where "s \<in> {ATTACKING, IDLE}" "h' = set_monster a e (d\<lparr>mo_state := s\<rparr>) h"
    | "h' = set_monster a e d h"
    | i where "i = mo_chasing_path_index d + 1" "i \<le> length (mo_chasing_path d)"
      "h' = set_monster a (if i < length (mo_chasing_path d) then e\<lparr>target_position := point2position (mo_chasing_path d ! i)\<rparr> else e)
        (d\<lparr>mo_chasing_path_index := i\<rparr>) h"
    by (auto simp: monster_follow_def Let_def split: if_splits)
  then show ?thesis
  proof cases
    case 1
    then show ?thesis using assms by (auto simp: chase_ok_def monster_arc_def intro!: monster_postI)
  next
    case 2
    then show ?thesis using assms by (auto simp: monster_arc_def intro!: monster_postI)
  next
    case 3
    then have "chase_ok g (if i < length (mo_chasing_path d) then e\<lparr>target_position := point2position (mo_chasing_path d ! i)\<rparr> else e)
        (d\<lparr>mo_chasing_path_index := i\<rparr>)"
      using assms(3,4) by (auto simp: chase_ok_def heads_for_nth)
    then show ?thesis using 3 assms by (auto simp: monster_arc_def intro!: monster_postI)
  qed
qed

lemma monster_chasing_ok:
  assumes "monster_chasing gl pick now sw a n e d h = Some (Inr h')" "wf_grid (sw_obstacles_grid sw)"
    and "entity_at h a = Some e" "mo_state d = CHASING" "chase_ok (sw_obstacles_grid sw) e d"
  shows "monster_post (sw_obstacles_grid sw) a d h h'"
proof -
  let ?g = "sw_obstacles_grid sw"
  have live: "h a \<noteq> None" using entity_at_dom[OF assms(3)] .
  have idle: "monster_post ?g a d h (set_monster a e (d'\<lparr>mo_state := IDLE\<rparr>) h)" for d' :: monster_data
    using assms(4) live by (auto simp: chase_ok_def monster_arc_def intro!: monster_postI)
  obtain gone where gone: "target_gone sw d h = Some gone"
    using assms(1) by (auto simp: monster_chasing_def bind_eq_Some_conv)
  show ?thesis
  proof (cases gone)
    case True
    then show ?thesis using assms(1) gone idle[of d] by (auto simp: monster_chasing_def)
  next
    case False
    obtain target where target: "mo_chasing_target d = Some target"
      using assms(1) gone False by (auto simp: monster_chasing_def bind_eq_Some_conv)
    show ?thesis
    proof (cases "now > mo_chasing_started d + 3000")
      case True
      obtain tn res where tn: "h target = Some tn" and res: "monster_path pick sw (position n) (position tn) = Some res"
        using assms(1) gone False target True by (auto simp: monster_chasing_def bind_eq_Some_conv)
      from monster_path_ok[OF res assms(2)] obtain path where path: "res = Inr path"
        "path \<noteq> [] \<longrightarrow> (\<exists>s t. grid_walk ?g s t path)" by blast
      let ?d = "d\<lparr>mo_chasing_path := path, mo_chasing_path_index := 0, mo_chasing_started := now\<rparr>"
      show ?thesis
      proof (cases "path = []")
        case True
        then show ?thesis
          using assms(1) gone False target \<open>now > _\<close> tn res path(1) idle[of ?d]
          by (simp add: monster_chasing_def)
      next
        case ne: False
        then have f: "monster_follow gl a n e ?d target h = Some h'"
          using assms(1) gone False target \<open>now > _\<close> tn res path(1) by (simp add: monster_chasing_def)
        have "chase_ok ?g e ?d" using assms(4,5) path(2) ne by (simp add: chase_ok_def)
        then show ?thesis using monster_follow_ok[OF f live] assms(4) by simp
      qed
    next
      case False
      then have "monster_follow gl a n e d target h = Some h'"
        using assms(1) gone \<open>\<not> gone\<close> target by (simp add: monster_chasing_def)
      from monster_follow_ok[OF this live] assms(4,5) show ?thesis by simp
    qed
  qed
qed

text \<open>Attacking changes others, but the attacker only in its state machine.\<close>

lemma melee_use_attacker:
  assumes "melee_use gl now z a weapon (h, cs) = Some (h', cs')" "entity_at h a = Some e"
    and "resources_ok h" "0 \<le> fist_damage weapon"
  shows "\<exists>sm. entity_at h' a = Some (e\<lparr>state_machine := sm\<rparr>)"
proof -
  obtain ok sm u where t: "sm_try_transition ''Attacking'' (state_machine e) () = Some (ok, sm, u)"
    using assms(1,2) by (auto simp: melee_use_def bind_eq_Some_conv)
  then have "sm_try_transition ''Attacking'' (state_machine e) () = Some (ok, sm, ())" by simp
  from melee_effect[OF assms(1,2) this assms(3,4)] assms(2) show ?thesis
    by (cases ok) (auto, metis entity.surjective entity.update_convs(3))
qed

lemma monster_attacking_ok:
  assumes "monster_attacking gl now z a n e d (h, cs) = Some (h', cs')"
    and "entity_at h a = Some e" "en_class e = Monster_class d" "mo_state d = ATTACKING"
    and "resources_ok h" "0 \<le> fist_damage (mo_weapon d)"
  shows "\<exists>e' d'. entity_at h' a = Some e' \<and> en_class e' = Monster_class d' \<and> chase_ok g e' d'
    \<and> monster_arc (mo_state d) (mo_state d')"
proof -
  have live: "h a \<noteq> None" using entity_at_dom[OF assms(2)] .
  have "(h', cs') = (set_monster a e (d\<lparr>mo_state := IDLE\<rparr>) h, cs) \<or>
    (\<exists>v. melee_use gl now z a (mo_weapon d) (set_entity a (e\<lparr>target_position := v\<rparr>) h, cs) = Some (h', cs'))"
    using assms(1) by (auto simp: monster_attacking_def bind_eq_Some_conv split: if_splits)
  then show ?thesis
  proof
    assume "(h', cs') = (set_monster a e (d\<lparr>mo_state := IDLE\<rparr>) h, cs)"
    then show ?thesis using live assms(4) by (auto simp: set_monster_def heap_simps chase_ok_def monster_arc_def)
  next
    assume "\<exists>v. melee_use gl now z a (mo_weapon d) (set_entity a (e\<lparr>target_position := v\<rparr>) h, cs) = Some (h', cs')"
    then obtain v where use: "melee_use gl now z a (mo_weapon d) (set_entity a (e\<lparr>target_position := v\<rparr>) h, cs) = Some (h', cs')"
      by blast
    have ok: "resources_ok (set_entity a (e\<lparr>target_position := v\<rparr>) h)"
      using assms(2,5) by (auto simp: resources_ok_def heap_simps)
    from melee_use_attacker[OF use _ ok assms(6), of "e\<lparr>target_position := v\<rparr>"] live
    show ?thesis using assms(3,4) by (auto simp: heap_simps chase_ok_def monster_arc_def)
  qed
qed


text \<open>A monster that finds a player on its own cell.\<close>

definition hunter_data :: monster_data where
  "hunter_data = \<lparr>mo_state = IDLE, mo_weapon = duel_fist, mo_detection_area = 7, mo_chasing_target = None,
     mo_chasing_path = [], mo_chasing_path_index = 0, mo_chasing_started = 0\<rparr>"

definition hunter :: entity where
  "hunter = (duelist 2 10)\<lparr>movement_mode := TARGET, en_class := Monster_class hunter_data\<rparr>"

definition hunt_heap :: heap where
  "hunt_heap =
     [0 \<mapsto> plain_node_at 1 zero3 None [1] (Entity_object (duelist 1 100)),
      1 \<mapsto> plain_node_at 2 zero3 (Some 0) [2] (Collider 2 (layer_entities OR layer_players) 0),
      2 \<mapsto> plain_node_at 3 zero3 (Some 1) [] (Sphere_shape (F_zero False)),
      4 \<mapsto> plain_node_at 5 zero3 None [7] (Entity_object hunter),
      7 \<mapsto> plain_node_at 8 zero3 (Some 4) [] (Sphere_shape (F_zero False))]"

definition hunt_zone :: zone where
  "hunt_zone = duel_zone\<lparr>zn_subworld := (zn_subworld duel_zone)\<lparr>sw_collision_objects := [(2, 1)]\<rparr>\<rparr>"

definition monster_state_at :: "heap \<Rightarrow> addr \<Rightarrow> monster_state option" where
  "monster_state_at h a =
     (case entity_at h a of
        Some e \<Rightarrow> (case en_class e of Monster_class d \<Rightarrow> Some (mo_state d) | _ \<Rightarrow> None)
      | None \<Rightarrow> None)"

lemma hunt_tick:
  "\<exists>h' cs'. simple_monster_tick sample_glm (\<lambda>_. 0) 0 0 hunt_zone 4 (hunt_heap, duel_clients) = Some (Inr (h', cs'))
     \<and> monster_state_at h' 4 = Some CHASING"
proof -
  have "(case simple_monster_tick sample_glm (\<lambda>_. 0) 0 0 hunt_zone 4 (hunt_heap, duel_clients) of
      Some (Inr (h', cs')) \<Rightarrow> monster_state_at h' 4 = Some CHASING | _ \<Rightarrow> False)"
    by code_simp
  then show ?thesis by (auto split: option.splits sum.splits)
qed


end
