(* ===== verification/Zone.thy ===== *)
theory Zone
  imports Monster
begin

text \<open>
  The handlers of \<open>Zone\<close> (\<open>tower/network/zone.cpp\<close>): every job that is posted to the zone's strand, on
  the state of the zone, the heap of nodes and the store of clients. A job is undefined behaviour
  (\<open>None\<close>) where the code dereferences a null or dangling pointer.
\<close>

type_synonym zone_state = "zone \<times> heap \<times> clients"

section \<open>Spawn messages\<close>

definition player_spawn_of :: "heap \<Rightarrow> bool \<Rightarrow> addr \<Rightarrow> player_spawn option" where
  "player_spawn_of h is_mine a =
     (case entity_at h a of
        None \<Rightarrow> None
      | Some e \<Rightarrow>
          (case en_class e of
             Player_class d \<Rightarrow>
               Some \<lparr>ps_is_mine = is_mine, ps_entity_id = entity_id e, ps_info = write_player_info e d\<rparr>
           | Monster_class _ \<Rightarrow> None))"

definition client_player :: "clients \<Rightarrow> addr \<Rightarrow> addr option" where
  "client_player cs c = Option.bind (cs c) cl_player"

text \<open>The loop over the clients of the zone that collects the spawns of the other players.\<close>

definition other_players :: "heap \<Rightarrow> clients \<Rightarrow> u32 \<Rightarrow> addr list \<Rightarrow> player_spawn list option" where
  "other_players h cs me members =
     fold_opt (\<lambda>c spawns. do {
         a \<leftarrow> client_player cs c;
         e \<leftarrow> entity_at h a;
         if entity_id e = me then Some spawns
         else do { sp \<leftarrow> player_spawn_of h False a; Some (spawns @ [sp]) }
       }) members []"

definition entity_spawn_of :: "heap \<Rightarrow> u32 \<Rightarrow> addr \<Rightarrow> entity_spawn option" where
  "entity_spawn_of h i a = do {
     n \<leftarrow> h a;
     e \<leftarrow> entity_at h a;
     Some \<lparr>es_type = en_type e, es_entity_id = i, es_position = position n, es_rotation = rotation n,
           es_health = health (resource e), es_max_health = max_health (resource e)\<rparr>
   }"

definition entity_spawns :: "heap \<Rightarrow> (u32, addr) umap \<Rightarrow> entity_spawn list option" where
  "entity_spawns h es =
     fold_opt (\<lambda>(i, a) spawns. do {
         n \<leftarrow> h a;
         if is_player (object n) then Some spawns
         else do { sp \<leftarrow> entity_spawn_of h i a; Some (spawns @ [sp]) }
       }) es []"

section \<open>Clients come and go\<close>

text \<open>Division of an \<open>int\<close> by two truncates towards zero.\<close>

definition half :: "int \<Rightarrow> int" where
  "half x = (if x < 0 then - ((- x) div 2) else x div 2)"

definition spawn_point :: "subworld \<Rightarrow> vec3" where
  "spawn_point sw = mk_vec (f_of_int (half (size_x sw))) (F_zero False) (f_of_int (half (size_z sw)))"

definition zone_add_client :: "addr \<Rightarrow> zone_state \<Rightarrow> zone_state option" where
  "zone_add_client c st = do {
     let (z, h, cs) = st;
     cl \<leftarrow> cs c;
     let z = (if zn_clients z = [] then zone_start z else z);
     let z = z\<lparr>zn_clients := um_assign (client_id cl) c (zn_clients z)\<rparr>;
     pl \<leftarrow> cl_player cl;
     pe \<leftarrow> entity_at h pl;
     let h = set_position pl (spawn_point (zn_subworld z)) h;
     sw \<leftarrow> add_entity h pl (zn_subworld z);
     let z = z\<lparr>zn_subworld := sw\<rparr>;
     players \<leftarrow> other_players h cs (entity_id pe) (um_values (zn_clients z));
     cs \<leftarrow> send_to c (Out_PlayerSpawns players) cs;
     entities \<leftarrow> entity_spawns h (sw_entities sw);
     cs \<leftarrow> send_to c (Out_EntitySpawns entities) cs;
     spawn \<leftarrow> player_spawn_of h False pl;
     cs \<leftarrow> broadcast (Out_PlayerSpawn spawn) (client_id cl) z cs;
     Some (z, h, cs)
   }"

definition zone_remove_client :: "addr \<Rightarrow> zone_state \<Rightarrow> zone_state option" where
  "zone_remove_client c st = do {
     let (z, h, cs) = st;
     cl \<leftarrow> cs c;
     if \<not> um_contains (zn_clients z) (client_id cl) then Some (z, h, cs)
     else do {
       pl \<leftarrow> cl_player cl;
       sw \<leftarrow> remove_entity h pl (zn_subworld z);
       let z = z\<lparr>zn_subworld := sw, zn_clients := um_erase (client_id cl) (zn_clients z)\<rparr>;
       pe \<leftarrow> entity_at h pl;
       cs \<leftarrow> broadcast (Out_EntityDespawn (entity_id pe)) 0 z cs;
       Some (if zn_clients z = [] then zone_stop z else z, h, cs)
     }
   }"

section \<open>Packets\<close>

definition handle_player_movement :: "glm \<Rightarrow> addr \<Rightarrow> f32 \<times> f32 \<Rightarrow> zone_state \<Rightarrow> zone_state option" where
  "handle_player_movement gl c dir st =
     (case (dir, st) of ((dir_x, dir_z), (z, h, cs)) \<Rightarrow>
        if f_isnan dir_x \<or> f_isnan dir_z then Some (z, h, cs)
        else do {
          pl \<leftarrow> client_player cs c;
          e \<leftarrow> entity_at h pl;
          let v = mk_vec dir_x (F_zero False) dir_z;
          let moving = (\<not> g_eps3 gl v zero3 epsilon);
          let v = (if moving then g_normalize gl v else v);
          let h = (if moving then set_rotation pl (g_atan2 gl (vx v) (vz v)) h else h);
          Some (z, set_entity pl (e\<lparr>target_direction := v\<rparr>) h, cs)
        })"

definition handle_skill_melee_attack :: "glm \<Rightarrow> int \<Rightarrow> addr \<Rightarrow> zone_state \<Rightarrow> zone_state option" where
  "handle_skill_melee_attack gl now c st = do {
     let (z, h, cs) = st;
     pl \<leftarrow> client_player cs c;
     e \<leftarrow> entity_at h pl;
     case en_class e of
       Monster_class _ \<Rightarrow> None
     | Player_class d \<Rightarrow>
         (case get_main_weapon d of
            Some (Fist_item weapon) \<Rightarrow> map_option (\<lambda>st. (z, st)) (melee_use gl now z pl weapon (h, cs))
          | _ \<Rightarrow> Some (z, h, cs))
   }"

definition zone_handle_packet :: "glm \<Rightarrow> int \<Rightarrow> addr \<Rightarrow> in_packet \<Rightarrow> zone_state \<Rightarrow> zone_state option" where
  "zone_handle_packet gl now c p st = do {
     let (z, h, cs) = st;
     cl \<leftarrow> cs c;
     if \<not> um_contains (zn_clients z) (client_id cl) then Some (z, h, cs)
     else case p of
       In_PlayerMovement None \<Rightarrow> None
     | In_PlayerMovement (Some dir) \<Rightarrow> handle_player_movement gl c dir (z, h, cs)
     | In_SkillMeleeAttack \<Rightarrow> handle_skill_melee_attack gl now c (z, h, cs)
     | _ \<Rightarrow> Some (z, h, cs)
   }"

section \<open>tick\<close>

text \<open>What a tick reads from outside: the clock for the throttle, the tie-breaking choices and the clock of
  each entity, and the clock at the end.\<close>

record tick_inputs =
  ti_now :: int
  ti_pick :: "addr \<Rightarrow> nat \<Rightarrow> nat"
  ti_tie :: "addr \<Rightarrow> nat"
  ti_clock :: "addr \<Rightarrow> int"
  ti_end :: int

text \<open>The virtual call \<open>entity->tick(this)\<close>; a player's is empty.\<close>

definition entity_tick ::
  "glm \<Rightarrow> tick_inputs \<Rightarrow> zone \<Rightarrow> addr \<Rightarrow> heap \<times> clients \<Rightarrow> (heap \<times> clients) result option" where
  "entity_tick gl ti z a st =
     (case entity_at (fst st) a of
        None \<Rightarrow> None
      | Some e \<Rightarrow>
          (case en_class e of
             Player_class _ \<Rightarrow> Some (Inr st)
           | Monster_class _ \<Rightarrow> simple_monster_tick gl (ti_pick ti a) (ti_tie ti a) (ti_clock ti a) z a st))"

primrec entities_tick ::
  "glm \<Rightarrow> tick_inputs \<Rightarrow> zone \<Rightarrow> addr list \<Rightarrow> heap \<times> clients \<Rightarrow> (heap \<times> clients) result option" where
  "entities_tick gl ti z [] st = Some (Inr st)"
| "entities_tick gl ti z (a # as) st =
     (case entity_tick gl ti z a st of
        None \<Rightarrow> None
      | Some (Inl ex) \<Rightarrow> Some (Inl ex)
      | Some (Inr st') \<Rightarrow> entities_tick gl ti z as st')"

definition movement_of :: "heap \<Rightarrow> addr \<Rightarrow> (u32 \<times> vec3 \<times> vec3) option" where
  "movement_of h a = do {
     n \<leftarrow> h a;
     e \<leftarrow> entity_at h a;
     Some (entity_id e, position n, target_direction e)
   }"

definition zone_tick :: "glm \<Rightarrow> tick_inputs \<Rightarrow> zone_state \<Rightarrow> zone_state result option" where
  "zone_tick gl ti st =
     (case st of (z, h, cs) \<Rightarrow>
        if \<not> zn_running z then Some (Inr (z, h, cs))
        else if ti_now ti < zn_last_tick z + TICK_INTERVAL then Some (Inr (zone_post Job_tick z, h, cs))
        else do {
          (sw, h, _) \<leftarrow> subworld_tick gl (zn_subworld z) h;
          let z = z\<lparr>zn_subworld := sw\<rparr>;
          res \<leftarrow> entities_tick gl ti z (um_values (sw_entities sw)) (h, cs);
          case res of
            Inl ex \<Rightarrow> Some (Inl ex)
          | Inr (h, cs) \<Rightarrow> do {
              movements \<leftarrow> those (map (movement_of h) (um_values (sw_entities sw)));
              cs \<leftarrow> broadcast (Out_EntityMovements movements) 0 z cs;
              Some (Inr (zone_post Job_tick (z\<lparr>zn_last_tick := ti_end ti\<rparr>), h, cs))
            }
        })"

section \<open>The strand\<close>

definition zone_exec :: "glm \<Rightarrow> tick_inputs \<Rightarrow> zone_job \<Rightarrow> zone_state \<Rightarrow> zone_state result option" where
  "zone_exec gl ti j st =
     (case j of
        Job_tick \<Rightarrow> zone_tick gl ti st
      | Job_add c \<Rightarrow> map_option Inr (zone_add_client c st)
      | Job_remove c \<Rightarrow> map_option Inr (zone_remove_client c st)
      | Job_packet c p \<Rightarrow> map_option Inr (zone_handle_packet gl (ti_now ti) c p st))"

text \<open>The strand runs its first job.\<close>

definition zone_step :: "glm \<Rightarrow> tick_inputs \<Rightarrow> zone_state \<Rightarrow> zone_state result option" where
  "zone_step gl ti st =
     (case st of (z, h, cs) \<Rightarrow>
        (case zn_strand z of
           [] \<Rightarrow> None
         | j # js \<Rightarrow> zone_exec gl ti j (z\<lparr>zn_strand := js\<rparr>, h, cs)))"

section \<open>Running exactly while there are clients\<close>

text \<open>The invariant of a zone: it runs exactly while it has clients, and while it runs a tick is posted.\<close>

definition zone_inv :: "zone \<Rightarrow> bool" where
  "zone_inv z \<longleftrightarrow> um_ok (zn_clients z) \<and> (zn_running z \<longleftrightarrow> zn_clients z \<noteq> [])
     \<and> (zn_running z \<longrightarrow> Job_tick \<in> set (zn_strand z))"

lemma zone_post_simps [simp]:
  "zn_running (zone_post j z) = zn_running z" "zn_clients (zone_post j z) = zn_clients z"
  "zn_subworld (zone_post j z) = zn_subworld z" "zn_strand (zone_post j z) = zn_strand z @ [j]"
  "zn_last_tick (zone_post j z) = zn_last_tick z" "zone_id (zone_post j z) = zone_id z"
  by (simp_all add: zone_post_def)

lemma zone_inv_post: "zone_inv z \<Longrightarrow> zone_inv (zone_post j z)"
  by (auto simp: zone_inv_def)

lemma um_erase_Nil [simp]: "um_erase k [] = []"
  by (simp add: um_erase_def)

lemma um_assign_ne [simp]: "um_assign k v m \<noteq> []" "[] \<noteq> um_assign k v m"
  using update_nonempty[of k v m] by (metis um_assign_def)+

end
