(* ===== verification/Zone_Correct.thy ===== *)
theory Zone_Correct
  imports Zone
begin

text \<open>
  What the zones guarantee: a zone runs exactly while it has clients and never loses its tick; its ticks
  are throttled, even when two chains of tick jobs are alive; a newcomer and the others are told about each
  other; nobody but the members of the zone is sent anything; and what goes wrong when a client joins twice.
\<close>

section \<open>What each job does to the record of the zone\<close>

lemma zone_start_simps [simp]:
  "zn_clients (zone_start z) = zn_clients z" "zn_subworld (zone_start z) = zn_subworld z"
  "zn_last_tick (zone_start z) = zn_last_tick z" "zn_running (zone_start z)"
  "zn_strand (zone_start z) = zn_strand z @ (if zn_running z then [] else [Job_tick])"
  by (simp_all add: zone_start_def)

lemma zone_stop_simps [simp]:
  "zn_clients (zone_stop z) = zn_clients z" "zn_subworld (zone_stop z) = zn_subworld z"
  "zn_last_tick (zone_stop z) = zn_last_tick z" "\<not> zn_running (zone_stop z)"
  "zn_strand (zone_stop z) = zn_strand z"
  by (simp_all add: zone_stop_def)

lemma zone_add_client_frame:
  assumes "zone_add_client c (z, h, cs) = Some (z', h', cs')"
  shows "\<exists>cl. cs c = Some cl \<and> zn_clients z' = um_assign (client_id cl) c (zn_clients z)"
    and "zn_running z' = (zn_clients z = [] \<or> zn_running z)"
    and "zn_strand z' = zn_strand z @ (if zn_clients z = [] \<and> \<not> zn_running z then [Job_tick] else [])"
    and "zn_last_tick z' = zn_last_tick z"
  using assms by (auto simp: zone_add_client_def bind_eq_Some_conv Let_def split: if_splits)

lemma zone_remove_client_frame:
  assumes "zone_remove_client c (z, h, cs) = Some (z', h', cs')"
  shows "\<exists>cl. cs c = Some cl \<and> zn_clients z' = um_erase (client_id cl) (zn_clients z)"
    and "zn_running z' = (zn_running z \<and> (zn_clients z' \<noteq> [] \<or> zn_clients z = []))"
    and "zn_strand z' = zn_strand z" "zn_last_tick z' = zn_last_tick z"
proof -
  obtain cl where cl: "cs c = Some cl" using assms by (auto simp: zone_remove_client_def bind_eq_Some_conv)
  have "zn_clients z' = um_erase (client_id cl) (zn_clients z)
    \<and> zn_running z' = (zn_running z \<and> (zn_clients z' \<noteq> [] \<or> zn_clients z = []))
    \<and> zn_strand z' = zn_strand z \<and> zn_last_tick z' = zn_last_tick z"
  proof (cases "um_contains (zn_clients z) (client_id cl)")
    case True
    then have ne: "zn_clients z \<noteq> []" by (auto simp: um_contains_def)
    let ?z = "\<lambda>sw. z\<lparr>zn_subworld := sw, zn_clients := um_erase (client_id cl) (zn_clients z)\<rparr>"
    obtain sw where "z' = (if zn_clients (?z sw) = [] then zone_stop (?z sw) else ?z sw)"
      using assms cl True by (auto simp: zone_remove_client_def bind_eq_Some_conv Let_def)
    then show ?thesis using ne by simp
  next
    case False
    then show ?thesis using assms cl by (auto simp: zone_remove_client_def um_contains_def um_erase_absent)
  qed
  then show "\<exists>cl. cs c = Some cl \<and> zn_clients z' = um_erase (client_id cl) (zn_clients z)"
    and "zn_running z' = (zn_running z \<and> (zn_clients z' \<noteq> [] \<or> zn_clients z = []))"
    and "zn_strand z' = zn_strand z" "zn_last_tick z' = zn_last_tick z"
    using cl by blast+
qed

lemma handle_skill_melee_attack_cases:
  assumes "handle_skill_melee_attack gl now c (z, h, cs) = Some (z', h', cs')"
  shows "z' = z \<and> ((h', cs') = (h, cs) \<or> (\<exists>pl w. melee_use gl now z pl w (h, cs) = Some (h', cs')))"
proof -
  obtain pl e where pl: "client_player cs c = Some pl" "entity_at h pl = Some e"
    using assms by (auto simp: handle_skill_melee_attack_def bind_eq_Some_conv)
  then show ?thesis
    using assms by (auto simp: handle_skill_melee_attack_def
        split: entity_class.split_asm option.split_asm equipment.split_asm)
qed

lemma zone_handle_packet_frame:
  assumes "zone_handle_packet gl now c p (z, h, cs) = Some (z', h', cs')"
  shows "z' = z"
proof -
  obtain cl where cl: "cs c = Some cl" using assms by (auto simp: zone_handle_packet_def bind_eq_Some_conv)
  show ?thesis
    using assms handle_skill_melee_attack_cases[of gl now c z h cs z' h' cs']
    by (auto simp: zone_handle_packet_def cl handle_player_movement_def bind_eq_Some_conv Let_def
        split: if_split_asm in_packet.split_asm option.split_asm)
qed

text \<open>A tick does something unless the zone is stopped or the throttle holds it back.\<close>

definition tick_due :: "tick_inputs \<Rightarrow> zone \<Rightarrow> bool" where
  "tick_due ti z \<longleftrightarrow> zn_running z \<and> ti_now ti \<ge> zn_last_tick z + TICK_INTERVAL"

lemma zone_tick_cases:
  assumes "zone_tick gl ti (z, h, cs) = Some (Inr (z', h', cs'))"
  obtains (stopped) "\<not> zn_running z" "(z', h', cs') = (z, h, cs)"
    | (early) "zn_running z" "\<not> tick_due ti z" "(z', h', cs') = (zone_post Job_tick z, h, cs)"
    | (tick) sw h1 evs cs1 movements where "tick_due ti z"
        "subworld_tick gl (zn_subworld z) h = Some (sw, h1, evs)"
        "entities_tick gl ti (z\<lparr>zn_subworld := sw\<rparr>) (um_values (sw_entities sw)) (h1, cs) = Some (Inr (h', cs1))"
        "those (map (movement_of h') (um_values (sw_entities sw))) = Some movements"
        "broadcast (Out_EntityMovements movements) 0 (z\<lparr>zn_subworld := sw\<rparr>) cs1 = Some cs'"
        "z' = zone_post Job_tick (z\<lparr>zn_subworld := sw, zn_last_tick := ti_end ti\<rparr>)"
proof (cases "tick_due ti z")
  case True
  then obtain sw h1 evs res where t: "subworld_tick gl (zn_subworld z) h = Some (sw, h1, evs)"
    and e: "entities_tick gl ti (z\<lparr>zn_subworld := sw\<rparr>) (um_values (sw_entities sw)) (h1, cs) = Some res"
    using assms by (auto simp: zone_tick_def tick_due_def bind_eq_Some_conv Let_def)
  then obtain h2 cs1 where r: "res = Inr (h2, cs1)"
    using assms True by (cases res) (auto simp: zone_tick_def tick_due_def)
  obtain movements where m: "those (map (movement_of h2) (um_values (sw_entities sw))) = Some movements"
    using assms True t e r by (auto simp: zone_tick_def tick_due_def bind_eq_Some_conv Let_def)
  have "broadcast (Out_EntityMovements movements) 0 (z\<lparr>zn_subworld := sw\<rparr>) cs1 = Some cs' \<and> h' = h2
    \<and> z' = zone_post Job_tick (z\<lparr>zn_subworld := sw, zn_last_tick := ti_end ti\<rparr>)"
    using assms True t e r m by (auto simp: zone_tick_def tick_due_def bind_eq_Some_conv Let_def)
  with True t e r m show thesis by (intro tick) auto
next
  case False
  then show thesis using assms stopped early
    by (auto simp: zone_tick_def tick_due_def split: if_splits)
qed

lemma zone_tick_frame:
  assumes "zone_tick gl ti (z, h, cs) = Some (Inr (z', h', cs'))"
  shows "zn_clients z' = zn_clients z" "zn_running z' = zn_running z"
    and "zn_strand z' = zn_strand z @ (if zn_running z then [Job_tick] else [])"
    and "zn_last_tick z' = (if tick_due ti z then ti_end ti else zn_last_tick z)"
  using assms by (cases rule: zone_tick_cases; auto simp: tick_due_def)+

lemma zone_exec_inv:
  assumes "zone_exec gl ti j (z\<lparr>zn_strand := js\<rparr>, h, cs) = Some (Inr (z', h', cs'))"
    and "zone_inv z" "zn_strand z = j # js"
  shows "zone_inv z'"
  using assms(1)
proof (cases j)
  case Job_tick
  then show ?thesis using assms zone_tick_frame[of gl ti "z\<lparr>zn_strand := js\<rparr>" h cs z' h' cs']
    by (auto simp: zone_exec_def zone_inv_def)
next
  case (Job_add c)
  then have "zone_add_client c (z\<lparr>zn_strand := js\<rparr>, h, cs) = Some (z', h', cs')"
    using assms(1) by (simp add: zone_exec_def)
  from zone_add_client_frame[OF this] show ?thesis
    using assms(2,3) Job_add by (auto simp: zone_inv_def)
next
  case (Job_remove c)
  then have "zone_remove_client c (z\<lparr>zn_strand := js\<rparr>, h, cs) = Some (z', h', cs')"
    using assms(1) by (simp add: zone_exec_def)
  from zone_remove_client_frame[OF this] show ?thesis
    using assms(2,3) Job_remove by (auto simp: zone_inv_def)
next
  case (Job_packet c p)
  then have "zone_handle_packet gl (ti_now ti) c p (z\<lparr>zn_strand := js\<rparr>, h, cs) = Some (z', h', cs')"
    using assms(1) by (simp add: zone_exec_def)
  from zone_handle_packet_frame[OF this] show ?thesis
    using assms(2,3) Job_packet by (auto simp: zone_inv_def)
qed

section \<open>All runs of a zone\<close>

text \<open>The states a zone can reach, with the clock readings at the start and the end of its effective ticks,
  latest first. The clock does not run backwards within a tick. Between two jobs, other threads may post
  jobs (but not ticks), change the heap and the clients, and add entities to the subworld.\<close>

inductive zone_reach :: "glm \<Rightarrow> zone_state \<Rightarrow> (int \<times> int) list \<Rightarrow> bool" for gl where
  created: "zone_create i file = Some (Some z) \<Longrightarrow> zone_reach gl (z, h, cs) []"
| posted: "zone_reach gl (z, h, cs) ticks \<Longrightarrow> j \<noteq> Job_tick \<Longrightarrow> zone_reach gl (zone_post j z, h, cs) ticks"
| others: "zone_reach gl (z, h, cs) ticks \<Longrightarrow> zone_reach gl (z\<lparr>zn_subworld := sw\<rparr>, h', cs') ticks"
| step: "zone_reach gl (z, h, cs) ticks \<Longrightarrow> zone_step gl ti (z, h, cs) = Some (Inr st') \<Longrightarrow> ti_now ti \<le> ti_end ti
    \<Longrightarrow> ticks' = (if hd (zn_strand z) = Job_tick \<and> tick_due ti z then (ti_now ti, ti_end ti) # ticks else ticks)
    \<Longrightarrow> zone_reach gl st' ticks'"

lemma zone_create_frame:
  assumes "zone_create i file = Some (Some z)"
  shows "zn_clients z = []" "\<not> zn_running z" "zn_strand z = []" "zn_last_tick z = 0" "zone_id z = i"
  using assms by (auto simp: zone_create_def split: zone_file.splits option.splits if_splits)

lemma zone_reach_inv: "zone_reach gl st ticks \<Longrightarrow> zone_inv (fst st)"
proof (induction rule: zone_reach.induct)
  case (created i f z h cs)
  then show ?case using zone_create_frame[OF created] by (simp add: zone_inv_def)
next
  case (step z h cs ticks ti st' ticks')
  obtain z' h' cs' where st': "st' = (z', h', cs')" by (cases st')
  obtain j js where s: "zn_strand z = j # js"
    using step.hyps(2) by (auto simp: zone_step_def split: list.splits)
  then show ?case using step zone_exec_inv[of gl ti j js z h cs z' h' cs']
    by (simp add: zone_step_def st')
qed (auto simp: zone_inv_def)

text \<open>C17. In every reachable state a zone runs exactly while it has clients, and while it runs a tick is
  waiting in its strand: a zone with players never stops ticking, and an empty one costs nothing.\<close>

theorem zone_runs_iff_clients:
  assumes "zone_reach gl (z, h, cs) ticks"
  shows "(zn_running z \<longleftrightarrow> zn_clients z \<noteq> []) \<and> (zn_clients z \<noteq> [] \<longrightarrow> Job_tick \<in> set (zn_strand z))"
  using zone_reach_inv[OF assms] by (auto simp: zone_inv_def)

lemma zone_exec_last_tick:
  assumes "zone_exec gl ti j (z, h, cs) = Some (Inr (z', h', cs'))"
  shows "zn_last_tick z' = (if j = Job_tick \<and> tick_due ti z then ti_end ti else zn_last_tick z)"
  using assms
proof (cases j)
  case Job_tick
  then show ?thesis using assms zone_tick_frame(4)[of gl ti z h cs z' h' cs'] by (auto simp: zone_exec_def)
qed (auto simp: zone_exec_def dest: zone_add_client_frame(4) zone_remove_client_frame(4) zone_handle_packet_frame)

definition throttled :: "(int \<times> int) list \<Rightarrow> bool" where
  "throttled ticks \<longleftrightarrow> sorted_wrt (\<lambda>later earlier. snd earlier + TICK_INTERVAL \<le> fst later) ticks"

lemma zone_reach_throttled:
  "zone_reach gl st ticks \<Longrightarrow> throttled ticks \<and> (\<forall>p \<in> set ticks. fst p \<le> snd p)
     \<and> (ticks \<noteq> [] \<longrightarrow> zn_last_tick (fst st) = snd (hd ticks))"
proof (induction rule: zone_reach.induct)
  case (created i f z h cs)
  then show ?case using zone_create_frame[OF created] by (simp add: throttled_def)
next
  case (step z h cs ticks ti st' ticks')
  obtain z' h' cs' where st': "st' = (z', h', cs')" by (cases st')
  obtain j js where s: "zn_strand z = j # js"
    using step.hyps(2) by (auto simp: zone_step_def split: list.splits)
  have due: "tick_due ti (z\<lparr>zn_strand := js\<rparr>) = tick_due ti z" by (simp add: tick_due_def)
  have last: "zn_last_tick z' = (if j = Job_tick \<and> tick_due ti z then ti_end ti else zn_last_tick z)"
    using zone_exec_last_tick[of gl ti j "z\<lparr>zn_strand := js\<rparr>" h cs z' h' cs'] step.hyps(2) s
    by (simp add: zone_step_def st' due)
  show ?case
  proof (cases "j = Job_tick \<and> tick_due ti z")
    case False
    then show ?thesis using step last s by (auto simp: st')
  next
    case True
    then have ticks': "ticks' = (ti_now ti, ti_end ti) # ticks" using step.hyps(4) s by simp
    have "snd p + TICK_INTERVAL \<le> ti_now ti" if p: "p \<in> set ticks" for p
    proof -
      obtain q rest where ticks: "ticks = q # rest" using p by (cases ticks) auto
      then have q: "snd q + TICK_INTERVAL \<le> ti_now ti"
        using step.IH True by (simp add: tick_due_def)
      show ?thesis
      proof (cases "p = q")
        case False
        then have "p \<in> set rest" using p ticks by simp
        then have "snd p + TICK_INTERVAL \<le> fst q" "fst q \<le> snd q"
          using step.IH ticks by (auto simp: throttled_def)
        then show ?thesis using q by (simp add: TICK_INTERVAL_def)
      qed (use q in simp)
    qed
    then show ?thesis using step.IH step.hyps(3) last True by (auto simp: ticks' st' throttled_def)
  qed
qed (simp_all add: zone_post_def)

text \<open>C18. The effective ticks of a zone (those that move the entities and broadcast their positions) do not
  overlap, and each starts at least 100 ms after the previous one ended, although the zone may have several
  tick jobs in its strand.\<close>

theorem zone_ticks_throttled:
  assumes "zone_reach gl st ticks"
  shows "sorted_wrt (\<lambda>later earlier. fst earlier \<le> snd earlier \<and> snd earlier + 100 \<le> fst later) ticks"
proof -
  have "throttled ticks" and p: "\<forall>p \<in> set ticks. fst p \<le> snd p" using zone_reach_throttled[OF assms] by auto
  then show ?thesis
    unfolding throttled_def TICK_INTERVAL_def by (auto intro: sorted_wrt_mono_rel[rotated])
qed

section \<open>Announcements\<close>

lemma fold_opt_collect:
  assumes "fold_opt body xs acc = Some r"
    and "\<And>x acc acc'. x \<in> set xs \<Longrightarrow> body x acc = Some acc' \<Longrightarrow> acc' = acc @ g x"
  shows "r = acc @ concat (map g xs)"
  using assms
proof (induction xs arbitrary: acc)
  case (Cons x xs)
  then obtain acc1 where a: "body x acc = Some acc1" "fold_opt body xs acc1 = Some r" by (auto split: option.splits)
  then have "acc1 = acc @ g x" using Cons.prems(2)[of x acc acc1] by simp
  moreover have "r = acc1 @ concat (map g xs)" by (rule Cons.IH[OF a(2) Cons.prems(2)]) simp_all
  ultimately show ?case by simp
qed simp

lemma fold_opt_elems:
  assumes "fold_opt body xs acc = Some r" "x \<in> set xs"
    and "\<And>x acc acc'. body x acc = Some acc' \<Longrightarrow> Q x"
  shows "Q x"
  using assms(1,2)
proof (induction xs arbitrary: acc)
  case (Cons y ys)
  then obtain acc1 where "body y acc = Some acc1" "fold_opt body ys acc1 = Some r" by (auto split: option.splits)
  then show ?case using Cons.IH Cons.prems(2) assms(3) by auto
qed simp

text \<open>The entity id of the player of a client.\<close>

definition member_id :: "heap \<Rightarrow> clients \<Rightarrow> addr \<Rightarrow> u32" where
  "member_id h cs c = entity_id (the (Option.bind (client_player cs c) (entity_at h)))"

definition player_at :: "heap \<Rightarrow> addr \<Rightarrow> bool" where
  "player_at h a \<longleftrightarrow> (case h a of Some n \<Rightarrow> is_player (object n) | None \<Rightarrow> False)"

lemma player_spawn_of_id:
  "player_spawn_of h m a = Some sp \<Longrightarrow> entity_at h a = Some e \<Longrightarrow> ps_entity_id sp = entity_id e \<and> ps_is_mine sp = m"
  by (auto simp: player_spawn_of_def split: entity_class.splits)

lemma concat_singletons: "map f (concat (map (\<lambda>x. if P x then [] else [g x]) xs)) = map (f \<circ> g) (filter (\<lambda>x. \<not> P x) xs)"
  by (induction xs) auto

lemma other_players_ids:
  assumes "other_players h cs me members = Some spawns"
  shows "map ps_entity_id spawns = filter (\<lambda>i. i \<noteq> me) (map (member_id h cs) members)"
    and "\<forall>sp \<in> set spawns. \<not> ps_is_mine sp"
proof -
  let ?g = "\<lambda>c. if member_id h cs c = me then [] else [the (player_spawn_of h False (the (client_player cs c)))]"
  have step: "acc' = acc @ ?g c \<and> (member_id h cs c \<noteq> me \<longrightarrow> (\<exists>sp. player_spawn_of h False (the (client_player cs c)) = Some sp
      \<and> ps_entity_id sp = member_id h cs c \<and> \<not> ps_is_mine sp))"
    if "Option.bind (client_player cs c) (\<lambda>a. Option.bind (entity_at h a) (\<lambda>e.
        if entity_id e = me then Some acc
        else Option.bind (player_spawn_of h False a) (\<lambda>sp. Some (acc @ [sp])))) = Some acc'" for c acc acc'
    using that by (auto simp: bind_eq_Some_conv member_id_def split: if_splits dest: player_spawn_of_id)
  have s: "spawns = concat (map ?g members)"
    using fold_opt_collect[OF assms[unfolded other_players_def], of ?g] step by simp
  have ok: "member_id h cs c \<noteq> me \<longrightarrow> (\<exists>sp. player_spawn_of h False (the (client_player cs c)) = Some sp
      \<and> ps_entity_id sp = member_id h cs c \<and> \<not> ps_is_mine sp)" if "c \<in> set members" for c
    by (rule fold_opt_elems[OF assms[unfolded other_players_def] that]) (use step in blast)
  show "map ps_entity_id spawns = filter (\<lambda>i. i \<noteq> me) (map (member_id h cs) members)"
    unfolding s concat_singletons filter_map comp_def by (auto dest!: ok)
  show "\<forall>sp \<in> set spawns. \<not> ps_is_mine sp"
    unfolding s by (auto split: if_splits dest!: ok)
qed

lemma entity_spawns_ids:
  assumes "entity_spawns h es = Some spawns"
  shows "map es_entity_id spawns = map fst (filter (\<lambda>(i, a). \<not> player_at h a) es)"
proof -
  let ?g = "\<lambda>(i, a). if player_at h a then [] else [the (entity_spawn_of h i a)]"
  have step: "acc' = acc @ ?g (i, a) \<and> (\<not> player_at h a \<longrightarrow> es_entity_id (the (entity_spawn_of h i a)) = i)"
    if "Option.bind (h a) (\<lambda>n. if is_player (object n) then Some acc
        else Option.bind (entity_spawn_of h i a) (\<lambda>sp. Some (acc @ [sp]))) = Some acc'" for i a acc acc'
    using that by (auto simp: bind_eq_Some_conv player_at_def entity_spawn_of_def split: if_splits)
  have s: "spawns = concat (map ?g es)"
    using fold_opt_collect[OF assms[unfolded entity_spawns_def], of ?g] step by (auto split: prod.splits)
  have ok: "\<not> player_at h a \<longrightarrow> es_entity_id (the (entity_spawn_of h i a)) = i" if "(i, a) \<in> set es" for i a
    using fold_opt_elems[OF assms[unfolded entity_spawns_def] that,
        of "\<lambda>(i, a). \<not> player_at h a \<longrightarrow> es_entity_id (the (entity_spawn_of h i a)) = i"] step
    by (auto split: prod.splits)
  show ?thesis
    unfolding s using ok by (induction es) (auto split: prod.splits)
qed

lemma distinct_snd_unique:
  assumes "distinct (map snd m)" "(i, c) \<in> set m" "(j, c) \<in> set m"
  shows "i = j"
proof -
  have "inj_on snd (set m)" using assms(1) by (simp add: distinct_map)
  from inj_onD[OF this, of "(i, c)" "(j, c)"] assms(2,3) show ?thesis by simp
qed

lemma player_at_set_position: "player_at (set_position a p h) b = player_at h b"
  by (auto simp: player_at_def set_position_def split: option.splits)

text \<open>C19. What adding a client to a zone does. Its player is put in the middle of the map and registered in
  the subworld. The client is sent the players of all other members of the zone and then all entities
  that are not players; every other member is sent the spawn of the new player; nobody else is sent
  anything.\<close>

theorem newcomer_announced:
  assumes "zone_add_client c (z, h, cs) = Some (z', h', cs')" "cs c = Some cl"
    and "um_ok (zn_clients z)" "distinct (map snd (zn_clients z'))"
  shows "\<exists>pl e ps es spawn. cl_player cl = Some pl \<and> entity_at h pl = Some e
    \<and> position_at h' pl = Some (spawn_point (zn_subworld z))
    \<and> um_find (sw_entities (zn_subworld z')) (entity_id e) = Some pl
    \<and> map ps_entity_id ps = filter (\<lambda>i. i \<noteq> entity_id e) (map (member_id h cs) (um_values (zn_clients z')))
    \<and> map es_entity_id es = map fst (filter (\<lambda>(i, a). \<not> player_at h a) (sw_entities (zn_subworld z')))
    \<and> ps_entity_id spawn = entity_id e \<and> \<not> ps_is_mine spawn
    \<and> cs' = (\<lambda>d. if d = c then Some (client_send (Out_EntitySpawns es) (client_send (Out_PlayerSpawns ps) cl))
               else if receives (client_id cl) (zn_clients z') d
               then map_option (client_send (Out_PlayerSpawn spawn)) (cs d) else cs d)"
proof -
  obtain pl e where pl: "cl_player cl = Some pl" and e: "entity_at h pl = Some e"
    using assms(1,2) by (auto simp: zone_add_client_def bind_eq_Some_conv Let_def)
  let ?h = "set_position pl (spawn_point (zn_subworld z)) h"
  let ?z0 = "if zn_clients z = [] then zone_start z else z"
  let ?m = "um_assign (client_id cl) c (zn_clients z)"
  have z0: "zn_clients ?z0 = zn_clients z" "zn_subworld ?z0 = zn_subworld z" by simp_all
  obtain sw where sw: "add_entity ?h pl (zn_subworld z) = Some sw"
    using assms(1,2) pl e by (auto simp: zone_add_client_def bind_eq_Some_conv Let_def z0)
  obtain ps where ps: "other_players ?h cs (entity_id e) (um_values ?m) = Some ps"
    using assms(1,2) pl e sw by (auto simp: zone_add_client_def bind_eq_Some_conv Let_def z0)
  obtain es where es: "entity_spawns ?h (sw_entities sw) = Some es"
    using assms(1,2) pl e sw ps by (auto simp: zone_add_client_def bind_eq_Some_conv Let_def z0)
  obtain spawn where spawn: "player_spawn_of ?h False pl = Some spawn"
    using assms(1,2) pl e sw ps es by (auto simp: zone_add_client_def bind_eq_Some_conv Let_def z0)
  let ?cl = "client_send (Out_EntitySpawns es) (client_send (Out_PlayerSpawns ps) cl)"
  let ?z = "?z0\<lparr>zn_clients := ?m, zn_subworld := sw\<rparr>"
  have res: "z' = ?z" "h' = ?h"
    and b: "broadcast (Out_PlayerSpawn spawn) (client_id cl) ?z (cs(c \<mapsto> ?cl)) = Some cs'"
    using assms(1,2) pl e sw ps es spawn
    by (auto simp: zone_add_client_def bind_eq_Some_conv Let_def z0 send_to_def)
  have m: "zn_clients z' = ?m" "zn_subworld z' = sw" by (simp_all add: res)
  have mid: "member_id ?h cs = member_id h cs"
  proof -
    have "entity_at ?h = entity_at h" by (intro ext) (simp add: entity_at_set_position)
    then show ?thesis by (intro ext) (simp add: member_id_def)
  qed
  have "(client_id cl, c) \<in> set ?m"
    using um_find_mem[OF um_ok_assign[OF assms(3)]] um_find_assign by (metis (full_types))
  then have "\<not> receives (client_id cl) ?m c"
    using assms(4) unfolding m receives_def by (auto dest: distinct_snd_unique)
  then have cs': "cs' = (\<lambda>d. if d = c then Some ?cl
      else if receives (client_id cl) ?m d then map_option (client_send (Out_PlayerSpawn spawn)) (cs d) else cs d)"
    using broadcast_result[OF b] assms(4) by (auto simp: m fun_eq_iff)
  have pos: "position_at h' pl = Some (spawn_point (zn_subworld z))"
    using entity_at_dom[OF e] by (simp add: res position_at_set)
  have reg: "um_find (sw_entities sw) (entity_id e) = Some pl"
    using sw e by (auto simp: add_entity_def bind_eq_Some_conv entity_at_set_position)
  note ids = other_players_ids(1)[OF ps, unfolded mid] entity_spawns_ids[OF es, unfolded player_at_set_position]
    player_spawn_of_id[OF spawn, unfolded entity_at_set_position, OF e]
  show ?thesis
    using pl e pos reg ids cs' unfolding m by blast
qed

section \<open>Concrete runs\<close>

definition the_ok :: "'a result option \<Rightarrow> 'a option" where
  "the_ok r = (case r of Some (Inr x) \<Rightarrow> Some x | _ \<Rightarrow> None)"

lemma the_ok_Some: "the_ok r = Some x \<longleftrightarrow> r = Some (Inr x)"
  by (auto simp: the_ok_def split: option.splits sum.splits)

text \<open>Only zone 1 has a file: two cells, the second one blocked.\<close>

definition tiny_files :: "u32 \<Rightarrow> zone_file" where
  "tiny_files i =
     (if i = 1 then File_verified \<lparr>zd_size_x = 2, zd_size_z = 1, zd_grid = Some [False, True]\<rparr> else File_unreadable)"

definition inputs_at :: "int \<Rightarrow> tick_inputs" where
  "inputs_at t = \<lparr>ti_now = t, ti_pick = \<lambda>_ _. 0, ti_tie = \<lambda>_. 0, ti_clock = \<lambda>_. t, ti_end = t\<rparr>"

text \<open>Two clients whose players are the duelists.\<close>

definition member_clients :: clients where
  "member_clients = [100 \<mapsto> (client_new 1 True)\<lparr>cl_player := Some 0\<rparr>, 200 \<mapsto> (client_new 2 True)\<lparr>cl_player := Some 4\<rparr>]"

definition zone_run_step :: "int \<Rightarrow> zone_state \<times> (int \<times> int) list \<Rightarrow> (zone_state \<times> (int \<times> int) list) option" where
  "zone_run_step t = (\<lambda>(st, ticks). map_option (\<lambda>st'. (st',
     if hd (zn_strand (fst st)) = Job_tick \<and> tick_due (inputs_at t) (fst st) then (t, t) # ticks else ticks))
     (the_ok (zone_step sample_glm (inputs_at t) st)))"

lemma zone_run_reach:
  assumes "fold_opt zone_run_step ts r = Some r'" "zone_reach sample_glm (fst r) (snd r)"
  shows "zone_reach sample_glm (fst r') (snd r')"
proof (rule fold_opt_invariant[OF assms(1), where P = "\<lambda>r. zone_reach sample_glm (fst r) (snd r)"])
  fix t :: int and r r' assume reach: "zone_reach sample_glm (fst r) (snd r)" and step: "zone_run_step t r = Some r'"
  obtain z h cs ticks where r: "r = ((z, h, cs), ticks)" by (metis prod.collapse)
  obtain st' where st': "zone_step sample_glm (inputs_at t) (z, h, cs) = Some (Inr st')"
    and r': "r' = (st', if hd (zn_strand z) = Job_tick \<and> tick_due (inputs_at t) z then (t, t) # ticks else ticks)"
    using step by (auto simp only: zone_run_step_def r prod.case map_option_eq_Some the_ok_Some fst_conv)
  have "ti_now (inputs_at t) = t" "ti_end (inputs_at t) = t" by (simp_all add: inputs_at_def)
  then show "zone_reach sample_glm (fst r') (snd r')"
    using zone_reach.step[OF reach[unfolded r fst_conv snd_conv] st' _ refl] by (simp only: r' fst_conv snd_conv order_refl)
qed (rule assms(2))

text \<open>The two clients enter the zone, and then it ticks at 200, at 250 (too early) and at 300 ms.\<close>

definition zone_run :: "(zone_state \<times> (int \<times> int) list) option" where
  "zone_run = Option.bind (Option.bind (zone_create 1 (tiny_files 1)) id) (\<lambda>z.
     fold_opt zone_run_step [0, 0, 200, 250, 300]
       ((zone_post (Job_add 200) (zone_post (Job_add 100) z), duel_heap, member_clients), []))"

lemma zone_run_ends:
  "case zone_run of None \<Rightarrow> False | Some ((z, h, cs), ticks) \<Rightarrow>
     zn_clients z \<noteq> [] \<and> ticks = [(300, 300), (200, 200)] \<and> um_find (sw_entities (zn_subworld z)) 2 = Some 4"
  by code_simp

lemma zone_run_state:
  obtains z h cs where "zone_reach sample_glm (z, h, cs) [(300, 300), (200, 200)]" "zn_clients z \<noteq> []"
proof -
  obtain z h cs ticks where r: "zone_run = Some ((z, h, cs), ticks)" "zn_clients z \<noteq> []" "ticks = [(300, 300), (200, 200)]"
    using zone_run_ends by (auto split: option.split_asm prod.split_asm)
  then obtain z0 where z0: "Option.bind (zone_create 1 (tiny_files 1)) id = Some z0"
    and run: "fold_opt zone_run_step [0, 0, 200, 250, 300]
       ((zone_post (Job_add 200) (zone_post (Job_add 100) z0), duel_heap, member_clients), []) = Some ((z, h, cs), ticks)"
    unfolding zone_run_def bind_eq_Some_conv by blast
  have "zone_create 1 (tiny_files 1) = Some (Some z0)" using z0 by (auto simp: bind_eq_Some_conv)
  then have "zone_reach sample_glm (zone_post (Job_add 200) (zone_post (Job_add 100) z0), duel_heap, member_clients) []"
    by (intro zone_reach.posted zone_reach.created) simp_all
  then show thesis using zone_run_reach[OF run] r(2,3) that by simp
qed

theorem zone_runs_iff_clients_witness:
  "\<exists>z h cs ticks. zone_reach sample_glm (z, h, cs) ticks \<and> zn_running z \<and> Job_tick \<in> set (zn_strand z)"
proof -
  obtain z h cs where r: "zone_reach sample_glm (z, h, cs) [(300, 300), (200, 200)]" "zn_clients z \<noteq> []"
    by (rule zone_run_state)
  show ?thesis using zone_runs_iff_clients[OF r(1)] r by blast
qed

theorem zone_ticks_throttled_witness:
  "\<exists>st. zone_reach sample_glm st [(300, 300), (200, 200)] \<and> (200::int) + 100 \<le> 300"
proof -
  obtain z h cs where r: "zone_reach sample_glm (z, h, cs) [(300, 300), (200, 200)]" "zn_clients z \<noteq> []"
    by (rule zone_run_state)
  show ?thesis using zone_ticks_throttled[OF r(1)] r(1) by auto
qed

definition lobby :: zone where
  "lobby = duel_zone\<lparr>zn_clients := [(2, 200)], zn_subworld := (zn_subworld duel_zone)\<lparr>sw_entities := [(2, 4)],
     sw_collision_objects := [(6, 5)]\<rparr>\<rparr>"

theorem newcomer_announced_witness:
  "\<exists>z' h' cs' (ps :: player_spawn list) spawn. zone_add_client 100 (lobby, duel_heap, member_clients) = Some (z', h', cs')
     \<and> map ps_entity_id ps = [2] \<and> ps_entity_id spawn = 1
     \<and> cs' 200 = map_option (client_send (Out_PlayerSpawn spawn)) (member_clients 200)"
proof -
  have "case zone_add_client 100 (lobby, duel_heap, member_clients) of None \<Rightarrow> False
      | Some (z', h', cs') \<Rightarrow> zn_clients z' = [(2, 200), (1, 100)]"
    by code_simp
  then obtain z' h' cs' where add: "zone_add_client 100 (lobby, duel_heap, member_clients) = Some (z', h', cs')"
    and m: "zn_clients z' = [(2, 200), (1, 100)]"
    by (auto split: option.split_asm prod.split_asm)
  let ?cl = "(client_new 1 True)\<lparr>cl_player := Some 0\<rparr>"
  have c: "member_clients 100 = Some ?cl" by (simp add: member_clients_def)
  have ok: "um_ok (zn_clients lobby)" "distinct (map snd (zn_clients z'))" by (simp_all add: m lobby_def um_ok_def)
  have ids: "entity_at duel_heap 0 = Some (duelist 1 100)" "member_id duel_heap member_clients 100 = 1"
    "member_id duel_heap member_clients 200 = 2"
    by (simp_all add: duel_entities duelist_def member_id_def client_player_def member_clients_def)
  have r: "receives (client_id ?cl) (zn_clients z') 200"
    by (simp add: m receives_def client_new_def)
  from newcomer_announced[OF add c ok] obtain pl e ps es spawn
    where n: "cl_player ?cl = Some pl" "entity_at duel_heap pl = Some e" "ps_entity_id spawn = entity_id e"
      "map ps_entity_id ps = filter (\<lambda>i. i \<noteq> entity_id e) (map (member_id duel_heap member_clients) (um_values (zn_clients z')))"
      "cs' = (\<lambda>d. if d = 100 then Some (client_send (Out_EntitySpawns es) (client_send (Out_PlayerSpawns ps) ?cl))
         else if receives (client_id ?cl) (zn_clients z') d
         then map_option (client_send (Out_PlayerSpawn spawn)) (member_clients d) else member_clients d)"
    by blast
  then have "e = duelist 1 100" using ids(1) by simp
  then have "map ps_entity_id ps = [2]" "ps_entity_id spawn = 1"
    using n(3,4) by (simp_all add: m ids um_values_def duelist_def)
  moreover have "cs' 200 = map_option (client_send (Out_PlayerSpawn spawn)) (member_clients 200)"
    using r by (simp add: n(5))
  ultimately show ?thesis
    using add by (intro exI[of _ z'] exI[of _ h'] exI[of _ cs'] exI[of _ ps] exI[of _ spawn] conjI)
qed

text \<open>C20. What removing a member from a zone does. The client leaves the members; exactly the entity of the
  player that the client has now is taken out of the subworld; and the remaining members, and nobody else,
  are told that this entity is gone. So if the client has joined again in the meantime, its first player
  stays in the zone with no client, and the others are told of an entity they have never seen.\<close>

theorem leaver_announced:
  assumes "zone_remove_client c (z, h, cs) = Some (z', h', cs')" "cs c = Some cl"
    and "um_contains (zn_clients z) (client_id cl)" "distinct (map snd (zn_clients z'))"
  shows "\<exists>pl e. cl_player cl = Some pl \<and> entity_at h pl = Some e \<and> h' = h
    \<and> zn_clients z' = um_erase (client_id cl) (zn_clients z)
    \<and> (\<forall>i. um_find (sw_entities (zn_subworld z')) i
          = (if i = entity_id e then None else um_find (sw_entities (zn_subworld z)) i))
    \<and> cs' = (\<lambda>d. if receives 0 (zn_clients z') d
               then map_option (client_send (Out_EntityDespawn (entity_id e))) (cs d) else cs d)"
proof -
  obtain pl where pl: "cl_player cl = Some pl" using assms(1-3) by (auto simp: zone_remove_client_def bind_eq_Some_conv)
  obtain sw where sw: "remove_entity h pl (zn_subworld z) = Some sw"
    using assms(1-3) pl by (auto simp: zone_remove_client_def bind_eq_Some_conv)
  obtain e where e: "entity_at h pl = Some e"
    using assms(1-3) pl sw by (auto simp: zone_remove_client_def bind_eq_Some_conv Let_def)
  let ?z = "z\<lparr>zn_subworld := sw, zn_clients := um_erase (client_id cl) (zn_clients z)\<rparr>"
  have r: "broadcast (Out_EntityDespawn (entity_id e)) 0 ?z cs = Some cs'" "h' = h"
    "z' = (if zn_clients ?z = [] then zone_stop ?z else ?z)"
    using assms(1-3) pl sw e by (auto simp: zone_remove_client_def bind_eq_Some_conv Let_def)
  have z': "zn_clients z' = zn_clients ?z" "zn_subworld z' = sw" by (simp_all add: r(3))
  have "distinct (map snd (zn_clients ?z))" using assms(4) unfolding z'(1) .
  note b = broadcast_result[OF r(1) this]
  obtain objs where "sw = (zn_subworld z)\<lparr>sw_collision_objects := objs,
      sw_entities := um_erase (entity_id e) (sw_entities (zn_subworld z))\<rparr>"
    using sw e by (auto simp: remove_entity_def remove_collision_objects_from_tree_def bind_eq_Some_conv)
  then have "um_find (sw_entities sw) i = (if i = entity_id e then None else um_find (sw_entities (zn_subworld z)) i)" for i
    by simp
  then show ?thesis
    using pl e r(2) b z' by simp
qed

section \<open>The grid of a zone\<close>

lemma zone_create_formed:
  assumes flags: "zd_grid d = Some flags" and sides: "uint (zd_size_x d) < 2 ^ 31" "uint (zd_size_z d) < 2 ^ 31"
    and prod: "uint (zd_size_x d) * uint (zd_size_z d) < 2 ^ 32"
  shows "if int (length flags) \<noteq> uint (zd_size_x d) * uint (zd_size_z d)
    then zone_create i (File_verified d) = Some None
    else \<exists>z g. zone_create i (File_verified d) = Some (Some z) \<and> zone_inv z
      \<and> g = sw_obstacles_grid (zn_subworld z) \<and> wf_grid g
      \<and> nrows g = uint (zd_size_z d) \<and> ncols g = uint (zd_size_x d)
      \<and> (\<forall>p. is_inside g p \<longrightarrow> is_blocked g p = Inr (flags ! nat (pt_r p * ncols g + pt_c p)))"
proof -
  let ?x = "zd_size_x d" and ?z = "zd_size_z d"
  have up: "uint (ucast w :: size_t) = uint w" for w :: u32
    using arg_cong[OF unat_ucast_up[of w], of int] by simp
  have "uint (?x * ?z) = uint ?x * uint ?z"
    using prod by (simp add: uint_word_ariths)
  then have p: "int (unat (?x * ?z)) = uint ?x * uint ?z" by simp
  show ?thesis
  proof (cases "int (length flags) = uint ?x * uint ?z")
    case False
    then have "unat (?x * ?z) \<noteq> length flags" using p by metis
    then show ?thesis using False flags by (simp add: zone_create_def)
  next
    case True
    then have n: "unat (?x * ?z) = length flags" using p by (metis of_nat_eq_iff)
    let ?fresh = "grid_sized False (ucast ?z) (ucast ?x) :: bool grid" and ?g = "\<lparr>grid_rows = ucast ?z, grid_cols = ucast ?x, grid_data = flags\<rparr>"
    have "int (length flags) < 2 ^ 32" using True prod by simp
    then have small: "length flags < 2 ^ 64" by simp
    have "uint (ucast ?z * ucast ?x :: size_t) = uint ?z * uint ?x"
      using prod by (simp add: uint_word_ariths up mult.commute)
    then have len: "length (grid_data ?fresh) = length flags"
      using True by (simp add: grid_sized_def unat_eq_nat_uint mult.commute)
    have fill: "fill_grid flags ?fresh = Some ?g"
      using fill_grid_eq[OF len small] by (simp add: grid_sized_def)
    let ?zone = "\<lparr>zone_id = i, zn_running = False, zn_last_tick = 0, zn_clients = [],
                    zn_subworld = subworld_new ?g, zn_strand = []\<rparr>"
    have c: "zone_create i (File_verified d) = Some (Some ?zone)"
      using flags n fill by (simp add: zone_create_def)
    have wf: "wf_grid ?g" using sides True by (simp add: wf_grid_def up mult.commute)
    have dims: "nrows ?g = uint ?z" "ncols ?g = uint ?x" by (simp_all add: nrows_def ncols_def up)
    have blocked: "is_blocked ?g p = Inr (flags ! nat (pt_r p * ncols ?g + pt_c p))" if "is_inside ?g p" for p
      using inside_index[OF wf that] by (simp add: is_blocked_def grid_at_def grid_at_rc_def grid_at_i_def)
    have "zone_inv ?zone" by (simp add: zone_inv_def)
    then show ?thesis
      using True c wf dims blocked
      by (simp only: if_False not_True_eq_False simp_thms)
        (intro exI[of _ ?zone] exI[of _ ?g] conjI, simp_all add: subworld_new_def)
  qed
qed


theorem leaver_announced_witness:
  "\<exists>z' h' cs'. zone_remove_client 100 (duel_zone\<lparr>zn_clients := [(1, 100), (2, 200)]\<rparr>, duel_heap, member_clients)
      = Some (z', h', cs')
     \<and> um_find (sw_entities (zn_subworld z')) 1 = None \<and> um_find (sw_entities (zn_subworld z')) 2 = Some 4
     \<and> cs' 200 = map_option (client_send (Out_EntityDespawn 1)) (member_clients 200) \<and> cs' 100 = member_clients 100"
proof -
  let ?z = "duel_zone\<lparr>zn_clients := [(1, 100), (2, 200)]\<rparr>" and ?cl = "(client_new 1 True)\<lparr>cl_player := Some 0\<rparr>"
  have "case zone_remove_client 100 (?z, duel_heap, member_clients) of None \<Rightarrow> False
      | Some (z', h', cs') \<Rightarrow> zn_clients z' = [(2, 200)]"
    by code_simp
  then obtain z' h' cs' where rem: "zone_remove_client 100 (?z, duel_heap, member_clients) = Some (z', h', cs')"
    and m: "zn_clients z' = [(2, 200)]"
    by (auto split: option.split_asm prod.split_asm)
  have c: "member_clients 100 = Some ?cl" by (simp add: member_clients_def)
  have k: "um_contains (zn_clients ?z) (client_id ?cl)" by (simp add: um_contains_def um_find_def client_new_def)
  have d: "distinct (map snd (zn_clients z'))" by (simp add: m)
  from leaver_announced[OF rem c k d] obtain pl e where n: "cl_player ?cl = Some pl" "entity_at duel_heap pl = Some e"
    "\<And>i. um_find (sw_entities (zn_subworld z')) i
          = (if i = entity_id e then None else um_find (sw_entities (zn_subworld ?z)) i)"
    "cs' = (\<lambda>d. if receives 0 (zn_clients z') d
               then map_option (client_send (Out_EntityDespawn (entity_id e))) (member_clients d) else member_clients d)"
    by blast
  then have "e = duelist 1 100" by (simp add: duel_entities)
  then have e: "entity_id e = 1" by (simp add: duelist_def)
  have "um_find (sw_entities (zn_subworld z')) 1 = None" "um_find (sw_entities (zn_subworld z')) 2 = Some 4"
    using n(3) by (simp_all add: e duel_zone_def um_find_def)
  moreover have "cs' 200 = map_option (client_send (Out_EntityDespawn 1)) (member_clients 200)" "cs' 100 = member_clients 100"
    by (simp_all add: n(4) e m receives_def)
  ultimately show ?thesis
    using rem by (intro exI[of _ z'] exI[of _ h'] exI[of _ cs'] conjI)
qed

end
