(* ===== verification/Client_Views.thy ===== *)
theory Client_Views
  imports Zone_Correct
begin

text \<open>
  A zone does to the clients nothing but sending them packets. So whatever sending keeps of a client, every
  step of a zone keeps. The locale is instantiated with what the server's tables rely on, and with the
  connected flag.
\<close>

definition views :: "(client \<Rightarrow> 'v) \<Rightarrow> clients \<Rightarrow> addr \<Rightarrow> 'v option" where
  "views view cs c = map_option view (cs c)"

lemma views_upd: "map_option view (cs c) = Some (view cl) \<Longrightarrow> views view (cs(c \<mapsto> cl)) = views view cs"
  by (auto simp: views_def intro!: ext)

lemma zone_step_strand:
  assumes "zone_step gl ti (z, h, cs) = Some (Inr (z', h', cs'))"
  shows "\<exists>j js. zn_strand z = j # js \<and> (zn_strand z' = js \<or> zn_strand z' = js @ [Job_tick])
    \<and> zone_exec gl ti j (z\<lparr>zn_strand := js\<rparr>, h, cs) = Some (Inr (z', h', cs'))"
proof -
  obtain j js where s: "zn_strand z = j # js" using assms by (auto simp: zone_step_def split: list.splits)
  then have e: "zone_exec gl ti j (z\<lparr>zn_strand := js\<rparr>, h, cs) = Some (Inr (z', h', cs'))"
    using assms by (simp add: zone_step_def)
  have "zn_strand z' = js \<or> zn_strand z' = js @ [Job_tick]"
  proof (cases j)
    case Job_tick
    then show ?thesis using e zone_tick_frame(3)[of gl ti "z\<lparr>zn_strand := js\<rparr>" h cs z' h' cs']
      by (auto simp: zone_exec_def)
  qed (use e in \<open>auto simp: zone_exec_def dest!: zone_add_client_frame(3) zone_remove_client_frame(3)
      zone_handle_packet_frame split: if_splits\<close>)
  then show ?thesis using s e by blast
qed

named_theorems view_keeps

locale client_view =
  fixes view :: "client \<Rightarrow> 'v"
  assumes view_send: "view (client_send p cl) = view cl"
begin

lemma views_send_to [view_keeps]: "send_to c p cs = Some cs' \<Longrightarrow> views view cs' = views view cs"
  by (auto simp: send_to_def views_def view_send intro!: ext)

lemma views_broadcast [view_keeps]:
  assumes "broadcast p except z cs = Some cs'"
  shows "views view cs' = views view cs"
proof (rule fold_opt_invariant[OF assms[unfolded broadcast_def], where P = "\<lambda>c. views view c = views view cs"])
  fix x and s t :: clients
  assume "views view s = views view cs" "(\<lambda>(i, c) cs. if i = except then Some cs else send_to c p cs) x s = Some t"
  then show "views view t = views view cs" using views_send_to by (cases x) (auto split: if_splits)
qed simp

lemma views_melee_use [view_keeps]:
  "melee_use gl now z a w (h, cs) = Some (h', cs') \<Longrightarrow> views view cs' = views view cs"
  by (auto simp: melee_use_def melee_strike_def bind_eq_Some_conv dest!: views_broadcast split: if_splits)

lemma views_simple_monster_tick [view_keeps]:
  assumes "simple_monster_tick gl pick tie now z a (h, cs) = Some (Inr (h', cs'))"
  shows "views view cs' = views view cs"
proof -
  obtain n e where ne: "h a = Some n" "entity_at h a = Some e"
    using assms by (auto simp: simple_monster_tick_def bind_eq_Some_conv)
  then obtain d where d: "en_class e = Monster_class d"
    using assms by (auto simp: simple_monster_tick_def split: entity_class.split_asm)
  show ?thesis
  proof (cases "mo_state d")
    case ATTACKING
    then have "monster_attacking gl now z a n e d (h, cs) = Some (h', cs')"
      using assms ne d by (simp add: simple_monster_tick_def)
    then show ?thesis
      by (auto simp: monster_attacking_def bind_eq_Some_conv split: if_splits dest: views_melee_use)
  qed (use assms ne d in \<open>auto simp: simple_monster_tick_def map_sum_Inr\<close>)
qed

lemma views_entities_tick [view_keeps]:
  "entities_tick gl ti z as (h, cs) = Some (Inr (h', cs')) \<Longrightarrow> views view cs' = views view cs"
proof (induction as arbitrary: h cs)
  case (Cons a as)
  then obtain h1 cs1 where one: "entity_tick gl ti z a (h, cs) = Some (Inr (h1, cs1))"
    and rest: "entities_tick gl ti z as (h1, cs1) = Some (Inr (h', cs'))"
    by (auto split: option.splits sum.splits)
  have "views view cs1 = views view cs"
    using one views_simple_monster_tick by (auto simp: entity_tick_def split: option.splits entity_class.splits)
  then show ?case using Cons.IH[OF rest] by simp
qed simp

lemma views_zone_exec:
  assumes "zone_exec gl ti j (z, h, cs) = Some (Inr (z', h', cs'))"
  shows "views view cs' = views view cs"
proof (cases j)
  case Job_tick
  then have "zone_tick gl ti (z, h, cs) = Some (Inr (z', h', cs'))" using assms by (simp add: zone_exec_def)
  then show ?thesis by (cases rule: zone_tick_cases) (auto dest!: view_keeps)
next
  case (Job_add c)
  then show ?thesis
    using assms by (auto simp: zone_exec_def zone_add_client_def bind_eq_Some_conv Let_def dest!: view_keeps)
next
  case (Job_remove c)
  then show ?thesis
    using assms
    by (auto simp: zone_exec_def zone_remove_client_def bind_eq_Some_conv Let_def dest!: view_keeps split: if_splits)
next
  case (Job_packet c p)
  then have "zone_handle_packet gl (ti_now ti) c p (z, h, cs) = Some (z', h', cs')"
    using assms by (simp add: zone_exec_def)
  moreover obtain cl where "cs c = Some cl"
    using calculation by (auto simp: zone_handle_packet_def bind_eq_Some_conv)
  ultimately show ?thesis
    by (auto simp: zone_handle_packet_def handle_player_movement_def bind_eq_Some_conv Let_def
        dest!: handle_skill_melee_attack_cases views_melee_use
        split: if_split_asm in_packet.split_asm option.split_asm)
qed

lemma zone_step_views:
  assumes "zone_step gl ti (z, h, cs) = Some (Inr (z', h', cs'))"
  shows "views view cs' = views view cs"
  using assms views_zone_exec by (auto simp: zone_step_def split: list.splits)

end

text \<open>What the tables of the server rely on: the id of a client, and whether it is authenticated.\<close>

definition credentials :: "client \<Rightarrow> u32 \<times> bool" where
  "credentials cl = (client_id cl, is_authenticated cl)"

definition linked :: "client \<Rightarrow> bool" where
  "linked cl = cn_connected (cl_connection cl)"

interpretation cred: client_view credentials
  by unfold_locales (simp add: credentials_def client_send_def)

interpretation link: client_view linked
  by unfold_locales (simp add: linked_def client_send_def send_packet_def)

end
