(* ===== verification/Typing.thy ===== *)
theory Typing
  imports Client_Views
begin

text \<open>
  The heap of objects is typed. The sources keep objects of different classes behind pointers to base
  classes and cast down to them; here every address has a class, a field that points to an object expects
  one, and the operations on the heap keep the classes and the typing. From a well-typed heap follows that
  the loops over parents and children end and that no cast meets an object of a class it cannot handle.
\<close>

section \<open>Classes\<close>

text \<open>A player and a monster are classes of their own for each entity id: no operation changes it.\<close>

datatype cls = C_node | C_shape | C_collider | C_player u32 | C_monster u32

definition entity_cls :: "entity \<Rightarrow> cls" where
  "entity_cls e = (case en_class e of Player_class _ \<Rightarrow> C_player (entity_id e) | Monster_class _ \<Rightarrow> C_monster (entity_id e))"

definition entity_ref :: "(addr \<rightharpoonup> cls) \<Rightarrow> u32 \<Rightarrow> addr \<Rightarrow> bool" where
  "entity_ref T i a \<longleftrightarrow> T a = Some (C_player i) \<or> T a = Some (C_monster i)"

definition player_ref :: "(addr \<rightharpoonup> cls) \<Rightarrow> addr \<Rightarrow> bool" where
  "player_ref T a \<longleftrightarrow> (\<exists>i. T a = Some (C_player i))"

definition class_of :: "object \<Rightarrow> cls" where
  "class_of ob =
     (case ob of
        Plain_node \<Rightarrow> C_node
      | Cube_shape _ \<Rightarrow> C_shape
      | Sphere_shape _ \<Rightarrow> C_shape
      | Collider _ _ _ \<Rightarrow> C_collider
      | Entity_object e \<Rightarrow> entity_cls e)"

definition typing :: "heap \<Rightarrow> addr \<Rightarrow> cls option" where
  "typing h a = map_option (\<lambda>n. class_of (object n)) (h a)"

definition fist_typed :: "(addr \<rightharpoonup> cls) \<Rightarrow> fist \<Rightarrow> bool" where
  "fist_typed T f \<longleftrightarrow> T (fist_shape f) = Some C_shape \<and> 0 \<le> fist_damage f \<and> fist_damage f < 2 ^ 31"

text \<open>The machine of a player or monster: the two states, one of which is current, and only delayed
  transitions back to \<open>Idle\<close>.\<close>

definition machine_typed :: "unit state_machine \<Rightarrow> bool" where
  "machine_typed sm \<longleftrightarrow> sm_states sm = sm_table
     \<and> sm_current sm \<in> {State_at ''Idle'', State_at ''Attacking''}
     \<and> (\<forall>d \<in> set (sm_delayed sm). dl_target d = ''Idle'')"

definition class_typed :: "(addr \<rightharpoonup> cls) \<Rightarrow> entity_class \<Rightarrow> bool" where
  "class_typed T cl =
     (case cl of
        Player_class d \<Rightarrow> (case pl_main_weapon d of Some (Fist_item f) \<Rightarrow> fist_typed T f | _ \<Rightarrow> True)
      | Monster_class d \<Rightarrow> fist_typed T (mo_weapon d) \<and> T (mo_detection_area d) = Some C_shape
          \<and> (\<forall>t. mo_chasing_target d = Some t \<longrightarrow> player_ref T t))"

definition entity_typed :: "(addr \<rightharpoonup> cls) \<Rightarrow> entity \<Rightarrow> bool" where
  "entity_typed T e \<longleftrightarrow> machine_typed (state_machine e) \<and> resource_ok (resource e) \<and> class_typed T (en_class e)"

text \<open>A position that the conversion to a cell is defined for.\<close>

definition convertible :: "vec3 \<Rightarrow> bool" where
  "convertible v \<longleftrightarrow> point_of_floats (vz v) (vx v) \<noteq> None"

definition node_typed :: "(addr \<rightharpoonup> cls) \<Rightarrow> node \<Rightarrow> bool" where
  "node_typed T n =
     (case object n of
        Collider s _ _ \<Rightarrow> T s = Some C_shape
      | Entity_object e \<Rightarrow> entity_typed T e \<and> convertible (position n)
      | _ \<Rightarrow> True)"

text \<open>The scene is a forest of depth three: parents and children are live, and a child is deeper than
  its parent.\<close>

definition deeper :: "heap \<Rightarrow> (addr \<Rightarrow> nat) \<Rightarrow> bool" where
  "deeper h depth \<longleftrightarrow>
     (\<forall>a n. h a = Some n \<longrightarrow> depth a \<le> 3
        \<and> (\<forall>p. parent n = Some p \<longrightarrow> h p \<noteq> None \<and> depth p < depth a)
        \<and> (\<forall>c \<in> set (children n). h c \<noteq> None \<and> depth a < depth c))"

definition heap_typed :: "heap \<Rightarrow> bool" where
  "heap_typed h \<longleftrightarrow> (\<exists>depth. deeper h depth) \<and> (\<forall>a n. h a = Some n \<longrightarrow> node_typed (typing h) n)"

section \<open>What the class of an address says\<close>

lemma typing_None [simp]: "typing h a = None \<longleftrightarrow> h a = None"
  by (simp add: typing_def)

lemma typing_live: "typing h a = Some k \<Longrightarrow> h a \<noteq> None"
  by (auto simp: typing_def)

lemma entity_cls_simps [simp]:
  "entity_cls e = C_player i \<longleftrightarrow> (\<exists>d. en_class e = Player_class d) \<and> entity_id e = i"
  "entity_cls e = C_monster i \<longleftrightarrow> (\<exists>d. en_class e = Monster_class d) \<and> entity_id e = i"
  "entity_cls e \<noteq> C_node" "entity_cls e \<noteq> C_shape" "entity_cls e \<noteq> C_collider"
  by (cases "en_class e"; simp add: entity_cls_def)+

lemma entity_cls_updates [simp]:
  "entity_cls (e\<lparr>state_machine := sm\<rparr>) = entity_cls e" "entity_cls (e\<lparr>resource := r\<rparr>) = entity_cls e"
  "entity_cls (e\<lparr>target_direction := v\<rparr>) = entity_cls e" "entity_cls (e\<lparr>target_position := v\<rparr>) = entity_cls e"
  by (cases "en_class e"; simp add: entity_cls_def)+

lemma class_of_simps [simp]:
  "class_of Plain_node = C_node" "class_of (Cube_shape v) = C_shape" "class_of (Sphere_shape r) = C_shape"
  "class_of (Collider s l m) = C_collider" "class_of (Entity_object e) = entity_cls e"
  by (simp_all add: class_of_def)

lemma class_of_collider: "class_of ob = C_collider \<longleftrightarrow> (\<exists>s l m. ob = Collider s l m)"
  by (cases ob) auto

lemma typing_shape: "typing h a = Some C_shape \<longleftrightarrow> is_shape h a"
proof (cases "h a")
  case (Some n)
  then show ?thesis by (cases "object n") (simp_all add: typing_def is_shape_def)
qed (simp add: typing_def is_shape_def)

lemma typing_collider:
  "typing h a = Some C_collider \<longleftrightarrow> (\<exists>n s l m. h a = Some n \<and> object n = Collider s l m)"
  by (auto simp: typing_def class_of_collider)

lemma typing_entity: "entity_at h a = Some e \<Longrightarrow> typing h a = Some (entity_cls e)"
  by (auto simp: entity_at_def typing_def class_of_def split: option.splits object.splits)

lemma entity_refE:
  assumes "entity_ref (typing h) i a"
  obtains n e where "h a = Some n" "object n = Entity_object e" "entity_at h a = Some e" "entity_id e = i"
proof -
  obtain n where n: "h a = Some n" "class_of (object n) = C_player i \<or> class_of (object n) = C_monster i"
    using assms by (auto simp: typing_def entity_ref_def)
  then obtain e where "object n = Entity_object e" by (cases "object n") auto
  then show thesis using that n by (auto simp: entity_at_def)
qed

lemma player_refE:
  assumes "player_ref (typing h) a"
  obtains n e d where "h a = Some n" "object n = Entity_object e" "entity_at h a = Some e" "en_class e = Player_class d"
proof -
  obtain i where i: "typing h a = Some (C_player i)" using assms by (auto simp: player_ref_def)
  then have "entity_ref (typing h) i a" by (simp add: entity_ref_def)
  then obtain n e where n: "h a = Some n" "object n = Entity_object e" "entity_at h a = Some e" by (rule entity_refE)
  then have "entity_cls e = C_player i" using typing_entity i by fastforce
  then show thesis using that n by auto
qed

lemma player_ref_entity: "player_ref T a \<Longrightarrow> \<exists>i. entity_ref T i a"
  by (auto simp: player_ref_def entity_ref_def)

lemma is_player_typing: "h a = Some n \<Longrightarrow> is_player (object n) \<longleftrightarrow> player_ref (typing h) a"
  by (cases "object n") (auto simp: is_player_def typing_def player_ref_def split: entity_class.splits)

lemma heap_typed_node: "heap_typed h \<Longrightarrow> h a = Some n \<Longrightarrow> node_typed (typing h) n"
  by (simp add: heap_typed_def)

lemma heap_typed_entity:
  assumes "heap_typed h" "entity_at h a = Some e"
  shows "entity_typed (typing h) e" and "h a = Some n \<Longrightarrow> convertible (position n)"
proof -
  obtain m where m: "h a = Some m" "object m = Entity_object e"
    using assms(2) by (auto simp: entity_at_def split: option.splits object.splits)
  from heap_typed_node[OF assms(1) m(1)] m show "entity_typed (typing h) e"
    and "h a = Some n \<Longrightarrow> convertible (position n)"
    by (simp_all add: node_typed_def)
qed

lemma collider_shape:
  "heap_typed h \<Longrightarrow> h a = Some n \<Longrightarrow> object n = Collider s l m \<Longrightarrow> typing h s = Some C_shape"
  using heap_typed_node[of h a n] by (simp add: node_typed_def)

lemma heap_typed_resources: "heap_typed h \<Longrightarrow> resources_ok h"
  using heap_typed_entity(1) by (auto simp: resources_ok_def entity_typed_def)

section \<open>More classes\<close>

text \<open>A heap that keeps the classes, and perhaps has more objects.\<close>

lemma fist_typed_mono: "T \<subseteq>\<^sub>m T' \<Longrightarrow> fist_typed T f \<Longrightarrow> fist_typed T' f"
  by (auto simp: fist_typed_def map_le_def dom_def)

lemma class_typed_mono:
  assumes "T \<subseteq>\<^sub>m T'" "class_typed T cl"
  shows "class_typed T' cl"
proof -
  have T: "T a = Some k \<Longrightarrow> T' a = Some k" for a k using assms(1) by (auto simp: map_le_def dom_def)
  show ?thesis
    using assms(2) T fist_typed_mono[OF assms(1)]
    by (cases cl) (auto simp: class_typed_def player_ref_def split: option.splits equipment.splits)
qed

lemma node_typed_mono:
  assumes "T \<subseteq>\<^sub>m T'" "node_typed T n"
  shows "node_typed T' n"
proof -
  have T: "T a = Some k \<Longrightarrow> T' a = Some k" for a k using assms(1) by (auto simp: map_le_def dom_def)
  show ?thesis
    using assms(2) T class_typed_mono[OF assms(1)]
    by (cases "object n") (auto simp: node_typed_def entity_typed_def)
qed

section \<open>Updates that keep the classes\<close>

definition same_links :: "heap \<Rightarrow> heap \<Rightarrow> bool" where
  "same_links h h' \<longleftrightarrow> (\<forall>a. map_option (\<lambda>n. (parent n, children n)) (h' a) = map_option (\<lambda>n. (parent n, children n)) (h a))"

lemma same_links_at:
  "same_links h h' \<Longrightarrow> map_option (\<lambda>n. (parent n, children n)) (h' a) = map_option (\<lambda>n. (parent n, children n)) (h a)"
  by (simp add: same_links_def)

lemma same_links_dom: "same_links h h' \<Longrightarrow> h' a = None \<longleftrightarrow> h a = None"
  using same_links_at[of h h' a] by (cases "h a"; cases "h' a") simp_all

lemma deeper_same_links:
  assumes "same_links h h'" "deeper h depth"
  shows "deeper h' depth"
  unfolding deeper_def
proof (intro allI impI)
  fix a n' assume n': "h' a = Some n'"
  have "map_option (\<lambda>n. (parent n, children n)) (h a) = Some (parent n', children n')"
    using same_links_at[OF assms(1), of a] n' by simp
  then obtain n where "h a = Some n" "parent n = parent n'" "children n = children n'" by auto
  then show "depth a \<le> 3 \<and> (\<forall>p. parent n' = Some p \<longrightarrow> h' p \<noteq> None \<and> depth p < depth a)
      \<and> (\<forall>c \<in> set (children n'). h' c \<noteq> None \<and> depth a < depth c)"
    using assms(2) same_links_dom[OF assms(1)] unfolding deeper_def by metis
qed

lemma heap_typed_update:
  assumes "heap_typed h" "h a = Some n" "parent n' = parent n" "children n' = children n"
    and "class_of (object n') = class_of (object n)" "node_typed (typing h) n'"
  shows "heap_typed (h(a \<mapsto> n')) \<and> typing (h(a \<mapsto> n')) = typing h"
proof -
  have t: "typing (h(a \<mapsto> n')) = typing h" using assms(2,5) by (auto simp: typing_def)
  have "same_links h (h(a \<mapsto> n'))" using assms(2-4) by (simp add: same_links_def)
  then show ?thesis
    using assms(1,6) t deeper_same_links unfolding heap_typed_def by auto
qed

text \<open>The updates of the sources. Each keeps the heap typed and every class.\<close>

definition retyped :: "heap \<Rightarrow> heap \<Rightarrow> bool" where
  "retyped h h' \<longleftrightarrow> heap_typed h' \<and> typing h' = typing h"

lemma retyped_refl: "heap_typed h \<Longrightarrow> retyped h h"
  by (simp add: retyped_def)

lemma retyped_trans: "retyped h h' \<Longrightarrow> retyped h' h'' \<Longrightarrow> retyped h h''"
  by (simp add: retyped_def)

lemma retyped_set_entity:
  assumes "heap_typed h" "entity_at h a = Some e" "entity_cls e' = entity_cls e" "entity_typed (typing h) e'"
  shows "retyped h (set_entity a e' h)"
proof -
  obtain n where n: "h a = Some n" "object n = Entity_object e"
    using assms(2) by (auto simp: entity_at_def split: option.splits object.splits)
  have "convertible (position n)" using heap_typed_entity(2)[OF assms(1,2) n(1)] .
  then have "heap_typed (h(a \<mapsto> n\<lparr>object := Entity_object e'\<rparr>)) \<and> typing (h(a \<mapsto> n\<lparr>object := Entity_object e'\<rparr>)) = typing h"
    using assms n by (intro heap_typed_update[OF assms(1) n(1)]) (simp_all add: node_typed_def)
  then show ?thesis using n by (simp add: set_entity_def retyped_def)
qed

lemma retyped_set_position:
  assumes "heap_typed h" "convertible v"
  shows "retyped h (set_position a v h)"
proof (cases "h a")
  case None
  then show ?thesis using retyped_refl[OF assms(1)] by (simp add: set_position_def)
next
  case (Some n)
  have "node_typed (typing h) (n\<lparr>position := v\<rparr>)"
    using heap_typed_node[OF assms(1) Some] assms(2) by (auto simp: node_typed_def split: object.splits)
  then show ?thesis
    using heap_typed_update[OF assms(1) Some, of "n\<lparr>position := v\<rparr>"] Some
    by (simp add: set_position_def retyped_def)
qed

lemma retyped_set_rotation:
  assumes "heap_typed h"
  shows "retyped h (set_rotation a r h)"
proof (cases "h a")
  case None
  then show ?thesis using retyped_refl[OF assms] by (simp add: set_rotation_def)
next
  case (Some n)
  have "node_typed (typing h) (n\<lparr>rotation := r\<rparr>)"
    using heap_typed_node[OF assms(1) Some] by (auto simp: node_typed_def split: object.splits)
  then show ?thesis
    using heap_typed_update[OF assms(1) Some, of "n\<lparr>rotation := r\<rparr>"] Some
    by (simp add: set_rotation_def retyped_def)
qed

end
