(* ===== verification/Typing_Combat.thy ===== *)
theory Typing_Combat
  imports Typing
begin

text \<open>
  In a well-typed heap the queries of the scene return, and a strike returns and keeps the heap typed: no
  cast fails, no loop runs on, no addition overflows and no state machine is without a current state.
\<close>

section \<open>Queries of the scene\<close>

lemma ex_Not [simp]: "Ex Not"
  by (rule exI[of _ False]) simp

lemma heap_typed_acyclic:
  assumes "heap_typed h"
  shows "acyclic_parents h"
proof -
  obtain depth where d: "deeper h depth" using assms by (auto simp: heap_typed_def)
  have "parent_edge h \<subseteq> measure depth"
    using d by (auto simp: parent_edge_iff deeper_def)
  then show ?thesis unfolding acyclic_parents_def by (rule wf_subset[OF wf_measure])
qed

lemma typed_position: "heap_typed h \<Longrightarrow> h a \<noteq> None \<Longrightarrow> \<exists>v. get_global_position gl h a = Some v"
  using node_loops_return heap_typed_acyclic by blast

lemma typed_root:
  assumes "heap_typed h" "h a \<noteq> None"
  shows "\<exists>r. get_root h a = Some r \<and> h r \<noteq> None"
  using node_loops_return[OF heap_typed_acyclic[OF assms(1)] assms(2)] unfolding is_root_of_def by blast

lemma typed_shape_colliding:
  assumes "heap_typed h" "is_shape h a" "h b \<noteq> None"
  shows "\<exists>hit. shape_is_colliding gl h a b = Some hit"
proof -
  obtain n m where n: "h a = Some n" and m: "h b = Some m"
    using assms(2,3) by (auto simp: is_shape_def split: option.splits)
  obtain u v where "get_global_position gl h a = Some u" "get_global_position gl h b = Some v"
    using typed_position[OF assms(1)] n m by blast
  then show ?thesis
    using assms(2) n m
    by (cases "object n"; cases "object m")
      (simp_all add: is_shape_def shape_is_colliding_def cube_is_colliding_def sphere_is_colliding_def Let_def)
qed

lemma typed_candidate:
  assumes "heap_typed h" "typing h c = Some C_collider" "typing h t = Some C_shape"
  shows "\<exists>hit. collision_candidate gl h t msk c = Some hit"
proof -
  obtain n s l m where c: "h c = Some n" "object n = Collider s l m"
    using assms(2) by (auto simp: typing_collider)
  have "is_shape h s" using collider_shape[OF assms(1) c] by (simp add: typing_shape)
  then show ?thesis
    using c typed_shape_colliding[OF assms(1)] typing_live[OF assms(3)] by (simp add: collision_candidate_def)
qed

lemma typed_colliding:
  assumes "heap_typed h" "typing h a = Some C_collider" "typing h b = Some C_collider"
  shows "\<exists>hit. object_is_colliding gl h a b = Some hit"
proof -
  obtain n s l m n' s' l' m' where a: "h a = Some n" "object n = Collider s l m"
    and b: "h b = Some n'" "object n' = Collider s' l' m'"
    using assms(2,3) by (auto simp: typing_collider)
  have "is_shape h s" "h s' \<noteq> None"
    using collider_shape[OF assms(1) a] typing_live[OF collider_shape[OF assms(1) b]] by (auto simp: typing_shape)
  then show ?thesis
    using a b typed_shape_colliding[OF assms(1)] by (simp add: object_is_colliding_def)
qed

text \<open>The maps of a subworld hold entities and colliders.\<close>

definition subworld_typed :: "(addr \<rightharpoonup> cls) \<Rightarrow> subworld \<Rightarrow> bool" where
  "subworld_typed T sw \<longleftrightarrow>
     um_ok (sw_entities sw) \<and> (\<forall>(i, a) \<in> set (sw_entities sw). entity_ref T i a)
     \<and> (\<forall>c \<in> set (um_values (sw_collision_objects sw)). T c = Some C_collider)
     \<and> (\<forall>c \<in> set (um_values (sw_collision_areas sw)). T c = Some C_collider)"

lemma typed_get_collisions:
  assumes "heap_typed h" "subworld_typed (typing h) sw" "typing h t = Some C_shape"
  shows "\<exists>cols. get_collisions_shape gl h t msk sw = Some cols \<and> set cols \<subseteq> set (um_values (sw_collision_objects sw))
    \<and> (\<forall>c \<in> set cols. typing h c = Some C_collider)"
proof -
  have "\<exists>cols. get_collisions_shape gl h t msk sw = Some cols \<and> set cols \<subseteq> set (um_values (sw_collision_objects sw))"
    unfolding get_collisions_shape_def
  proof (rule fold_opt_total[where P = "\<lambda>cols. set cols \<subseteq> set (um_values (sw_collision_objects sw))"])
    fix c and found :: "addr list"
    assume c: "c \<in> set (um_values (sw_collision_objects sw))" and f: "set found \<subseteq> set (um_values (sw_collision_objects sw))"
    have "typing h c = Some C_collider" using c assms(2) by (simp add: subworld_typed_def)
    then obtain hit where "collision_candidate gl h t msk c = Some hit"
      using typed_candidate[OF assms(1) _ assms(3)] by blast
    then show "\<exists>t'. (case collision_candidate gl h t msk c of None \<Rightarrow> None
        | Some hit \<Rightarrow> Some (if hit then found @ [c] else found)) = Some t'
        \<and> set t' \<subseteq> set (um_values (sw_collision_objects sw))"
      using c f by auto
  qed simp
  then show ?thesis using assms(2) unfolding subworld_typed_def by blast
qed

section \<open>State machines\<close>

lemma machine_try:
  assumes "machine_typed sm"
  obtains ok sm' where "sm_try_transition ''Attacking'' sm () = Some (ok, sm', ())" "machine_typed sm'"
proof (cases "sm_current sm = State_at ''Idle''")
  case True
  then show thesis
    using assms that table_can_transition(1)[of sm] by (auto simp: machine_typed_def)
next
  case False
  then show thesis
    using assms that table_can_transition(2)[of sm] by (auto simp: machine_typed_def)
qed

lemma machine_typed_name: "machine_typed (state_machine e) \<Longrightarrow> \<exists>name. current_state_name e = Some name"
  by (auto simp: machine_typed_def current_state_name_def sm_deref_def sm_table_eq um_find_def)

lemma machine_typed_delayed:
  "machine_typed sm \<Longrightarrow> machine_typed (sm_transition_delayed ''Idle'' now delay override sm)"
  by (auto simp: machine_typed_def sm_transition_delayed_def sm_abort_def cancel_timer_def Let_def
      split: option.split)

lemma machine_typed_resume:
  assumes "machine_typed sm" "sm_resume t sm () = Some (sm', u)"
  shows "machine_typed sm'"
proof -
  obtain d where d: "find_delayed t sm = Some d" using assms(2) by (auto simp: sm_resume_def split: option.splits)
  let ?sm = "sm\<lparr>sm_delayed := filter (\<lambda>x. dl_timer x \<noteq> t) (sm_delayed sm)\<rparr>"
  have sm: "machine_typed ?sm" using assms(1) by (simp add: machine_typed_def)
  have idle: "dl_target d = ''Idle''"
    using d assms(1) by (auto simp: find_delayed_def machine_typed_def find_Some_iff)
  consider "sm' = ?sm" | "sm_try_transition (dl_target d) ?sm () = Some (fst (the (sm_try_transition (dl_target d) ?sm ())), sm', u)"
    using assms(2) d by (auto simp: sm_resume_def Let_def split: delay_phase.splits)
  then show ?thesis
  proof cases
    case 2
    then have t: "sm_try_transition ''Idle'' ?sm () = Some (fst (the (sm_try_transition ''Idle'' ?sm ())), sm', u)"
      by (simp only: idle)
    show ?thesis
    proof (cases "sm_current sm = State_at ''Idle''")
      case True
      then have "sm_try_transition ''Idle'' ?sm () = Some (False, ?sm, ())"
        using sm by (simp add: machine_typed_def sm_try_transition_def sm_deref_def sm_table_eq um_find_def
            state_can_transition_def add_transition_def plain_state_def um_assign_def)
      then show ?thesis using t sm by simp
    next
      case False
      then have "sm_current ?sm = State_at ''Attacking''" "sm_states ?sm = sm_table"
        using sm by (auto simp: machine_typed_def)
      from table_can_transition(3)[OF this(2,1)] show ?thesis using t sm by (auto simp: machine_typed_def)
    qed
  qed (use sm in simp)
qed

text \<open>Setting the machine of an entity.\<close>

lemma typed_set_machine:
  assumes "heap_typed h" "entity_at h a = Some e" "machine_typed sm"
  shows "\<exists>h'. set_machine a sm h = Some h' \<and> retyped h h' \<and> entity_at h' a = Some (e\<lparr>state_machine := sm\<rparr>)"
proof -
  have "entity_typed (typing h) (e\<lparr>state_machine := sm\<rparr>)"
    using heap_typed_entity(1)[OF assms(1,2)] assms(3) by (simp add: entity_typed_def)
  then have "retyped h (set_entity a (e\<lparr>state_machine := sm\<rparr>) h)"
    by (intro retyped_set_entity[OF assms(1,2)]) simp_all
  then show ?thesis
    using assms(2) entity_at_dom[OF assms(2)] by (simp add: set_machine_def heap_simps)
qed

section \<open>A strike\<close>

lemma typed_hit:
  assumes "heap_typed h" "h c \<noteq> None" "0 \<le> damage" "damage < 2 ^ 31"
  shows "\<exists>h' ds'. hit_collider me damage c (h, ds) = Some (h', ds') \<and> retyped h h'"
proof -
  obtain r where r: "get_root h c = Some r" using typed_root[OF assms(1,2)] by blast
  show ?thesis
  proof (cases "entity_at h r")
    case None
    then show ?thesis using r retyped_refl[OF assms(1)] by (simp add: hit_collider_def)
  next
    case (Some e)
    have ok: "resource_ok (resource e)" and te: "entity_typed (typing h) e"
      using heap_typed_entity(1)[OF assms(1) Some] by (simp_all add: entity_typed_def)
    obtain res sig where ch: "change_health ADD (- damage) (resource e) = Some (res, sig)"
      using change_health_damage[OF ok, of "- damage"] assms(3,4) by auto
    have "retyped h (set_entity r (e\<lparr>resource := res\<rparr>) h)"
      using te change_health_ok(1)[OF ok ch]
      by (intro retyped_set_entity[OF assms(1) Some]) (simp_all add: entity_typed_def)
    then show ?thesis
      using r Some ch assms(3,4) retyped_refl[OF assms(1)]
      by (simp add: hit_collider_def entity_change_health_def int_range_def)
  qed
qed

lemma typed_hits:
  assumes "heap_typed h" "\<forall>c \<in> set cols. typing h c = Some C_collider" "0 \<le> damage" "damage < 2 ^ 31"
  shows "\<exists>h' ds'. fold_opt (hit_collider me damage) cols (h, ds) = Some (h', ds') \<and> retyped h h'"
proof -
  have "\<exists>t. fold_opt (hit_collider me damage) cols (h, ds) = Some t \<and> retyped h (fst t)"
  proof (rule fold_opt_total[where P = "\<lambda>t. retyped h (fst t)"])
    fix c and s :: "heap \<times> (u32 \<times> int) list"
    assume c: "c \<in> set cols" and s: "retyped h (fst s)"
    obtain h1 ds1 where s': "s = (h1, ds1)" by (cases s)
    then have h1: "heap_typed h1" "typing h1 = typing h" using s by (simp_all add: retyped_def)
    then have "h1 c \<noteq> None" using c assms(2) typing_live by metis
    from typed_hit[OF h1(1) this assms(3,4), of me ds1] show "\<exists>t. hit_collider me damage c s = Some t \<and> retyped h (fst t)"
      using s h1 unfolding s' retyped_def by auto
  qed (simp add: retyped_refl[OF assms(1)])
  then show ?thesis by auto
qed

lemma typed_strike:
  assumes h: "heap_typed h" and user: "entity_at h user = Some e" and w: "fist_typed (typing h) weapon"
    and sw: "subworld_typed (typing h) (zn_subworld z)" and members: "snd ` set (zn_clients z) \<subseteq> dom cs"
  shows "\<exists>h' cs'. melee_strike gl now z user me weapon (h, cs) = Some (h', cs') \<and> retyped h h' \<and> dom cs' = dom cs"
proof -
  have f: "typing h (fist_shape weapon) = Some C_shape" "0 \<le> fist_damage weapon" "fist_damage weapon < 2 ^ 31"
    using w by (simp_all add: fist_typed_def)
  obtain cols where cols: "get_collisions_shape gl h (fist_shape weapon) layer_entities (zn_subworld z) = Some cols"
    "\<forall>c \<in> set cols. typing h c = Some C_collider"
    using typed_get_collisions[OF h sw f(1)] by blast
  obtain h1 ds where hits: "fold_opt (hit_collider me (fist_damage weapon)) cols (h, []) = Some (h1, ds)" "retyped h h1"
    using typed_hits[OF h cols(2) f(2,3)] by blast
  obtain cs1 where cs1: "(if ds \<noteq> [] then broadcast (Out_EntityResourceChanges ds) 0 z cs else Some cs) = Some cs1"
    "dom cs1 = dom cs"
    using broadcast_total[OF members, of "Out_EntityResourceChanges ds" 0] by (cases "ds = []") auto
  have members1: "snd ` set (zn_clients z) \<subseteq> dom cs1" using members cs1(2) by simp
  obtain cs2 where cs2: "broadcast (Out_SkillMeleeAttack me) 0 z cs1 = Some cs2" "dom cs2 = dom cs1"
    using broadcast_total[OF members1, of "Out_SkillMeleeAttack me" 0] by auto
  have h1: "heap_typed h1" "typing h1 = typing h" using hits(2) by (simp_all add: retyped_def)
  have "typing h1 user = Some (C_player (entity_id e)) \<or> typing h1 user = Some (C_monster (entity_id e))"
    using typing_entity[OF user] h1(2) by (simp add: entity_cls_def split: entity_class.split)
  then have "entity_ref (typing h1) (entity_id e) user" by (simp add: entity_ref_def)
  then obtain e1 where e1: "entity_at h1 user = Some e1" by (rule entity_refE)
  have "machine_typed (sm_transition_delayed ''Idle'' now attack_cooldown_ms True (state_machine e1))"
    using heap_typed_entity(1)[OF h1(1) e1] machine_typed_delayed by (simp add: entity_typed_def)
  from typed_set_machine[OF h1(1) e1 this] obtain h2 where
    h2: "set_machine user (sm_transition_delayed ''Idle'' now attack_cooldown_ms True (state_machine e1)) h1 = Some h2"
    "retyped h1 h2" by blast
  have "melee_strike gl now z user me weapon (h, cs) = Some (h2, cs2)"
    using cols(1) hits(1) cs1(1) cs2(1) e1 h2(1) unfolding melee_strike_def by simp
  then show ?thesis using retyped_trans[OF hits(2) h2(2)] cs1(2) cs2(2) by blast
qed

text \<open>A melee attack returns, whatever the state of the attacker, and keeps the heap typed.\<close>

lemma typed_melee:
  assumes h: "heap_typed h" and user: "entity_at h user = Some e" and w: "fist_typed (typing h) weapon"
    and sw: "subworld_typed (typing h) (zn_subworld z)" and members: "snd ` set (zn_clients z) \<subseteq> dom cs"
  shows "\<exists>h' cs'. melee_use gl now z user weapon (h, cs) = Some (h', cs') \<and> retyped h h' \<and> dom cs' = dom cs"
proof -
  have "machine_typed (state_machine e)" using heap_typed_entity(1)[OF h user] by (simp add: entity_typed_def)
  then obtain ok sm where sm: "sm_try_transition ''Attacking'' (state_machine e) () = Some (ok, sm, ())" "machine_typed sm"
    by (rule machine_try)
  show ?thesis
  proof (cases ok)
    case False
    then show ?thesis using user sm(1) retyped_refl[OF h] by (simp add: melee_use_def)
  next
    case True
    obtain h1 where h1: "set_machine user sm h = Some h1" "retyped h h1" "entity_at h1 user = Some (e\<lparr>state_machine := sm\<rparr>)"
      using typed_set_machine[OF h user sm(2)] by blast
    then have "heap_typed h1" "typing h1 = typing h" by (simp_all add: retyped_def)
    then obtain h2 cs2 where "melee_strike gl now z user (entity_id e) weapon (h1, cs) = Some (h2, cs2)"
      "retyped h1 h2" "dom cs2 = dom cs"
      using typed_strike[OF _ h1(3), of weapon z cs gl now "entity_id e"] w sw members by auto
    then show ?thesis using user sm(1) h1 True retyped_trans[OF h1(2)] by (simp add: melee_use_def)
  qed
qed

end
