(* ===== verification/Typing_World.thy ===== *)
theory Typing_World
  imports Typing_Combat
begin

text \<open>
  The factories of players and monsters and the loading of a player extend a well-typed heap to a well-typed
  one; walking the colliders of an entity returns and finds colliders.
\<close>

section \<open>New objects\<close>

definition world_typed :: "world \<Rightarrow> bool" where
  "world_typed w \<longleftrightarrow> heap_typed (wd_heap w) \<and> (\<forall>a. wd_heap w a \<noteq> None \<longrightarrow> a < wd_next w)"

text \<open>A tree of new objects at the addresses from \<open>n\<close> on.\<close>

lemma heap_typed_grow:
  fixes dp :: "addr \<Rightarrow> nat"
  assumes h: "heap_typed h" and fresh: "\<And>a. h a \<noteq> None \<Longrightarrow> a < n" and old: "\<And>a. a < n \<Longrightarrow> h' a = h a"
    and new: "\<And>a m. n \<le> a \<Longrightarrow> h' a = Some m \<Longrightarrow> node_typed (typing h') m \<and> dp a \<le> 3
      \<and> (\<forall>p. parent m = Some p \<longrightarrow> n \<le> p \<and> h' p \<noteq> None \<and> dp p < dp a)
      \<and> (\<forall>c \<in> set (children m). n \<le> c \<and> h' c \<noteq> None \<and> dp a < dp c)"
  shows "heap_typed h' \<and> typing h \<subseteq>\<^sub>m typing h'"
proof -
  have ext: "typing h \<subseteq>\<^sub>m typing h'"
    using fresh old by (auto simp: map_le_def typing_def)
  obtain depth where d: "deeper h depth" using h by (auto simp: heap_typed_def)
  define depth' where "depth' a = (if a < n then depth a else dp a)" for a
  have "deeper h' depth'"
    unfolding deeper_def
  proof (intro allI impI)
    fix a m assume m: "h' a = Some m"
    show "depth' a \<le> 3 \<and> (\<forall>p. parent m = Some p \<longrightarrow> h' p \<noteq> None \<and> depth' p < depth' a)
      \<and> (\<forall>c \<in> set (children m). h' c \<noteq> None \<and> depth' a < depth' c)"
    proof (cases "a < n")
      case True
      then have "h a = Some m" using m old by simp
      then have up: "depth a \<le> 3 \<and> (\<forall>p. parent m = Some p \<longrightarrow> h p \<noteq> None \<and> depth p < depth a)
        \<and> (\<forall>c \<in> set (children m). h c \<noteq> None \<and> depth a < depth c)"
        using d unfolding deeper_def by blast
      have live: "b < n \<and> h' b \<noteq> None" if "h b \<noteq> None" for b using fresh[OF that] old that by simp
      show ?thesis
      proof (intro conjI allI impI ballI)
        fix p assume "parent m = Some p"
        then have "h p \<noteq> None" "depth p < depth a" using up by blast+
        then show "h' p \<noteq> None" "depth' p < depth' a" using live[of p] True by (simp_all add: depth'_def)
      next
        fix c assume "c \<in> set (children m)"
        then have "h c \<noteq> None" "depth a < depth c" using up by blast+
        then show "h' c \<noteq> None" "depth' a < depth' c" using live[of c] True by (simp_all add: depth'_def)
      qed (use up True in \<open>simp add: depth'_def\<close>)
    next
      case False
      then show ?thesis using new[of a m] m by (auto simp: depth'_def)
    qed
  qed
  moreover have "node_typed (typing h') m" if m: "h' a = Some m" for a m
  proof (cases "a < n")
    case True
    then show ?thesis using m old heap_typed_node[OF h] node_typed_mono[OF ext] by simp
  next
    case False
    then show ?thesis using new[of a m] m by simp
  qed
  ultimately show ?thesis using ext unfolding heap_typed_def by blast
qed

lemma combat_machine_typed: "machine_typed combat_machine"
  by (simp add: machine_typed_def combat_machine_idle sm_table_def)

lemma zero3_convertible [simp]: "convertible zero3"
  by (simp add: convertible_def zero3_def point_of_floats_def f_floor_int_def int_range_def)

lemmas new_node_simps = node_typed_def entity_typed_def class_typed_def fist_typed_def combat_machine_typed
  resource_ok_def typing_def

lemma typed_player_create:
  assumes "world_typed w"
  shows "\<exists>pl w'. player_create sz et w = Some (pl, w') \<and> world_typed w'
    \<and> typing (wd_heap w) \<subseteq>\<^sub>m typing (wd_heap w') \<and> player_ref (typing (wd_heap w')) pl"
proof -
  let ?n = "wd_next w"
  obtain w' where w': "player_create sz et w = Some (?n, w')"
    by (auto simp: player_create_def factory_defs split_beta)
  note h' = w'[unfolded player_create_def factory_defs split_beta, simplified]
  define dp where "dp a = [0, 2, 1, 1, 2, 3 :: nat] ! (a - ?n)" for a
  have "heap_typed (wd_heap w') \<and> typing (wd_heap w) \<subseteq>\<^sub>m typing (wd_heap w')"
  proof (rule heap_typed_grow[where n = ?n and dp = dp])
    fix a m assume a: "?n \<le> a" and m: "wd_heap w' a = Some m"
    then have fresh: "wd_heap w a = None" using assms by (auto simp: world_typed_def not_less[symmetric])
    have "a \<in> {?n, Suc ?n, ?n + 2, ?n + 3, ?n + 4, ?n + 5}"
      using m fresh unfolding h'[symmetric] by (simp split: if_splits)
    then show "node_typed (typing (wd_heap w')) m \<and> dp a \<le> 3
      \<and> (\<forall>p. parent m = Some p \<longrightarrow> ?n \<le> p \<and> wd_heap w' p \<noteq> None \<and> dp p < dp a)
      \<and> (\<forall>c \<in> set (children m). ?n \<le> c \<and> wd_heap w' c \<noteq> None \<and> dp a < dp c)"
      using m unfolding h'[symmetric] by (elim insertE emptyE) (force simp: new_node_simps dp_def)+
  qed (use assms h' in \<open>auto simp: world_typed_def\<close>)
  moreover have "player_ref (typing (wd_heap w')) ?n" "\<forall>a. wd_heap w' a \<noteq> None \<longrightarrow> a < wd_next w'"
    using h' assms by (auto simp: typing_def world_typed_def less_Suc_eq player_ref_def entity_ref_def split: if_splits)
  ultimately show ?thesis using w' by (auto simp: world_typed_def)
qed

lemma typed_simple_monster_create:
  assumes "world_typed w"
  shows "\<exists>mo w'. simple_monster_create sz w = Some (mo, w') \<and> world_typed w'
    \<and> typing (wd_heap w) \<subseteq>\<^sub>m typing (wd_heap w') \<and> (\<exists>i. entity_ref (typing (wd_heap w')) i mo)"
proof -
  let ?n = "wd_next w"
  obtain w' where w': "simple_monster_create sz w = Some (?n, w')"
    by (auto simp: simple_monster_create_def factory_defs split_beta)
  note h' = w'[unfolded simple_monster_create_def factory_defs split_beta, simplified]
  define dp where "dp a = [0, 2, 1, 1, 1, 2 :: nat] ! (a - ?n)" for a
  have "heap_typed (wd_heap w') \<and> typing (wd_heap w) \<subseteq>\<^sub>m typing (wd_heap w')"
  proof (rule heap_typed_grow[where n = ?n and dp = dp])
    fix a m assume a: "?n \<le> a" and m: "wd_heap w' a = Some m"
    then have fresh: "wd_heap w a = None" using assms by (auto simp: world_typed_def not_less[symmetric])
    have "a \<in> {?n, Suc ?n, ?n + 2, ?n + 3, ?n + 4, ?n + 5}"
      using m fresh unfolding h'[symmetric] by (simp split: if_splits)
    then show "node_typed (typing (wd_heap w')) m \<and> dp a \<le> 3
      \<and> (\<forall>p. parent m = Some p \<longrightarrow> ?n \<le> p \<and> wd_heap w' p \<noteq> None \<and> dp p < dp a)
      \<and> (\<forall>c \<in> set (children m). ?n \<le> c \<and> wd_heap w' c \<noteq> None \<and> dp a < dp c)"
      using m unfolding h'[symmetric] by (elim insertE emptyE) (force simp: new_node_simps dp_def)+
  qed (use assms h' in \<open>auto simp: world_typed_def\<close>)
  moreover have "\<exists>i. entity_ref (typing (wd_heap w')) i ?n" "\<forall>a. wd_heap w' a \<noteq> None \<longrightarrow> a < wd_next w'"
    using h' assms by (auto simp: typing_def world_typed_def less_Suc_eq player_ref_def entity_ref_def split: if_splits)
  ultimately show ?thesis using w' by (auto simp: world_typed_def)
qed

section \<open>Loading a player\<close>

text \<open>A change of a player that keeps its weapon.\<close>

lemma typed_modify_player:
  assumes "world_typed w" "modify_player pl f w = Some w'" "\<And>d. pl_main_weapon (f d) = pl_main_weapon d"
  shows "world_typed w' \<and> typing (wd_heap w') = typing (wd_heap w)"
proof -
  let ?g = "\<lambda>e. case en_class e of Player_class d \<Rightarrow> e\<lparr>en_class := Player_class (f d)\<rparr> | _ \<Rightarrow> e"
  obtain e where e: "entity_at (wd_heap w) pl = Some e" and w': "w' = w\<lparr>wd_heap := set_entity pl (?g e) (wd_heap w)\<rparr>"
    using assms(2) by (auto simp: modify_player_def modify_entity_def)
  have h: "heap_typed (wd_heap w)" using assms(1) by (simp add: world_typed_def)
  have "entity_typed (typing (wd_heap w)) (?g e) \<and> entity_cls (?g e) = entity_cls e"
    using heap_typed_entity(1)[OF h e] assms(3)
    by (cases "en_class e") (simp_all add: entity_typed_def class_typed_def entity_cls_def)
  then have r: "retyped (wd_heap w) (wd_heap w')" using retyped_set_entity[OF h e] by (simp add: w')
  moreover have "wd_heap w' a \<noteq> None \<longleftrightarrow> wd_heap w a \<noteq> None" for a
    using r typing_None[of "wd_heap w'" a] typing_None[of "wd_heap w" a] by (simp add: retyped_def)
  ultimately show ?thesis using assms(1) by (simp add: world_typed_def retyped_def w')
qed

lemma typed_load_rest:
  assumes w: "world_typed w" and load: "load_rest sz db ch w = Some (res, w')"
  shows "world_typed w' \<and> typing (wd_heap w) \<subseteq>\<^sub>m typing (wd_heap w')
    \<and> (\<forall>pl. res = Inr (Some pl) \<longrightarrow> player_ref (typing (wd_heap w')) pl)"
proof -
  obtain i n race where ch: "ch = (i, n, race)" by (cases ch)
  obtain pl w1 where c: "player_create sz (entity_types_map race) w = Some (pl, w1)"
    and w1: "world_typed w1" "typing (wd_heap w) \<subseteq>\<^sub>m typing (wd_heap w1)" "player_ref (typing (wd_heap w1)) pl"
    using typed_player_create[OF w] by blast
  obtain w2 where w2: "modify_player pl (\<lambda>d. d\<lparr>pl_character_id := i, pl_player_name := n\<rparr>) w1 = Some w2"
    using load c by (auto simp: load_rest_def ch bind_eq_Some_conv)
  note t2 = typed_modify_player[OF w1(1) w2, simplified]
  have "w' = w2 \<and> (\<forall>q. res \<noteq> Inr (Some q)) \<or>
    (\<exists>s. modify_player pl (\<lambda>d. d\<lparr>pl_stats := s\<rparr>) w2 = Some w' \<and> res = Inr (Some pl))"
  proof (cases "db_format_ok db \<and> (\<exists>r rs. db_stats db i = Some (r # rs))")
    case False
    then show ?thesis using load c w2 by (auto simp: load_rest_def ch split: if_splits option.splits list.splits)
  next
    case True
    then obtain r rs where r: "db_format_ok db" "db_stats db i = Some (r # rs)" by blast
    then obtain d where d: "player_data_of pl w2 = Some d"
      using load c w2 by (auto simp: load_rest_def ch bind_eq_Some_conv)
    then show ?thesis
      using load c w2 r by (cases "load_stats r (pl_stats d)") (auto simp: load_rest_def ch bind_eq_Some_conv split: if_splits)
  qed
  then show ?thesis using t2 w1 typed_modify_player[of w2 pl _ w'] by auto
qed

lemma typed_player_load:
  assumes "world_typed w" "player_load sz db w = Some (res, w')"
  shows "world_typed w' \<and> typing (wd_heap w) \<subseteq>\<^sub>m typing (wd_heap w')
    \<and> (\<forall>pl. res = Inr (Some pl) \<longrightarrow> player_ref (typing (wd_heap w')) pl)"
proof -
  have "w' = w \<and> (\<forall>pl. res \<noteq> Inr (Some pl)) \<or> (\<exists>ch. load_rest sz db ch w = Some (res, w'))"
    using assms(2) by (auto simp: player_load_def split: if_splits option.splits list.splits sum.splits)
  then show ?thesis using assms(1) typed_load_rest[OF assms(1)] by auto
qed

section \<open>The colliders of an entity\<close>

lemma um_assign_subset: "set (um_assign k v m) \<subseteq> insert (k, v) (set m)"
  by (induction m) (auto simp: um_assign_def)

lemma um_erase_subset: "set (um_erase k m) \<subseteq> set m"
  by (auto simp: um_erase_def AList.delete_eq)

lemma um_values_assign: "set (um_values (um_assign k v m)) \<subseteq> insert v (set (um_values m))"
  using um_assign_subset[of k v m] by (fastforce simp: um_values_def)

lemma um_values_erase: "set (um_values (um_erase k m)) \<subseteq> set (um_values m)"
  using um_erase_subset[of k m] by (fastforce simp: um_values_def)

text \<open>Both loops go down a tree of depth three: they return.\<close>

lemma typed_add_loop:
  assumes d: "deeper h depth"
  shows "\<forall>c \<in> set cs. h c \<noteq> None \<and> 4 \<le> j + depth c \<Longrightarrow> \<forall>c \<in> set (um_values m). typing h c = Some C_collider
    \<Longrightarrow> \<exists>m'. add_objects_loop h cs m = Some m' \<and> (\<forall>c \<in> set (um_values m'). typing h c = Some C_collider)"
proof (induction j arbitrary: cs m)
  case 0
  then have "cs = []" using d unfolding deeper_def by (cases cs) fastforce+
  then show ?case using 0 by (simp add: add_objects_loop.simps)
next
  case (Suc j)
  show ?case
    using Suc.prems
  proof (induction cs arbitrary: m)
    case Nil
    then show ?case by (simp add: add_objects_loop.simps)
  next
    case (Cons c cs)
    then obtain n where n: "h c = Some n" and k: "4 \<le> Suc j + depth c" by auto
    let ?m = "if is_collider n then um_assign (node_id n) c m else m"
    have "\<forall>x \<in> set (um_values ?m). typing h x = Some C_collider"
      using Cons.prems(2) um_values_assign[of "node_id n" c m] n
      by (auto simp: is_collider_def typing_collider split: object.splits)
    moreover have "\<forall>x \<in> set (children n). h x \<noteq> None \<and> 4 \<le> j + depth x"
      using d n k unfolding deeper_def by fastforce
    ultimately obtain m1 where m1: "add_objects_loop h (children n) ?m = Some m1"
      "\<forall>x \<in> set (um_values m1). typing h x = Some C_collider"
      using Suc.IH by blast
    obtain m2 where "add_objects_loop h cs m1 = Some m2" "\<forall>x \<in> set (um_values m2). typing h x = Some C_collider"
      using Cons.IH[OF _ m1(2)] Cons.prems(1) by auto
    then show ?case using m1 n by (subst add_objects_loop.simps) simp
  qed
qed

lemma typed_remove_loop:
  assumes d: "deeper h depth"
  shows "\<forall>c \<in> set cs. h c \<noteq> None \<and> 4 \<le> j + depth c
    \<Longrightarrow> \<exists>m'. remove_objects_loop h cs m = Some m' \<and> set (um_values m') \<subseteq> set (um_values m)"
proof (induction j arbitrary: cs m)
  case 0
  then have "cs = []" using d unfolding deeper_def by (cases cs) fastforce+
  then show ?case by (simp add: remove_objects_loop.simps)
next
  case (Suc j)
  show ?case
    using Suc.prems
  proof (induction cs arbitrary: m)
    case Nil
    then show ?case by (simp add: remove_objects_loop.simps)
  next
    case (Cons c cs)
    then obtain n where n: "h c = Some n" and k: "4 \<le> Suc j + depth c" by auto
    let ?m = "if is_collider n then um_erase (node_id n) m else m"
    have "\<forall>x \<in> set (children n). h x \<noteq> None \<and> 4 \<le> j + depth x"
      using d n k unfolding deeper_def by fastforce
    then obtain m1 where m1: "remove_objects_loop h (children n) ?m = Some m1" "set (um_values m1) \<subseteq> set (um_values ?m)"
      using Suc.IH by blast
    obtain m2 where "remove_objects_loop h cs m1 = Some m2" "set (um_values m2) \<subseteq> set (um_values m1)"
      using Cons.IH[of m1] Cons.prems(1) by auto
    then show ?case
      using m1 n um_values_erase[of "node_id n" m] by (subst remove_objects_loop.simps) (auto split: if_splits)
  qed
qed

lemma typed_add_entity:
  assumes h: "heap_typed h" and sw: "subworld_typed (typing h) sw"
    and a: "entity_ref (typing h) i a"
  shows "\<exists>sw'. add_entity h a sw = Some sw' \<and> subworld_typed (typing h) sw'
    \<and> sw_obstacles_grid sw' = sw_obstacles_grid sw"
proof -
  obtain n e where n: "h a = Some n" "entity_at h a = Some e" "entity_id e = i"
    using a by (rule entity_refE)
  obtain depth where d: "deeper h depth" using h by (auto simp: heap_typed_def)
  then have "\<forall>c \<in> set (children n). h c \<noteq> None \<and> 4 \<le> 4 + depth c" using n unfolding deeper_def by auto
  then obtain m where m: "add_objects_loop h (children n) (sw_collision_objects sw) = Some m"
    "\<forall>c \<in> set (um_values m). typing h c = Some C_collider"
    using typed_add_loop[OF d, of "children n" 4 "sw_collision_objects sw"] sw unfolding subworld_typed_def by blast
  then show ?thesis
    using n sw a um_assign_subset[of i a "sw_entities sw"]
    by (auto simp: add_entity_def add_collision_objects_from_tree_def get_children_def subworld_typed_def)
qed

lemma typed_remove_entity:
  assumes h: "heap_typed h" and sw: "subworld_typed (typing h) sw" and a: "player_ref (typing h) a"
  shows "\<exists>sw'. remove_entity h a sw = Some sw' \<and> subworld_typed (typing h) sw'"
proof -
  obtain n e where n: "h a = Some n" "entity_at h a = Some e"
    using a by (rule player_refE)
  obtain depth where d: "deeper h depth" using h by (auto simp: heap_typed_def)
  then have "\<forall>c \<in> set (children n). h c \<noteq> None \<and> 4 \<le> 4 + depth c" using n unfolding deeper_def by auto
  then obtain m where m: "remove_objects_loop h (children n) (sw_collision_objects sw) = Some m"
    "set (um_values m) \<subseteq> set (um_values (sw_collision_objects sw))"
    using typed_remove_loop[OF d, of "children n" 4 "sw_collision_objects sw"] by blast
  then show ?thesis
    using n sw um_erase_subset[of "entity_id e" "sw_entities sw"]
    by (auto simp: remove_entity_def remove_collision_objects_from_tree_def get_children_def subworld_typed_def subset_iff)
qed

end
