(* ===== verification/Typing_Zone.thy ===== *)
theory Typing_Zone
  imports Typing_World
begin

text \<open>
  Every job of a zone keeps the heap typed, and a job is undefined only for a reason that is named: a client
  without a player, a packet without a body, or a tick that meets a coordinate no \<open>int\<close> can hold or a
  distance that is not a number.
\<close>

section \<open>Moving the entities\<close>

text \<open>The next position of the entity at \<open>a\<close>, if it has one, can be converted to a cell.\<close>

definition step_defined :: "glm \<Rightarrow> heap \<Rightarrow> addr \<Rightarrow> bool" where
  "step_defined gl h a \<longleftrightarrow>
     (\<forall>n e v. h a = Some n \<longrightarrow> entity_at h a = Some e \<longrightarrow> current_state_name e \<noteq> Some ''Attacking''
        \<longrightarrow> snd (next_step gl e (position n)) = Some v \<longrightarrow> convertible v)"

lemma step_defined_cong: "h' a = h a \<Longrightarrow> step_defined gl h' a = step_defined gl h a"
  by (simp add: step_defined_def entity_at_def)

lemma move_entity_cases:
  assumes "move_entity gl g a h = Some h'"
  obtains "h' = h"
    | e dir where "entity_at h a = Some e" "h' = set_entity a (e\<lparr>target_direction := dir\<rparr>) h"
    | e dir v where "entity_at h a = Some e" "convertible v"
        "h' = set_position a v (set_entity a (e\<lparr>target_direction := dir\<rparr>) h)"
proof -
  obtain n e where n: "h a = Some n" and e: "entity_at h a = Some e"
    using assms by (auto simp: move_entity_def split: option.splits)
  obtain name where name: "current_state_name e = Some name"
    using assms n e by (auto simp: move_entity_def split: option.splits)
  obtain dir np where "next_step gl e (position n) = (dir, np)" by fastforce
  then have "h' = h \<or> h' = set_entity a (e\<lparr>target_direction := dir\<rparr>) h
    \<or> (\<exists>v. convertible v \<and> h' = set_position a v (set_entity a (e\<lparr>target_direction := dir\<rparr>) h))"
    using assms n e name
    by (auto simp: move_entity_def convertible_def Let_def split: option.splits if_splits)
  then show thesis using that e by blast
qed

lemma typed_direction:
  assumes "heap_typed h" "entity_at h a = Some e"
  shows "retyped h (set_entity a (e\<lparr>target_direction := v\<rparr>) h)"
  using heap_typed_entity(1)[OF assms]
  by (intro retyped_set_entity[OF assms]) (simp_all add: entity_typed_def)

lemma typed_move:
  assumes h: "heap_typed h" and move: "move_entity gl g a h = Some h'"
  shows "retyped h h'"
  using move
proof (cases rule: move_entity_cases)
  case 1
  then show ?thesis using retyped_refl[OF h] by simp
next
  case (2 e dir)
  then show ?thesis using typed_direction[OF h] by simp
next
  case (3 e dir v)
  have r: "retyped h (set_entity a (e\<lparr>target_direction := dir\<rparr>) h)" using typed_direction[OF h 3(1)] .
  then have "retyped (set_entity a (e\<lparr>target_direction := dir\<rparr>) h) h'"
    unfolding 3(3) by (intro retyped_set_position[OF _ 3(2)]) (simp add: retyped_def)
  then show ?thesis using retyped_trans[OF r] by blast
qed

lemma typed_move_defined:
  assumes h: "heap_typed h" and a: "entity_ref (typing h) i a" and step: "step_defined gl h a" and g: "wf_grid g"
  shows "\<exists>h'. move_entity gl g a h = Some h'"
proof -
  obtain n e where n: "h a = Some n" "entity_at h a = Some e" using a by (rule entity_refE)
  then obtain name where name: "current_state_name e = Some name"
    using heap_typed_entity(1)[OF h n(2)] machine_typed_name[of e] by (auto simp: entity_typed_def)
  obtain dir np where ns: "next_step gl e (position n) = (dir, np)" by fastforce
  show ?thesis
  proof (cases "name = ''Attacking'' \<or> np = None")
    case True
    then show ?thesis using n name ns by (auto simp: move_entity_def Let_def)
  next
    case False
    then obtain v where v: "np = Some v" by blast
    then have "convertible v" using step n name ns False unfolding step_defined_def by auto
    then obtain p where p: "point_of_floats (vz v) (vx v) = Some p" by (auto simp: convertible_def)
    then show ?thesis
      using n name ns v False grid_ref_inside[OF g, of p]
      by (cases "is_inside g p") (simp_all add: move_entity_def Let_def)
  qed
qed

lemma distinct_entities:
  "um_ok m \<Longrightarrow> \<forall>(i, a) \<in> set m. entity_ref T i a \<Longrightarrow> distinct (um_values m)"
proof (induction m)
  case (Cons x m)
  obtain i a where x: "x = (i, a)" by (cases x)
  have "a \<notin> set (um_values m)"
  proof
    assume "a \<in> set (um_values m)"
    then obtain j where j: "(j, a) \<in> set m" by (auto simp: um_values_def)
    then have "j = i" using Cons.prems(2) x by (auto simp: entity_ref_def)
    then have "i \<in> fst ` set m" using j by force
    then show False using Cons.prems(1) x by (simp add: um_ok_def)
  qed
  then show ?case using Cons x by (simp add: um_ok_def um_values_def)
qed (simp add: um_values_def)

lemma typed_moves:
  assumes "fold_opt (move_entity gl g) as h = Some h'" "heap_typed h"
  shows "retyped h h'"
proof (rule fold_opt_invariant[OF assms(1), where P = "retyped h"])
  show "retyped h h" using retyped_refl[OF assms(2)] .
next
  fix a h1 h2 assume "retyped h h1" "move_entity gl g a h1 = Some h2"
  then show "retyped h h2" using typed_move retyped_trans retyped_def by blast
qed

lemma typed_moves_defined:
  assumes "wf_grid g"
  shows "heap_typed h \<Longrightarrow> distinct as \<Longrightarrow> \<forall>a \<in> set as. (\<exists>i. entity_ref (typing h) i a) \<and> step_defined gl h a
    \<Longrightarrow> \<exists>h'. fold_opt (move_entity gl g) as h = Some h'"
proof (induction as arbitrary: h)
  case (Cons a as)
  then obtain i where "entity_ref (typing h) i a" "step_defined gl h a" by auto
  then obtain h1 where h1: "move_entity gl g a h = Some h1"
    using typed_move_defined[OF Cons.prems(1) _ _ assms] by blast
  then have r: "heap_typed h1" "typing h1 = typing h" using typed_move[OF Cons.prems(1) h1] by (simp_all add: retyped_def)
  have "(\<exists>i. entity_ref (typing h1) i b) \<and> step_defined gl h1 b" if b: "b \<in> set as" for b
  proof -
    have "b \<noteq> a" using Cons.prems(2) b by auto
    then have "h1 b = h b" using move_entity_spec(1)[OF h1] by blast
    then have "step_defined gl h1 b = step_defined gl h b" by (rule step_defined_cong)
    then show ?thesis using Cons.prems(3) b r(2) by simp
  qed
  then show ?case using Cons.IH[OF r(1)] Cons.prems(2) h1 by simp
qed simp

section \<open>The contacts\<close>

lemma typed_contacts:
  assumes h: "heap_typed h" and areas: "\<forall>c \<in> set areas. typing h c = Some C_collider"
    and bodies: "\<forall>c \<in> set bodies. typing h c = Some C_collider"
  shows "\<exists>r. update_contacts gl h areas bodies cs = Some r"
proof -
  have inner: "\<exists>t. fold_opt (update_contact gl h area) bodies s = Some t \<and> True" if area: "area \<in> set areas" for area s
  proof (rule fold_opt_total[where P = "\<lambda>_. True"])
    fix body and s :: "(u32, u32 set) umap \<times> contact_event list"
    assume "body \<in> set bodies"
    then have c: "typing h area = Some C_collider" "typing h body = Some C_collider" using area areas bodies by auto
    then obtain n m where "h area = Some n" "h body = Some m" by (auto simp: typing_collider)
    moreover obtain hit where "object_is_colliding gl h area body = Some hit" using typed_colliding[OF h c] by blast
    ultimately show "\<exists>t. update_contact gl h area body s = Some t \<and> True"
      by (cases s; cases hit) (simp_all add: update_contact_def Let_def)
  qed simp
  have "\<exists>t. fold_opt (\<lambda>area. fold_opt (update_contact gl h area) bodies) areas (cs, []) = Some t \<and> True"
    by (rule fold_opt_total[where P = "\<lambda>_. True"]) (use inner in blast)+
  then show ?thesis by (simp add: update_contacts_def)
qed

lemma subworld_typed_contacts [simp]: "subworld_typed T (sw\<lparr>sw_contacts := cs\<rparr>) = subworld_typed T sw"
  by (simp add: subworld_typed_def)

lemma typed_subworld_tick:
  assumes h: "heap_typed h" and tick: "subworld_tick gl sw h = Some (sw', h', evs)"
  shows "retyped h h'" and "sw_entities sw' = sw_entities sw"
    and "sw_collision_objects sw' = sw_collision_objects sw" and "sw_obstacles_grid sw' = sw_obstacles_grid sw"
    and "subworld_typed T sw' = subworld_typed T sw"
proof -
  have "fold_opt (move_entity gl (sw_obstacles_grid sw)) (um_values (sw_entities sw)) h = Some h'"
    using tick by (auto simp: subworld_tick_def split: option.splits)
  from typed_moves[OF this h] show "retyped h h'" .
  have "\<exists>cs. sw' = sw\<lparr>sw_contacts := cs\<rparr>" using tick by (auto simp: subworld_tick_def split: option.splits)
  then show "sw_entities sw' = sw_entities sw" "sw_collision_objects sw' = sw_collision_objects sw"
    "sw_obstacles_grid sw' = sw_obstacles_grid sw" "subworld_typed T sw' = subworld_typed T sw"
    by auto
qed

lemma typed_subworld_tick_defined:
  assumes h: "heap_typed h" and sw: "subworld_typed (typing h) sw" and g: "wf_grid (sw_obstacles_grid sw)"
    and steps: "\<forall>a \<in> set (um_values (sw_entities sw)). step_defined gl h a"
  shows "\<exists>r. subworld_tick gl sw h = Some r"
proof -
  have refs: "\<forall>(i, a) \<in> set (sw_entities sw). entity_ref (typing h) i a" "um_ok (sw_entities sw)"
    using sw by (simp_all add: subworld_typed_def)
  then have "\<forall>a \<in> set (um_values (sw_entities sw)). (\<exists>i. entity_ref (typing h) i a) \<and> step_defined gl h a"
    using steps by (fastforce simp: um_values_def)
  then obtain h1 where h1: "fold_opt (move_entity gl (sw_obstacles_grid sw)) (um_values (sw_entities sw)) h = Some h1"
    using typed_moves_defined[OF g h distinct_entities[OF refs(2,1)]] by blast
  then have r: "heap_typed h1" "typing h1 = typing h" using typed_moves[OF h1 h] by (simp_all add: retyped_def)
  obtain cs where "update_contacts gl h1 (um_values (sw_collision_areas sw)) (um_values (sw_collision_objects sw)) (sw_contacts sw) = Some cs"
    using typed_contacts[OF r(1), of "um_values (sw_collision_areas sw)" "um_values (sw_collision_objects sw)"] sw r(2)
    unfolding subworld_typed_def by metis
  then show ?thesis using h1 by (cases cs) (simp add: subworld_tick_def)
qed

end
