(* ===== verification/Typing_Monster.thy ===== *)
theory Typing_Monster
  imports Typing_Zone
begin

text \<open>
  The tick of a monster: it keeps the heap typed and moves nothing, and it returns if the grid is well
  formed and no distance it compares is a NaN.
\<close>

section \<open>What a tick may change\<close>

text \<open>The monster keeps its machine, its resources, its weapon and its detection area; a new target is a
  player.\<close>

definition monster_update :: "heap \<Rightarrow> addr \<Rightarrow> entity \<Rightarrow> monster_data \<Rightarrow> heap \<Rightarrow> bool" where
  "monster_update h a e d h' \<longleftrightarrow> h' = h \<or>
     (\<exists>e' d'. h' = set_monster a e' d' h
        \<and> state_machine e' = state_machine e \<and> resource e' = resource e \<and> entity_id e' = entity_id e
        \<and> mo_weapon d' = mo_weapon d \<and> mo_detection_area d' = mo_detection_area d
        \<and> (mo_chasing_target d' = mo_chasing_target d \<or> (\<exists>t. mo_chasing_target d' = Some t \<and> player_ref (typing h) t)))"

text \<open>A heap with the same classes in which nothing has moved.\<close>

definition unmoved :: "heap \<Rightarrow> heap \<Rightarrow> bool" where
  "unmoved h h' \<longleftrightarrow> retyped h h' \<and> skeleton h' = skeleton h"

lemma unmoved_refl: "heap_typed h \<Longrightarrow> unmoved h h"
  by (simp add: unmoved_def retyped_refl)

lemma unmoved_trans: "unmoved h h' \<Longrightarrow> unmoved h' h'' \<Longrightarrow> unmoved h h''"
  using retyped_trans by (auto simp: unmoved_def)

lemma unmovedD: "unmoved h h' \<Longrightarrow> heap_typed h' \<and> typing h' = typing h"
  by (simp add: unmoved_def retyped_def)

lemma unmoved_position: "unmoved h h' \<Longrightarrow> get_global_position gl h' a = get_global_position gl h a"
  unfolding unmoved_def by (intro global_position_skeleton) blast

lemma unmoved_update:
  assumes h: "heap_typed h" and e: "entity_at h a = Some e" "en_class e = Monster_class d"
    and u: "monster_update h a e d h'"
  shows "unmoved h h'"
proof (cases "h' = h")
  case True
  then show ?thesis using unmoved_refl[OF h] by simp
next
  case False
  then obtain e' d' where h': "h' = set_monster a e' d' h" and k: "state_machine e' = state_machine e"
    "resource e' = resource e" "entity_id e' = entity_id e" "mo_weapon d' = mo_weapon d"
    "mo_detection_area d' = mo_detection_area d"
    "mo_chasing_target d' = mo_chasing_target d \<or> (\<exists>t. mo_chasing_target d' = Some t \<and> player_ref (typing h) t)"
    using u unfolding monster_update_def by blast
  have te: "entity_typed (typing h) e" using heap_typed_entity(1)[OF h e(1)] .
  have "entity_typed (typing h) (e'\<lparr>en_class := Monster_class d'\<rparr>)"
    using te k e(2) by (auto simp: entity_typed_def class_typed_def)
  then have "retyped h h'"
    unfolding h' set_monster_def using e(2) k(3) by (intro retyped_set_entity[OF h e(1)]) (simp_all add: entity_cls_def)
  then show ?thesis by (simp add: unmoved_def h' set_monster_def)
qed

lemma monster_updateI:
  assumes "h' = set_monster a e' d' h" "state_machine e' = state_machine e" "resource e' = resource e"
    "entity_id e' = entity_id e" "mo_weapon d' = mo_weapon d" "mo_detection_area d' = mo_detection_area d"
    "mo_chasing_target d' = mo_chasing_target d \<or> (\<exists>t. mo_chasing_target d' = Some t \<and> player_ref (typing h) t)"
  shows "monster_update h a e d h'"
  unfolding monster_update_def using assms by blast

lemma monster_follow_update:
  assumes "monster_follow gl a n e d target h = Some h'" "mo_weapon d = mo_weapon d0"
    "mo_detection_area d = mo_detection_area d0" "mo_chasing_target d = mo_chasing_target d0"
  shows "monster_update h a e d0 h'"
proof -
  have "\<exists>s. h' = set_monster a e (d\<lparr>mo_state := s\<rparr>) h"
    if "mo_chasing_path_index d \<ge> length (mo_chasing_path d)"
    using that assms(1) by (auto simp: monster_follow_def)
  moreover have "h' = set_monster a e d h \<or>
      (\<exists>i e'. h' = set_monster a e' (d\<lparr>mo_chasing_path_index := i\<rparr>) h \<and> (e' = e \<or> (\<exists>v. e' = e\<lparr>target_position := v\<rparr>)))"
    if "\<not> mo_chasing_path_index d \<ge> length (mo_chasing_path d)"
    using that assms(1) by (simp add: monster_follow_def Let_def split: if_splits) blast+
  ultimately consider s where "h' = set_monster a e (d\<lparr>mo_state := s\<rparr>) h" | "h' = set_monster a e d h"
    | i e' where "h' = set_monster a e' (d\<lparr>mo_chasing_path_index := i\<rparr>) h" "e' = e \<or> (\<exists>v. e' = e\<lparr>target_position := v\<rparr>)"
    by blast
  then show ?thesis
  proof cases
    case (1 s)
    then show ?thesis using assms(2-4) by (intro monster_updateI[OF 1]) simp_all
  next
    case 2
    then show ?thesis using assms(2-4) by (intro monster_updateI[OF 2]) simp_all
  next
    case (3 i e')
    then show ?thesis using assms(2-4) by (intro monster_updateI[OF 3(1)]) auto
  qed
qed

lemma monster_idle_update:
  assumes "monster_idle gl pick tie now sw a n e d h = Some (Inr h')"
  shows "monster_update h a e d h'"
proof (cases "h' = h")
  case False
  then obtain r path and rn :: node where r: "h r = Some rn" "is_player (object rn)" and h': "h' = start_chase now a e d r path h"
    using assms by (auto simp: monster_idle_def bind_eq_Some_conv map_sum_Inr split: if_splits)
  have "player_ref (typing h) r" using is_player_typing[of h r rn] r by simp
  then show ?thesis by (cases path) (auto simp: h' start_chase_def intro: monster_updateI)
qed (simp add: monster_update_def)

lemma monster_chasing_update:
  assumes "monster_chasing gl pick now sw a n e d h = Some (Inr h')"
  shows "monster_update h a e d h'"
proof -
  obtain gone where gone: "target_gone sw d h = Some gone"
    using assms by (auto simp: monster_chasing_def bind_eq_Some_conv)
  have idle: "monster_update h a e d (set_monster a e d' h)"
    if "mo_weapon d' = mo_weapon d" "mo_detection_area d' = mo_detection_area d" "mo_chasing_target d' = mo_chasing_target d" for d'
    using that by (intro monster_updateI[of _ a e d']) auto
  consider d' where "h' = set_monster a e d' h" "mo_weapon d' = mo_weapon d"
      "mo_detection_area d' = mo_detection_area d" "mo_chasing_target d' = mo_chasing_target d"
    | d' target where "monster_follow gl a n e d' target h = Some h'" "mo_weapon d' = mo_weapon d"
      "mo_detection_area d' = mo_detection_area d" "mo_chasing_target d' = mo_chasing_target d"
  proof (cases gone)
    case True
    then have "h' = set_monster a e (d\<lparr>mo_state := IDLE\<rparr>) h" using assms gone by (simp add: monster_chasing_def)
    then show thesis using that(1) by simp
  next
    case False
    then obtain target where target: "mo_chasing_target d = Some target"
      using assms gone by (auto simp: monster_chasing_def bind_eq_Some_conv)
    show thesis
    proof (cases "now > mo_chasing_started d + 3000")
      case True
      obtain tn res where tn: "h target = Some tn" and res: "monster_path pick sw (position n) (position tn) = Some res"
        using assms gone False target True by (auto simp: monster_chasing_def bind_eq_Some_conv)
      obtain path where path: "res = Inr path"
        using assms gone False target True tn res by (cases res) (auto simp: monster_chasing_def)
      let ?d = "d\<lparr>mo_chasing_path := path, mo_chasing_path_index := 0, mo_chasing_started := now\<rparr>"
      show thesis
      proof (cases "path = []")
        case True
        then have "h' = set_monster a e (?d\<lparr>mo_state := IDLE\<rparr>) h"
          using assms gone False target \<open>now > _\<close> tn res path by (simp add: monster_chasing_def)
        then show thesis using that(1) by simp
      next
        case ne: False
        then have "monster_follow gl a n e ?d target h = Some h'"
          using assms gone False target \<open>now > _\<close> tn res path by (simp add: monster_chasing_def)
        then show thesis using that(2)[of ?d] by simp
      qed
    next
      case False
      then have "monster_follow gl a n e d target h = Some h'"
        using assms gone \<open>\<not> gone\<close> target by (simp add: monster_chasing_def)
      then show thesis using that(2) by simp
    qed
  qed
  then show ?thesis using idle monster_follow_update by cases auto
qed

section \<open>A tick keeps the heap typed\<close>

lemma unmoved_melee:
  assumes h: "heap_typed h" and user: "entity_at h user = Some e" and w: "fist_typed (typing h) weapon"
    and sw: "subworld_typed (typing h) (zn_subworld z)" and members: "snd ` set (zn_clients z) \<subseteq> dom cs"
  shows "\<exists>h' cs'. melee_use gl now z user weapon (h, cs) = Some (h', cs') \<and> unmoved h h' \<and> dom cs' = dom cs"
proof -
  obtain h' cs' where use: "melee_use gl now z user weapon (h, cs) = Some (h', cs')" "retyped h h'" "dom cs' = dom cs"
    using typed_melee[OF assms] by blast
  have "machine_typed (state_machine e)" using heap_typed_entity(1)[OF h user] by (simp add: entity_typed_def)
  then obtain ok sm where sm: "sm_try_transition ''Attacking'' (state_machine e) () = Some (ok, sm, ())"
    by (rule machine_try)
  have "0 \<le> fist_damage weapon" using w by (simp add: fist_typed_def)
  from melee_effect[OF use(1) user sm heap_typed_resources[OF h] this] have "skeleton h' = skeleton h"
    by (auto split: if_splits)
  then show ?thesis using use by (auto simp: unmoved_def)
qed

lemma monster_class_typed:
  assumes "heap_typed h" "entity_at h a = Some e" "en_class e = Monster_class d"
  shows "fist_typed (typing h) (mo_weapon d)" "typing h (mo_detection_area d) = Some C_shape"
    "mo_chasing_target d = Some t \<Longrightarrow> player_ref (typing h) t"
  using heap_typed_entity(1)[OF assms(1,2)] assms(3) by (simp_all add: entity_typed_def class_typed_def)

lemma typed_target_position:
  assumes "heap_typed h" "entity_at h a = Some e"
  shows "unmoved h (set_entity a (e\<lparr>target_position := v\<rparr>) h)"
    and "entity_at (set_entity a (e\<lparr>target_position := v\<rparr>) h) a = Some (e\<lparr>target_position := v\<rparr>)"
proof -
  have "retyped h (set_entity a (e\<lparr>target_position := v\<rparr>) h)"
    using heap_typed_entity(1)[OF assms] by (intro retyped_set_entity[OF assms]) (simp_all add: entity_typed_def)
  then show "unmoved h (set_entity a (e\<lparr>target_position := v\<rparr>) h)" by (simp add: unmoved_def)
  show "entity_at (set_entity a (e\<lparr>target_position := v\<rparr>) h) a = Some (e\<lparr>target_position := v\<rparr>)"
    using entity_at_dom[OF assms(2)] by (simp add: heap_simps)
qed

text \<open>The strike of a monster at its target.\<close>

lemma unmoved_monster_strike:
  assumes h: "heap_typed h" and e: "entity_at h a = Some e" "en_class e = Monster_class d"
    and sw: "subworld_typed (typing h) (zn_subworld z)" and members: "snd ` set (zn_clients z) \<subseteq> dom cs"
  shows "\<exists>h' cs'. melee_use gl now z a (mo_weapon d) (set_entity a (e\<lparr>target_position := v\<rparr>) h, cs) = Some (h', cs')
    \<and> unmoved h h' \<and> dom cs' = dom cs"
proof -
  let ?h = "set_entity a (e\<lparr>target_position := v\<rparr>) h"
  note u = typed_target_position[OF h e(1), of v]
  have t: "heap_typed ?h" "typing ?h = typing h" using unmovedD[OF u(1)] by simp_all
  have "fist_typed (typing ?h) (mo_weapon d)" "subworld_typed (typing ?h) (zn_subworld z)"
    using monster_class_typed(1)[OF h e] sw by (simp_all add: t(2))
  from unmoved_melee[OF t(1) u(2) this members, of gl now] show ?thesis using unmoved_trans[OF u(1)] by blast
qed

lemma unmoved_monster_tick:
  assumes tick: "simple_monster_tick gl pick tie now z a (h, cs) = Some (Inr (h', cs'))"
    and h: "heap_typed h" and sw: "subworld_typed (typing h) (zn_subworld z)" and members: "snd ` set (zn_clients z) \<subseteq> dom cs"
  shows "unmoved h h'"
proof -
  obtain n e where n: "h a = Some n" and e: "entity_at h a = Some e"
    using tick by (auto simp: simple_monster_tick_def bind_eq_Some_conv)
  obtain d where d: "en_class e = Monster_class d"
    using tick n e by (auto simp: simple_monster_tick_def split: entity_class.splits)
  note run = tick[unfolded simple_monster_tick_def, simplified, unfolded n e bind.simps, simplified, unfolded d, simplified]
  show ?thesis
  proof (cases "mo_state d")
    case IDLE
    then have "monster_idle gl pick tie now (zn_subworld z) a n e d h = Some (Inr h')" using run by (auto simp: map_sum_Inr)
    then show ?thesis using unmoved_update[OF h e d] monster_idle_update by blast
  next
    case CHASING
    then have "monster_chasing gl pick now (zn_subworld z) a n e d h = Some (Inr h')" using run by (auto simp: map_sum_Inr)
    then show ?thesis using unmoved_update[OF h e d] monster_chasing_update by blast
  next
    case ATTACKING
    then have att: "monster_attacking gl now z a n e d (h, cs) = Some (h', cs')" using run by simp
    have "h' = set_monster a e (d\<lparr>mo_state := IDLE\<rparr>) h \<or>
      (\<exists>v. melee_use gl now z a (mo_weapon d) (set_entity a (e\<lparr>target_position := v\<rparr>) h, cs) = Some (h', cs'))"
      using att by (auto simp: monster_attacking_def bind_eq_Some_conv split: if_splits)
    then show ?thesis
    proof
      assume "h' = set_monster a e (d\<lparr>mo_state := IDLE\<rparr>) h"
      then have "monster_update h a e d h'" by (intro monster_updateI[of h' a e "d\<lparr>mo_state := IDLE\<rparr>"]) auto
      then show ?thesis using unmoved_update[OF h e d] by blast
    next
      assume "\<exists>v. melee_use gl now z a (mo_weapon d) (set_entity a (e\<lparr>target_position := v\<rparr>) h, cs) = Some (h', cs')"
      then obtain v where v: "melee_use gl now z a (mo_weapon d) (set_entity a (e\<lparr>target_position := v\<rparr>) h, cs) = Some (h', cs')"
        by blast
      from unmoved_monster_strike[OF h e d sw members, of gl now v] v show ?thesis by simp
    qed
  qed
qed

section \<open>A tick returns\<close>

text \<open>The distance from an entity of the subworld to a collider of it is a number.\<close>

definition distances_defined :: "glm \<Rightarrow> heap \<Rightarrow> subworld \<Rightarrow> bool" where
  "distances_defined gl h sw \<longleftrightarrow>
     (\<forall>a \<in> set (um_values (sw_entities sw)). \<forall>c \<in> set (um_values (sw_collision_objects sw)). \<forall>p q.
        get_global_position gl h c = Some p \<longrightarrow> get_global_position gl h a = Some q \<longrightarrow> \<not> f_isnan (g_distance gl p q))"

lemma distances_defined_unmoved:
  assumes "unmoved h h'" "distances_defined gl h sw"
  shows "distances_defined gl h' sw"
proof -
  have "get_global_position gl h' a = get_global_position gl h a" for a by (rule unmoved_position[OF assms(1)])
  then show ?thesis using assms(2) by (simp add: distances_defined_def)
qed

text \<open>A non-empty list of numbers has a least one.\<close>

lemma f_lt_least:
  "ds \<noteq> [] \<Longrightarrow> \<forall>d \<in> set ds. \<not> f_isnan d \<Longrightarrow> \<exists>d \<in> set ds. \<forall>d' \<in> set ds. \<not> f_lt d' d"
proof (induction ds)
  case (Cons x xs)
  show ?case
  proof (cases "xs = []")
    case True
    then show ?thesis using Cons.prems by (simp add: f_lt_def)
  next
    case False
    then obtain d where d: "d \<in> set xs" "\<forall>d' \<in> set xs. \<not> f_lt d' d" using Cons by auto
    have nan: "\<not> f_isnan x" "\<not> f_isnan d" "\<forall>d' \<in> set xs. \<not> f_isnan d'" using Cons.prems(2) d(1) by auto
    show ?thesis
    proof (cases "f_le d x")
      case True
      then show ?thesis using d by (intro bexI[of _ d]) (auto simp: f_lt_def)
    next
      case False
      then have "f_le x d" using f_le_total[OF nan(1,2)] by blast
      moreover have "f_le d d'" if "d' \<in> set xs" for d' using that d(2) nan by (auto simp: f_lt_def)
      ultimately show ?thesis
        using nan(1) f_le_trans by (intro bexI[of _ x]) (auto simp: f_lt_def)
    qed
  qed
qed simp

lemma typed_nearest:
  assumes h: "heap_typed h" and ne: "targets \<noteq> []" and live: "\<forall>t \<in> set targets. h t \<noteq> None"
    and nan: "\<And>t p. t \<in> set targets \<Longrightarrow> get_global_position gl h t = Some p \<Longrightarrow> \<not> f_isnan (g_distance gl p v)"
  shows "\<exists>t. nearest gl h v tie targets = Some t \<and> t \<in> set targets"
proof (cases "\<exists>t. targets = [t]")
  case True
  then show ?thesis by (auto simp: nearest_def)
next
  case False
  let ?f = "\<lambda>t. map_option (\<lambda>p. (g_distance gl p v, t)) (get_global_position gl h t)"
  have one: "\<exists>d. ?f t = Some (d, t) \<and> \<not> f_isnan d" if "t \<in> set targets" for t
    using typed_position[OF h, of t gl] live nan[OF that] that by auto
  have "\<exists>ds. those (map ?f ts) = Some ds \<and> length ds = length ts \<and> (\<forall>(d, t) \<in> set ds. \<not> f_isnan d \<and> t \<in> set ts)"
    if "set ts \<subseteq> set targets" for ts
    using that
  proof (induction ts)
    case (Cons t ts)
    obtain d where d: "?f t = Some (d, t)" "\<not> f_isnan d" using one[of t] Cons.prems by auto
    obtain ds where ds: "those (map ?f ts) = Some ds" "length ds = length ts"
      "\<forall>(d, t) \<in> set ds. \<not> f_isnan d \<and> t \<in> set ts" using Cons by auto
    show ?case by (intro exI[of _ "(d, t) # ds"]) (use d ds in auto)
  qed simp
  from this[of targets] obtain ds where ds: "those (map ?f targets) = Some ds" "length ds = length targets"
    "\<forall>(d, t) \<in> set ds. \<not> f_isnan d \<and> t \<in> set targets" by auto
  let ?best = "filter (\<lambda>(d, _). list_all (\<lambda>(d', _). \<not> f_lt d' d) ds) ds"
  have "map fst ds \<noteq> []" "\<forall>d \<in> set (map fst ds). \<not> f_isnan d" using ds(2,3) ne by auto
  then obtain d where "d \<in> set (map fst ds)" "\<forall>d' \<in> set (map fst ds). \<not> f_lt d' d" using f_lt_least by blast
  then obtain t where "(d, t) \<in> set ?best" by (auto simp: list_all_iff split_beta)
  then have best: "?best \<noteq> []" by (metis list.set(1) empty_iff)
  then have "?best ! (tie mod length ?best) \<in> set ?best" by (intro nth_mem) simp
  then have mem: "snd (?best ! (tie mod length ?best)) \<in> set targets" using ds(3) by force
  have nan': "\<not> list_ex (\<lambda>(d, _). f_isnan d) ds" using ds(3) by (auto simp: list_ex_iff)
  obtain t1 t2 ts where "targets = t1 # t2 # ts" using ne False by (metis neq_Nil_conv)
  then have "nearest gl h v tie targets = Option.bind (those (map ?f targets)) (\<lambda>ds.
      let best = filter (\<lambda>(d, _). list_all (\<lambda>(d', _). \<not> f_lt d' d) ds) ds in
      if list_ex (\<lambda>(d, _). f_isnan d) ds \<or> best = [] then None else Some (snd (best ! (tie mod length best))))"
    by (simp only: nearest_def list.case)
  then show ?thesis using ds(1) best nan' mem by (simp add: Let_def)
qed

lemma path_found:
  assumes "convertible v" "convertible w" "wf_grid (sw_obstacles_grid sw)"
  shows "\<exists>path. monster_path pick sw v w = Some (Inr path)"
proof -
  obtain s t where s: "point_of_floats (vz v) (vx v) = Some s" and t: "point_of_floats (vz w) (vx w) = Some t"
    using assms(1,2) by (auto simp: convertible_def)
  have "\<exists>path. find_path pick (sw_obstacles_grid sw) s t ASTAR = Some (Inr path)"
    by (rule astar_grid_cases[OF assms(3), of pick s t]) auto
  then show ?thesis using s t by (simp add: monster_path_def)
qed

lemma typed_follow:
  assumes "heap_typed h" "h target \<noteq> None"
  shows "\<exists>h'. monster_follow gl a n e d target h = Some h'"
  using typed_position[OF assms, of gl] by (auto simp: monster_follow_def Let_def)

lemma player_position:
  assumes "heap_typed h" "player_ref (typing h) t"
  obtains n e where "h t = Some n" "entity_at h t = Some e" "convertible (position n)"
  using assms(2)
proof (rule player_refE)
  fix n e d assume "h t = Some n" "entity_at h t = Some e"
  then show thesis using that heap_typed_entity(2)[OF assms(1)] by blast
qed

lemma typed_target_gone:
  assumes "heap_typed h" "\<And>t. mo_chasing_target d = Some t \<Longrightarrow> player_ref (typing h) t"
  shows "\<exists>gone. target_gone sw d h = Some gone \<and> (\<not> gone \<longrightarrow> mo_chasing_target d \<noteq> None)"
proof (cases "mo_chasing_target d")
  case None
  then show ?thesis by (intro exI[of _ True]) (simp add: target_gone_def)
next
  case (Some t)
  then obtain n e where "entity_at h t = Some e" using player_position[OF assms(1)] assms(2) by blast
  then show ?thesis using Some by (simp add: target_gone_def)
qed

lemma typed_monster_tick:
  assumes h: "heap_typed h" and a: "a \<in> set (um_values (sw_entities (zn_subworld z)))"
    and e: "entity_at h a = Some e" "en_class e = Monster_class d"
    and sw: "subworld_typed (typing h) (zn_subworld z)" and members: "snd ` set (zn_clients z) \<subseteq> dom cs"
    and g: "wf_grid (sw_obstacles_grid (zn_subworld z))" and dist: "distances_defined gl h (zn_subworld z)"
  shows "\<exists>h' cs'. simple_monster_tick gl pick tie now z a (h, cs) = Some (Inr (h', cs'))"
proof -
  obtain n where n: "h a = Some n" using entity_at_dom[OF e(1)] by blast
  have conv: "convertible (position n)" using heap_typed_entity(2)[OF h e(1) n] .
  note cls = monster_class_typed[OF h e]
  obtain gone where gone: "target_gone (zn_subworld z) d h = Some gone" "\<not> gone \<longrightarrow> mo_chasing_target d \<noteq> None"
    using typed_target_gone[OF h cls(3)] by blast
  note tick = simple_monster_tick_def n e bind.simps
  show ?thesis
  proof (cases "mo_state d")
    case IDLE
    obtain targets where targets: "get_collisions_shape gl h (mo_detection_area d) layer_players (zn_subworld z) = Some targets"
      "set targets \<subseteq> set (um_values (sw_collision_objects (zn_subworld z)))" "\<forall>c \<in> set targets. typing h c = Some C_collider"
      using typed_get_collisions[OF h sw cls(2)] by blast
    have "\<exists>h'. monster_idle gl pick tie now (zn_subworld z) a n e d h = Some (Inr h')"
    proof (cases "targets = []")
      case True
      then show ?thesis using targets(1) by (simp add: monster_idle_def)
    next
      case False
      obtain v where v: "get_global_position gl h a = Some v" using typed_position[OF h] n by blast
      have live: "\<forall>t \<in> set targets. h t \<noteq> None" using targets(3) typing_live by blast
      have "\<not> f_isnan (g_distance gl p v)" if "t \<in> set targets" "get_global_position gl h t = Some p" for t p
        using dist a targets(2) that v unfolding distances_defined_def by blast
      then obtain t where t: "nearest gl h v tie targets = Some t" "t \<in> set targets"
        using typed_nearest[OF h False live] by blast
      then obtain r rn where r: "get_root h t = Some r" "h r = Some rn" using typed_root[OF h] live by blast
      show ?thesis
      proof (cases "is_player (object rn)")
        case True
        then have "player_ref (typing h) r" using is_player_typing[of h r rn] r(2) by simp
        then obtain rn' where "h r = Some rn'" "convertible (position rn')" by (rule player_position[OF h])
        then have "convertible (position rn)" using r(2) by simp
        from path_found[OF conv this g, of pick] show ?thesis
          using targets(1) False v t(1) r True by (auto simp: monster_idle_def)
      qed (use targets(1) False v t(1) r in \<open>simp add: monster_idle_def\<close>)
    qed
    then show ?thesis using IDLE by (auto simp: tick)
  next
    case CHASING
    have "\<exists>h'. monster_chasing gl pick now (zn_subworld z) a n e d h = Some (Inr h')"
    proof (cases gone)
      case True
      then show ?thesis using gone(1) by (simp add: monster_chasing_def)
    next
      case False
      then obtain t where t: "mo_chasing_target d = Some t" using gone(2) by blast
      then obtain tn te where tn: "h t = Some tn" "convertible (position tn)"
        using player_position[OF h cls(3)] by blast
      obtain path where path: "monster_path pick (zn_subworld z) (position n) (position tn) = Some (Inr path)"
        using path_found[OF conv tn(2) g] by blast
      have follow: "\<exists>h'. monster_follow gl a n e d' t h = Some h'" for d' using typed_follow[OF h] tn(1) by blast
      show ?thesis using gone(1) False t tn(1) path follow by (auto simp: monster_chasing_def Let_def)
    qed
    then show ?thesis using CHASING by (auto simp: tick)
  next
    case ATTACKING
    have "\<exists>h' cs'. monster_attacking gl now z a n e d (h, cs) = Some (h', cs')"
    proof (cases gone)
      case True
      then show ?thesis using gone(1) by (simp add: monster_attacking_def)
    next
      case False
      then obtain t where t: "mo_chasing_target d = Some t" using gone(2) by blast
      then obtain tn te where tn: "h t = Some tn" using player_position[OF h cls(3)] by blast
      show ?thesis
        using gone(1) False t tn unmoved_monster_strike[OF h e sw members, of gl now "position tn"]
        by (auto simp: monster_attacking_def)
    qed
    then show ?thesis using ATTACKING by (auto simp: tick)
  qed
qed

end
