(* ===== verification/Typing_Jobs.thy ===== *)
theory Typing_Jobs
  imports Typing_Monster
begin

text \<open>
  The jobs of a zone, on a well-typed heap and a store of clients whose players are players: every job keeps
  the typing, and it returns unless one of the conditions of \<open>job_defined\<close> fails.
\<close>

interpretation plr: client_view cl_player
  by unfold_locales (simp add: client_send_def)

text \<open>The players of the clients are players.\<close>

definition store_typed :: "(addr \<rightharpoonup> cls) \<Rightarrow> clients \<Rightarrow> bool" where
  "store_typed T cs \<longleftrightarrow> (\<forall>c pl. client_player cs c = Some pl \<longrightarrow> player_ref T pl)"

lemma store_typedD:
  assumes "store_typed T cs" "cs c = Some cl" "cl_player cl = Some pl"
  shows "player_ref T pl"
proof -
  have "client_player cs c = Some pl" using assms(2,3) by (simp add: client_player_def)
  then show ?thesis using assms(1) unfolding store_typed_def by blast
qed

lemma views_player:
  assumes "views cl_player cs' = views cl_player cs"
  shows "client_player cs' = client_player cs" "dom cs' = dom cs"
proof -
  have v: "map_option cl_player (cs' c) = map_option cl_player (cs c)" for c
    using assms by (metis views_def)
  show "client_player cs' = client_player cs"
  proof
    fix c
    show "client_player cs' c = client_player cs c"
      using v[of c] by (cases "cs c"; cases "cs' c") (simp_all add: client_player_def)
  qed
  have "cs' c = None \<longleftrightarrow> cs c = None" for c using v[of c] by (cases "cs c"; cases "cs' c") simp_all
  then show "dom cs' = dom cs" by (auto simp: dom_def)
qed

section \<open>Every job keeps the typing\<close>

lemma zone_add_client_cases:
  assumes "zone_add_client c (z, h, cs) = Some (z', h', cs')"
  obtains cl pl sw where "cs c = Some cl" "cl_player cl = Some pl"
    "h' = set_position pl (spawn_point (zn_subworld z)) h" "add_entity h' pl (zn_subworld z) = Some sw"
    "zn_subworld z' = sw" "zn_clients z' = um_assign (client_id cl) c (zn_clients z)"
proof -
  obtain cl pl where cl: "cs c = Some cl" and pl: "cl_player cl = Some pl"
    using assms by (auto simp: zone_add_client_def bind_eq_Some_conv Let_def)
  let ?h = "set_position pl (spawn_point (zn_subworld z)) h"
  have "h' = ?h \<and> add_entity ?h pl (zn_subworld z) = Some (zn_subworld z') \<and> zn_clients z' = um_assign (client_id cl) c (zn_clients z)"
    using assms cl pl by (auto simp: zone_add_client_def bind_eq_Some_conv Let_def split: if_splits)
  then show thesis using that[OF cl pl] by auto
qed

lemma zone_remove_client_cases:
  assumes "zone_remove_client c (z, h, cs) = Some (z', h', cs')"
  obtains (absent) "z' = z" "h' = h"
    | (removed) cl pl sw where "cs c = Some cl" "cl_player cl = Some pl" "h' = h"
      "remove_entity h pl (zn_subworld z) = Some sw" "zn_subworld z' = sw"
      "zn_clients z' = um_erase (client_id cl) (zn_clients z)"
proof -
  obtain cl where cl: "cs c = Some cl" using assms by (auto simp: zone_remove_client_def bind_eq_Some_conv)
  show thesis
  proof (cases "um_contains (zn_clients z) (client_id cl)")
    case False
    then show thesis using assms cl absent by (auto simp: zone_remove_client_def)
  next
    case True
    then obtain pl where pl: "cl_player cl = Some pl"
      using assms cl by (auto simp: zone_remove_client_def bind_eq_Some_conv)
    have "h' = h \<and> remove_entity h pl (zn_subworld z) = Some (zn_subworld z')
      \<and> zn_clients z' = um_erase (client_id cl) (zn_clients z)"
      using assms cl pl True by (auto simp: zone_remove_client_def bind_eq_Some_conv Let_def split: if_splits)
    then show thesis using removed[OF cl pl] by auto
  qed
qed

lemma spawn_point_convertible: "convertible (spawn_point sw)"
proof -
  have conv: "f_floor_int (f_of_int (half k)) \<noteq> None" if "int_range k" for k
  proof -
    have half: "- (2 ^ 30) \<le> half k" "half k \<le> 2 ^ 30" using that by (auto simp: half_def int_range_def)
    have ends: "f_finite (f_of_int (2 ^ 30))" "f_val (f_of_int (2 ^ 30)) = 2 ^ 30"
      "f_finite (f_of_int (- (2 ^ 30)))" "f_val (f_of_int (- (2 ^ 30))) = - (2 ^ 30)"
    proof -
      have r: "representable (2 ^ 30)" unfolding representable_def by (rule exI[of _ 1], rule exI[of _ 30]) simp
      then have "representable (- (2 ^ 30))" by (simp only: representable_neg)
      from f_val_round[OF r, of False] f_val_round[OF this, of False]
      show "f_finite (f_of_int (2 ^ 30))" "f_val (f_of_int (2 ^ 30)) = 2 ^ 30"
        "f_finite (f_of_int (- (2 ^ 30)))" "f_val (f_of_int (- (2 ^ 30))) = - (2 ^ 30)"
        by (simp_all add: f_of_int_def)
    qed
    have "f_le (f_of_int (- (2 ^ 30))) (f_of_int (half k))" "f_le (f_of_int (half k)) (f_of_int (2 ^ 30))"
      unfolding f_of_int_def using half by (intro f_round_le; simp only: of_int_le_iff)+
    moreover from this have fin: "f_finite (f_of_int (half k))"
      using ends(1,3) by (cases "f_of_int (half k)"; cases "f_of_int (2 ^ 30)"; cases "f_of_int (- (2 ^ 30))")
        (auto simp: f_le_def split: bool.splits)
    ultimately have "- (2 ^ 30) \<le> f_val (f_of_int (half k))" "f_val (f_of_int (half k)) \<le> 2 ^ 30"
      using ends by (simp_all add: f_le_finite)
    then have "- (2 ^ 30) \<le> \<lfloor>f_val (f_of_int (half k))\<rfloor>" "\<lfloor>f_val (f_of_int (half k))\<rfloor> \<le> 2 ^ 30"
      using floor_mono[of "- (2 ^ 30)" "f_val (f_of_int (half k))"] floor_mono[of "f_val (f_of_int (half k))" "2 ^ 30"]
      by simp_all
    then show ?thesis using fin by (simp add: f_floor_int_def int_range_def)
  qed
  have "f_floor_int (f_of_int (half (size_x sw))) \<noteq> None" "f_floor_int (f_of_int (half (size_z sw))) \<noteq> None"
    unfolding size_x_def size_z_def by (intro conv static_cast_int_range)+
  then show ?thesis by (auto simp: convertible_def spawn_point_def point_of_floats_def)
qed

lemma typed_spawned: "heap_typed h \<Longrightarrow> retyped h (set_position a (spawn_point sw) h)"
  by (rule retyped_set_position[OF _ spawn_point_convertible])

lemma typed_movement:
  assumes run: "handle_player_movement gl c dir (z, h, cs) = Some (z', h', cs')" and h: "heap_typed h"
  shows "retyped h h' \<and> z' = z"
proof -
  obtain x y where dir: "dir = (x, y)" by (cases dir)
  consider "h' = h" "z' = z"
    | pl e v r where "entity_at h pl = Some e" "z' = z" "h' = set_entity pl (e\<lparr>target_direction := v\<rparr>) h
        \<or> h' = set_entity pl (e\<lparr>target_direction := v\<rparr>) (set_rotation pl r h)"
    using run unfolding handle_player_movement_def dir
    by (auto simp: bind_eq_Some_conv Let_def split: if_splits)
  then show ?thesis
  proof cases
    case 1
    then show ?thesis using retyped_refl[OF h] by simp
  next
    case (2 pl e v r)
    have rot: "retyped h (set_rotation pl r h)" by (rule retyped_set_rotation[OF h])
    then have "heap_typed (set_rotation pl r h)" by (simp add: retyped_def)
    moreover have "entity_at (set_rotation pl r h) pl = Some e" using 2(1) by (simp add: heap_simps)
    ultimately have "retyped h (set_entity pl (e\<lparr>target_direction := v\<rparr>) (set_rotation pl r h))"
      using retyped_trans[OF rot typed_direction] by blast
    then show ?thesis using 2 typed_direction[OF h 2(1)] by auto
  qed
qed

lemma typed_entities_tick:
  assumes sw: "subworld_typed (typing h) (zn_subworld z)"
  shows "entities_tick gl ti z as (h1, cs) = Some (Inr (h', cs')) \<Longrightarrow> unmoved h h1 \<Longrightarrow> snd ` set (zn_clients z) \<subseteq> dom cs
    \<Longrightarrow> unmoved h h'"
proof (induction as arbitrary: h1 cs)
  case (Cons a as)
  obtain h2 cs2 where one: "entity_tick gl ti z a (h1, cs) = Some (Inr (h2, cs2))"
    and rest: "entities_tick gl ti z as (h2, cs2) = Some (Inr (h', cs'))"
    using Cons.prems(1) by (auto split: option.splits sum.splits)
  note t1 = unmovedD[OF Cons.prems(2)]
  have "(h2 = h1 \<and> cs2 = cs) \<or> simple_monster_tick gl (ti_pick ti a) (ti_tie ti a) (ti_clock ti a) z a (h1, cs) = Some (Inr (h2, cs2))"
    using one by (auto simp: entity_tick_def split: option.splits entity_class.splits)
  then have "unmoved h h2 \<and> dom cs2 = dom cs"
  proof
    assume "h2 = h1 \<and> cs2 = cs"
    then show ?thesis using Cons.prems(2) by simp
  next
    assume t: "simple_monster_tick gl (ti_pick ti a) (ti_tie ti a) (ti_clock ti a) z a (h1, cs) = Some (Inr (h2, cs2))"
    have "unmoved h1 h2" using unmoved_monster_tick[OF t] t1 sw Cons.prems(3) by simp
    moreover have "dom cs2 = dom cs" using views_player(2)[OF plr.views_simple_monster_tick[OF t]] .
    ultimately show ?thesis using unmoved_trans[OF Cons.prems(2)] by blast
  qed
  then show ?case using Cons.IH[OF rest] Cons.prems(3) by simp
qed simp

text \<open>Every job, whatever it is, keeps the heap typed, the maps of the subworld and the members of the zone.\<close>

lemma typed_zone_exec:
  assumes exec: "zone_exec gl ti j (z, h, cs) = Some (Inr (z', h', cs'))" and h: "heap_typed h"
    and sw: "subworld_typed (typing h) (zn_subworld z)" and members: "snd ` set (zn_clients z) \<subseteq> dom cs"
    and players: "store_typed (typing h) cs"
  shows "retyped h h' \<and> subworld_typed (typing h) (zn_subworld z') \<and> snd ` set (zn_clients z') \<subseteq> dom cs
    \<and> client_player cs' = client_player cs \<and> dom cs' = dom cs"
proof -
  have "retyped h h' \<and> subworld_typed (typing h) (zn_subworld z') \<and> snd ` set (zn_clients z') \<subseteq> dom cs"
  proof (cases j)
    case Job_tick
    then have "zone_tick gl ti (z, h, cs) = Some (Inr (z', h', cs'))" using exec by (simp add: zone_exec_def)
    then show ?thesis
    proof (cases rule: zone_tick_cases)
      case (tick sw' h1 evs cs1 movements)
      note t = typed_subworld_tick[OF h tick(2)]
      have t1: "heap_typed h1" "typing h1 = typing h" using t(1) by (simp_all add: retyped_def)
      have sw1: "subworld_typed (typing h) sw'" using sw t(5) by simp
      have "unmoved h1 h'"
        using typed_entities_tick[OF _ tick(3) unmoved_refl[OF t1(1)]] sw1 t1(2) members by simp
      then have "retyped h h'" using retyped_trans[OF t(1)] by (simp add: unmoved_def)
      then show ?thesis using sw1 members by (simp add: tick(6))
    qed (use retyped_refl[OF h] sw members in simp_all)
  next
    case (Job_add c)
    then have "zone_add_client c (z, h, cs) = Some (z', h', cs')" using exec by (simp add: zone_exec_def)
    then show ?thesis
    proof (cases rule: zone_add_client_cases)
      case (1 cl pl sw')
      have r: "retyped h h'" unfolding 1(3) by (rule typed_spawned[OF h])
      then have t: "heap_typed h'" "typing h' = typing h" by (simp_all add: retyped_def)
      have "player_ref (typing h) pl" by (rule store_typedD[OF players 1(1,2)])
      then obtain i where "entity_ref (typing h') i pl" using player_ref_entity t(2) by metis
      then have "subworld_typed (typing h) sw'"
        using typed_add_entity[OF t(1)] sw t(2) 1(4) by (metis option.inject)
      moreover have "snd ` set (zn_clients z') \<subseteq> dom cs"
        using um_assign_subset[of "client_id cl" c "zn_clients z"] members 1(1) unfolding 1(6) by force
      ultimately show ?thesis using r 1(5) by simp
    qed
  next
    case (Job_remove c)
    then have "zone_remove_client c (z, h, cs) = Some (z', h', cs')" using exec by (simp add: zone_exec_def)
    then show ?thesis
    proof (cases rule: zone_remove_client_cases)
      case absent
      then show ?thesis using retyped_refl[OF h] sw members by simp
    next
      case (removed cl pl sw')
      have "player_ref (typing h) pl" by (rule store_typedD[OF players removed(1,2)])
      then have "subworld_typed (typing h) sw'"
        using typed_remove_entity[OF h sw] removed(4) by (metis option.inject)
      moreover have "snd ` set (zn_clients z') \<subseteq> dom cs"
        using um_erase_subset[of "client_id cl" "zn_clients z"] members unfolding removed(6) by force
      ultimately show ?thesis using retyped_refl[OF h] removed(3,5) by simp
    qed
  next
    case (Job_packet c p)
    then have run: "zone_handle_packet gl (ti_now ti) c p (z, h, cs) = Some (z', h', cs')"
      using exec by (simp add: zone_exec_def)
    then have z': "z' = z" by (rule zone_handle_packet_frame)
    obtain cl where cl: "cs c = Some cl" using run by (auto simp: zone_handle_packet_def bind_eq_Some_conv)
    consider "h' = h" | dir where "handle_player_movement gl c dir (z, h, cs) = Some (z', h', cs')"
      | "handle_skill_melee_attack gl (ti_now ti) c (z, h, cs) = Some (z', h', cs')"
      using run cl by (auto simp: zone_handle_packet_def split: if_splits in_packet.splits option.splits)
    then have "retyped h h'"
    proof cases
      case 1
      then show ?thesis using retyped_refl[OF h] by simp
    next
      case (2 dir)
      then show ?thesis using typed_movement[OF _ h] by blast
    next
      case 3
      then obtain pl e where pl: "client_player cs c = Some pl" "entity_at h pl = Some e"
        by (auto simp: handle_skill_melee_attack_def bind_eq_Some_conv)
      obtain i where "typing h pl = Some (C_player i)" using players pl(1) by (auto simp: store_typed_def player_ref_def)
      then obtain d where d: "en_class e = Player_class d" using typing_entity[OF pl(2)] by auto
      have typed: "class_typed (typing h) (Player_class d)"
        using heap_typed_entity(1)[OF h pl(2)] d by (simp add: entity_typed_def)
      have "h' = h \<or> (\<exists>w. get_main_weapon d = Some (Fist_item w) \<and> melee_use gl (ti_now ti) z pl w (h, cs) = Some (h', cs'))"
        using 3 pl d by (auto simp: handle_skill_melee_attack_def split: option.splits equipment.splits)
      then show ?thesis
      proof
        assume "\<exists>w. get_main_weapon d = Some (Fist_item w) \<and> melee_use gl (ti_now ti) z pl w (h, cs) = Some (h', cs')"
        then obtain w where w: "get_main_weapon d = Some (Fist_item w)"
          "melee_use gl (ti_now ti) z pl w (h, cs) = Some (h', cs')" by blast
        have "fist_typed (typing h) w" using typed w(1) by (simp add: class_typed_def get_main_weapon_def)
        from typed_melee[OF h pl(2) this sw members, of gl "ti_now ti"] w(2) show ?thesis by simp
      qed (simp add: retyped_refl[OF h])
    qed
    then show ?thesis using sw members z' by simp
  qed
  then show ?thesis using views_player[OF plr.views_zone_exec[OF exec]] by simp
qed

section \<open>A job returns\<close>

text \<open>When a job is defined. A tick that is due: the grid is well formed, every next position can be converted
  to a cell, and after the moves no distance is a NaN. Adding a client: it and all members have a player.
  Removing a member or a packet of a member: it has a player, and a movement has a body.\<close>

definition tick_defined :: "glm \<Rightarrow> subworld \<Rightarrow> heap \<Rightarrow> bool" where
  "tick_defined gl sw h \<longleftrightarrow> wf_grid (sw_obstacles_grid sw)
     \<and> (\<forall>a \<in> set (um_values (sw_entities sw)). step_defined gl h a)
     \<and> (\<forall>sw' h' evs. subworld_tick gl sw h = Some (sw', h', evs) \<longrightarrow> distances_defined gl h' sw)"

definition job_defined :: "glm \<Rightarrow> tick_inputs \<Rightarrow> zone \<Rightarrow> heap \<Rightarrow> clients \<Rightarrow> zone_job \<Rightarrow> bool" where
  "job_defined gl ti z h cs j =
     (case j of
        Job_tick \<Rightarrow> tick_due ti z \<longrightarrow> tick_defined gl (zn_subworld z) h
      | Job_add c \<Rightarrow> client_player cs c \<noteq> None \<and> (\<forall>m \<in> snd ` set (zn_clients z). client_player cs m \<noteq> None)
      | Job_remove c \<Rightarrow> client_player cs c \<noteq> None
      | Job_packet c p \<Rightarrow> client_player cs c \<noteq> None \<and> p \<noteq> In_PlayerMovement None)"

lemma typed_player_spawn:
  assumes "player_ref (typing h) a"
  shows "\<exists>sp. player_spawn_of h m a = Some sp"
  using assms by (rule player_refE) (simp add: player_spawn_of_def)

lemma typed_other_players:
  assumes players: "store_typed (typing h) cs" and members: "\<forall>m \<in> set ms. client_player cs m \<noteq> None"
  shows "\<exists>spawns. other_players h cs me ms = Some spawns"
proof -
  have "\<exists>spawns. other_players h cs me ms = Some spawns \<and> True"
    unfolding other_players_def
  proof (rule fold_opt_total[where P = "\<lambda>_. True"])
    fix m and acc :: "player_spawn list"
    assume "m \<in> set ms"
    then obtain a where a: "client_player cs m = Some a" using members by auto
    then have ref: "player_ref (typing h) a" using players by (simp add: store_typed_def)
    then obtain e where e: "entity_at h a = Some e" by (rule player_refE)
    obtain sp where "player_spawn_of h False a = Some sp" using typed_player_spawn[OF ref] by blast
    then show "\<exists>t. Option.bind (client_player cs m) (\<lambda>a. Option.bind (entity_at h a) (\<lambda>e.
        if entity_id e = me then Some acc
        else Option.bind (player_spawn_of h False a) (\<lambda>sp. Some (acc @ [sp])))) = Some t \<and> True"
      using a e by simp
  qed simp
  then show ?thesis by blast
qed

lemma typed_entity_spawns:
  assumes "\<forall>(i, a) \<in> set es. entity_ref (typing h) i a"
  shows "\<exists>spawns. entity_spawns h es = Some spawns"
proof -
  have "\<exists>spawns. entity_spawns h es = Some spawns \<and> True"
    unfolding entity_spawns_def
  proof (rule fold_opt_total[where P = "\<lambda>_. True"])
    fix x and acc :: "entity_spawn list"
    assume x: "x \<in> set es"
    obtain i a where xa: "x = (i, a)" by (cases x)
    then have "entity_ref (typing h) i a" using assms x by auto
    then obtain n e where "h a = Some n" "entity_at h a = Some e" by (rule entity_refE)
    then show "\<exists>t. (case x of (i, a) \<Rightarrow> \<lambda>spawns. Option.bind (h a) (\<lambda>n. if is_player (object n) then Some spawns
        else Option.bind (entity_spawn_of h i a) (\<lambda>sp. Some (spawns @ [sp])))) acc = Some t \<and> True"
      by (simp add: xa entity_spawn_of_def)
  qed simp
  then show ?thesis by blast
qed

lemma send_to_total: "c \<in> dom cs \<Longrightarrow> \<exists>cs'. send_to c p cs = Some cs' \<and> dom cs' = dom cs"
  using send_to_dom by (fastforce simp: send_to_def)

lemma typed_zone_add:
  assumes h: "heap_typed h" and sw: "subworld_typed (typing h) (zn_subworld z)"
    and members: "snd ` set (zn_clients z) \<subseteq> dom cs" and players: "store_typed (typing h) cs"
    and c: "client_player cs c \<noteq> None" and ms: "\<forall>m \<in> snd ` set (zn_clients z). client_player cs m \<noteq> None"
  shows "\<exists>r. zone_add_client c (z, h, cs) = Some r"
proof -
  obtain cl pl where cl: "cs c = Some cl" "cl_player cl = Some pl"
    using c by (auto simp: client_player_def bind_eq_Some_conv)
  have ref: "player_ref (typing h) pl" by (rule store_typedD[OF players cl])
  then obtain i where iref: "entity_ref (typing h) i pl" using player_ref_entity by blast
  obtain e where e: "entity_at h pl = Some e" using ref by (rule player_refE)
  let ?z = "(if zn_clients z = [] then zone_start z else z)\<lparr>zn_clients := um_assign (client_id cl) c (zn_clients z)\<rparr>"
  let ?h = "set_position pl (spawn_point (zn_subworld z)) h"
  have t: "heap_typed ?h" "typing ?h = typing h" using typed_spawned[OF h] by (simp_all add: retyped_def)
  obtain sw' where sw': "add_entity ?h pl (zn_subworld z) = Some sw'" "subworld_typed (typing h) sw'"
    using typed_add_entity[OF t(1), of "zn_subworld z" i pl] sw iref t(2) by auto
  have sub: "snd ` set (um_assign (client_id cl) c (zn_clients z)) \<subseteq> insert c (snd ` set (zn_clients z))"
    using um_assign_subset[of "client_id cl" c "zn_clients z"] by force
  have all: "\<forall>m \<in> set (um_values (um_assign (client_id cl) c (zn_clients z))). client_player cs m \<noteq> None"
    unfolding um_values_def set_map using sub ms c by blast
  obtain ps where ps: "other_players ?h cs (entity_id e) (um_values (um_assign (client_id cl) c (zn_clients z))) = Some ps"
    using typed_other_players[OF _ all, of ?h] players t(2) by auto
  obtain cs1 where cs1: "send_to c (Out_PlayerSpawns ps) cs = Some cs1" "dom cs1 = dom cs"
    using send_to_total[of c cs] cl(1) by blast
  obtain es where es: "entity_spawns ?h (sw_entities sw') = Some es"
    using typed_entity_spawns[of "sw_entities sw'" ?h] sw'(2) t(2) by (auto simp: subworld_typed_def)
  obtain cs2 where cs2: "send_to c (Out_EntitySpawns es) cs1 = Some cs2" "dom cs2 = dom cs"
    using send_to_total[of c cs1] cl(1) cs1(2) by (metis domI)
  obtain sp where sp: "player_spawn_of ?h False pl = Some sp" using typed_player_spawn[of ?h pl] ref t(2) by auto
  have "snd ` set (zn_clients (?z\<lparr>zn_subworld := sw'\<rparr>)) \<subseteq> dom cs2" using sub members cl(1) cs2(2) by auto
  from broadcast_total[OF this] obtain cs3 where
    cs3: "broadcast (Out_PlayerSpawn sp) (client_id cl) (?z\<lparr>zn_subworld := sw'\<rparr>) cs2 = Some cs3"
    by blast
  show ?thesis
    using cl e sw'(1) ps cs1(1) es cs2(1) sp cs3
    by (cases "zn_clients z = []") (simp_all add: zone_add_client_def Let_def)
qed

lemma typed_zone_remove:
  assumes h: "heap_typed h" and sw: "subworld_typed (typing h) (zn_subworld z)"
    and members: "snd ` set (zn_clients z) \<subseteq> dom cs" and players: "store_typed (typing h) cs"
    and c: "client_player cs c \<noteq> None"
  shows "\<exists>r. zone_remove_client c (z, h, cs) = Some r"
proof -
  obtain cl pl where cl: "cs c = Some cl" "cl_player cl = Some pl"
    using c by (auto simp: client_player_def bind_eq_Some_conv)
  have ref: "player_ref (typing h) pl" by (rule store_typedD[OF players cl])
  obtain e where e: "entity_at h pl = Some e" using ref by (rule player_refE)
  obtain sw' where sw': "remove_entity h pl (zn_subworld z) = Some sw'" using typed_remove_entity[OF h sw ref] by blast
  have "snd ` set (zn_clients (z\<lparr>zn_subworld := sw', zn_clients := um_erase (client_id cl) (zn_clients z)\<rparr>)) \<subseteq> dom cs"
    using image_mono[OF um_erase_subset[of "client_id cl" "zn_clients z"], of snd] members by simp
  from broadcast_total[OF this] obtain cs' where "broadcast (Out_EntityDespawn (entity_id e)) 0
      (z\<lparr>zn_subworld := sw', zn_clients := um_erase (client_id cl) (zn_clients z)\<rparr>) cs = Some cs'"
    by blast
  then show ?thesis using cl e sw' by (simp add: zone_remove_client_def Let_def)
qed

lemma typed_attack:
  assumes h: "heap_typed h" and sw: "subworld_typed (typing h) (zn_subworld z)"
    and members: "snd ` set (zn_clients z) \<subseteq> dom cs" and players: "store_typed (typing h) cs"
    and c: "client_player cs c = Some pl"
  shows "\<exists>r. handle_skill_melee_attack gl now c (z, h, cs) = Some r"
proof -
  have "player_ref (typing h) pl" using players c by (simp add: store_typed_def)
  then obtain e d where e: "entity_at h pl = Some e" "en_class e = Player_class d" by (rule player_refE)
  have typed: "class_typed (typing h) (Player_class d)"
    using heap_typed_entity(1)[OF h e(1)] e(2) by (simp add: entity_typed_def)
  show ?thesis
  proof (cases "\<exists>w. get_main_weapon d = Some (Fist_item w)")
    case True
    then obtain w where w: "get_main_weapon d = Some (Fist_item w)" by blast
    have "fist_typed (typing h) w" using typed w by (simp add: class_typed_def get_main_weapon_def)
    from typed_melee[OF h e(1) this sw members, of gl now] show ?thesis
      using c e w by (auto simp: handle_skill_melee_attack_def)
  next
    case False
    then show ?thesis
      using c e by (cases "get_main_weapon d") (auto simp: handle_skill_melee_attack_def split: equipment.split)
  qed
qed

lemma typed_entities_return:
  assumes g: "wf_grid (sw_obstacles_grid (zn_subworld z))" and sw: "subworld_typed T (zn_subworld z)"
  shows "set as \<subseteq> set (um_values (sw_entities (zn_subworld z))) \<Longrightarrow> heap_typed h \<Longrightarrow> typing h = T
    \<Longrightarrow> distances_defined gl h (zn_subworld z) \<Longrightarrow> snd ` set (zn_clients z) \<subseteq> dom cs
    \<Longrightarrow> \<exists>h' cs'. entities_tick gl ti z as (h, cs) = Some (Inr (h', cs')) \<and> unmoved h h' \<and> dom cs' = dom cs"
proof (induction as arbitrary: h cs)
  case Nil
  then show ?case by (simp add: unmoved_refl)
next
  case (Cons a as)
  have a: "a \<in> set (um_values (sw_entities (zn_subworld z)))" using Cons.prems(1) by simp
  have sw': "subworld_typed (typing h) (zn_subworld z)" using sw Cons.prems(3) by simp
  from a obtain i where "(i, a) \<in> set (sw_entities (zn_subworld z))" by (auto simp: um_values_def)
  then have "entity_ref (typing h) i a" using sw' by (auto simp: subworld_typed_def)
  then obtain e where e: "entity_at h a = Some e" by (rule entity_refE)
  have "\<exists>h1 cs1. entity_tick gl ti z a (h, cs) = Some (Inr (h1, cs1)) \<and> unmoved h h1 \<and> dom cs1 = dom cs"
  proof (cases "en_class e")
    case (Player_class d)
    then show ?thesis using e unmoved_refl[OF Cons.prems(2)] by (simp add: entity_tick_def)
  next
    case (Monster_class d)
    then obtain h1 cs1 where t: "simple_monster_tick gl (ti_pick ti a) (ti_tie ti a) (ti_clock ti a) z a (h, cs) = Some (Inr (h1, cs1))"
      using typed_monster_tick[OF Cons.prems(2) a e _ sw' Cons.prems(5) g Cons.prems(4)] by blast
    then show ?thesis
      using e Monster_class unmoved_monster_tick[OF t Cons.prems(2) sw' Cons.prems(5)]
        views_player(2)[OF plr.views_simple_monster_tick[OF t]]
      by (simp add: entity_tick_def)
  qed
  then obtain h1 cs1 where one: "entity_tick gl ti z a (h, cs) = Some (Inr (h1, cs1))" "unmoved h h1" "dom cs1 = dom cs"
    by blast
  have "distances_defined gl h1 (zn_subworld z)" by (rule distances_defined_unmoved[OF one(2) Cons.prems(4)])
  then obtain h2 cs2 where "entities_tick gl ti z as (h1, cs1) = Some (Inr (h2, cs2))" "unmoved h1 h2" "dom cs2 = dom cs1"
    using Cons.IH[of h1 cs1] Cons.prems one unmovedD[OF one(2)] by auto
  then show ?case using one unmoved_trans[OF one(2)] by auto
qed

lemma those_total: "(\<And>x. x \<in> set xs \<Longrightarrow> \<exists>y. f x = Some y) \<Longrightarrow> \<exists>ys. those (map f xs) = Some ys"
  by (induction xs) fastforce+

lemma typed_zone_tick:
  assumes h: "heap_typed h" and sw: "subworld_typed (typing h) (zn_subworld z)"
    and members: "snd ` set (zn_clients z) \<subseteq> dom cs" and def: "tick_due ti z \<longrightarrow> tick_defined gl (zn_subworld z) h"
  shows "\<exists>r. zone_tick gl ti (z, h, cs) = Some (Inr r)"
proof (cases "tick_due ti z")
  case False
  then show ?thesis by (auto simp: zone_tick_def tick_due_def)
next
  case due: True
  note def = def[rule_format, OF due, unfolded tick_defined_def]
  obtain sw' h1 evs where t: "subworld_tick gl (zn_subworld z) h = Some (sw', h1, evs)"
    using typed_subworld_tick_defined[OF h sw, of gl] def by (metis prod_cases3)
  note tt = typed_subworld_tick[OF h t]
  have t1: "heap_typed h1" "typing h1 = typing h" using tt(1) by (simp_all add: retyped_def)
  have dist: "distances_defined gl h1 sw'" using def t tt(2,3) by (simp add: distances_defined_def)
  let ?z = "z\<lparr>zn_subworld := sw'\<rparr>"
  have "wf_grid (sw_obstacles_grid (zn_subworld ?z))" "subworld_typed (typing h1) (zn_subworld ?z)"
    using def sw tt(4,5) t1(2) by simp_all
  from typed_entities_return[OF this subset_refl t1(1) refl, of gl cs ti] obtain h2 cs2 where
    e: "entities_tick gl ti ?z (um_values (sw_entities sw')) (h1, cs) = Some (Inr (h2, cs2))" "unmoved h1 h2" "dom cs2 = dom cs"
    using dist members by auto
  have t2: "typing h2 = typing h" using unmovedD[OF e(2)] t1(2) by simp
  have "\<exists>m. movement_of h2 a = Some m" if a: "a \<in> set (um_values (sw_entities sw'))" for a
  proof -
    obtain i where "(i, a) \<in> set (sw_entities (zn_subworld z))" using a tt(2) by (auto simp: um_values_def)
    then have "entity_ref (typing h2) i a" using sw t2 by (auto simp: subworld_typed_def)
    then obtain n e' where "h2 a = Some n" "entity_at h2 a = Some e'" by (rule entity_refE)
    then show ?thesis by (simp add: movement_of_def)
  qed
  then obtain ms where ms: "those (map (movement_of h2) (um_values (sw_entities sw'))) = Some ms"
    using those_total by metis
  have "snd ` set (zn_clients ?z) \<subseteq> dom cs2" using members e(3) by simp
  from broadcast_total[OF this] obtain cs3 where "broadcast (Out_EntityMovements ms) 0 ?z cs2 = Some cs3" by blast
  then show ?thesis using due t e(1) ms by (simp add: zone_tick_def tick_due_def Let_def)
qed

lemma zone_exec_returns:
  assumes h: "heap_typed h" and sw: "subworld_typed (typing h) (zn_subworld z)"
    and members: "snd ` set (zn_clients z) \<subseteq> dom cs" and players: "store_typed (typing h) cs"
    and def: "job_defined gl ti z h cs j"
  shows "\<exists>r. zone_exec gl ti j (z, h, cs) = Some (Inr r)"
proof (cases j)
  case Job_tick
  then show ?thesis using typed_zone_tick[OF h sw members] def by (simp add: zone_exec_def job_defined_def)
next
  case (Job_add c)
  then show ?thesis using typed_zone_add[OF h sw members players] def by (simp add: zone_exec_def job_defined_def)
next
  case (Job_remove c)
  then show ?thesis using typed_zone_remove[OF h sw members players] def by (simp add: zone_exec_def job_defined_def)
next
  case (Job_packet c p)
  then obtain pl where pl: "client_player cs c = Some pl" and body: "p \<noteq> In_PlayerMovement None"
    using def by (auto simp: job_defined_def)
  then obtain cl where cl: "cs c = Some cl" by (auto simp: client_player_def bind_eq_Some_conv)
  have "player_ref (typing h) pl" using players pl by (simp add: store_typed_def)
  then obtain e where e: "entity_at h pl = Some e" by (rule player_refE)
  have "\<exists>r. zone_handle_packet gl (ti_now ti) c p (z, h, cs) = Some r"
  proof (cases "um_contains (zn_clients z) (client_id cl)")
    case True
    show ?thesis
    proof (cases p)
      case (In_PlayerMovement dir)
      then obtain x y where "dir = Some (x, y)" using body by (cases dir) auto
      then show ?thesis
        using cl True pl e In_PlayerMovement by (simp add: zone_handle_packet_def handle_player_movement_def Let_def)
    next
      case In_SkillMeleeAttack
      then show ?thesis
        using cl True typed_attack[OF h sw members players pl, of gl "ti_now ti"] by (simp add: zone_handle_packet_def)
    qed (use cl True in \<open>simp_all add: zone_handle_packet_def\<close>)
  qed (use cl in \<open>simp add: zone_handle_packet_def\<close>)
  then show ?thesis using Job_packet by (simp add: zone_exec_def)
qed

end
