(* ===== verification/Profiler.thy ===== *)
theory Profiler
  imports Prelude
begin

text \<open>
  \<open>Profiler\<close> of \<open>tower/network/profiler.hpp\<close>: the packets and bytes of the last five seconds. The
  values of \<open>steady_clock::now()\<close>, in milliseconds, are inputs; the counters are 64-bit words and a
  record keeps only 16 bits of the packet's size. \<open>renew\<close> is guarded by an atomic flag and the
  records by a mutex, so calls from several threads are a sequence of calls.
\<close>

record packet_record =
  pr_timestamp :: int
  pr_bytes :: u16

record profiler =
  pf_records :: "packet_record list"
  pf_is_renewing :: bool
  pf_total_packets :: u64
  pf_total_bytes :: u64

definition WINDOW_LENGTH :: int where
  "WINDOW_LENGTH = 5000"

definition max_pops :: nat where
  "max_pops = 10000"

definition profiler_new :: profiler where
  "profiler_new =
     \<lparr>pf_records = [], pf_is_renewing = False, pf_total_packets = 0, pf_total_bytes = 0\<rparr>"

text \<open>The loop of \<open>renew\<close>, with the number of pops that are left.\<close>

fun renew_loop :: "int \<Rightarrow> nat \<Rightarrow> profiler \<Rightarrow> profiler" where
  "renew_loop now 0 p = p"
| "renew_loop now (Suc pops) p =
     (case pf_records p of
        [] \<Rightarrow> p
      | r # rs \<Rightarrow>
          if now < pr_timestamp r + WINDOW_LENGTH then p
          else renew_loop now pops
            (p\<lparr>pf_total_packets := pf_total_packets p - 1,
               pf_total_bytes := pf_total_bytes p - ucast (pr_bytes r),
               pf_records := rs\<rparr>))"

definition renew :: "int \<Rightarrow> profiler \<Rightarrow> profiler" where
  "renew now p =
     (if pf_is_renewing p then p
      else (renew_loop now max_pops (p\<lparr>pf_is_renewing := True\<rparr>))\<lparr>pf_is_renewing := False\<rparr>)"

text \<open>\<open>now\<close> and \<open>now'\<close> are the two readings of the clock.\<close>

definition add_packet :: "int \<Rightarrow> int \<Rightarrow> u32 \<Rightarrow> profiler \<Rightarrow> profiler" where
  "add_packet now now' packet_bytes p =
     renew now'
       (p\<lparr>pf_records := pf_records p @ [\<lparr>pr_timestamp = now, pr_bytes = ucast packet_bytes\<rparr>],
          pf_total_packets := pf_total_packets p + 1,
          pf_total_bytes := pf_total_bytes p + ucast packet_bytes\<rparr>)"

definition get_pps :: "profiler \<Rightarrow> u64" where
  "get_pps p = pf_total_packets p * 1000 div word_of_int WINDOW_LENGTH"

definition get_bps :: "profiler \<Rightarrow> u64" where
  "get_bps p = pf_total_bytes p * 1000 div word_of_int WINDOW_LENGTH"

section \<open>The counters never drift from the records\<close>

definition bytes_sum :: "packet_record list \<Rightarrow> u64" where
  "bytes_sum rs = (\<Sum>r\<leftarrow>rs. ucast (pr_bytes r))"

definition counters_exact :: "profiler \<Rightarrow> bool" where
  "counters_exact p \<longleftrightarrow>
     pf_total_packets p = of_nat (length (pf_records p))
     \<and> pf_total_bytes p = bytes_sum (pf_records p) \<and> \<not> pf_is_renewing p"

text \<open>\<open>p'\<close> is \<open>p\<close> without its first \<open>k\<close> records, which had all expired.\<close>

definition popped :: "int \<Rightarrow> nat \<Rightarrow> profiler \<Rightarrow> profiler \<Rightarrow> bool" where
  "popped now k p p' \<longleftrightarrow>
     k \<le> length (pf_records p)
     \<and> (\<forall>r \<in> set (take k (pf_records p)). pr_timestamp r + WINDOW_LENGTH \<le> now)
     \<and> p' = p\<lparr>pf_records := drop k (pf_records p),
              pf_total_packets := pf_total_packets p - of_nat k,
              pf_total_bytes := pf_total_bytes p - bytes_sum (take k (pf_records p))\<rparr>"

lemma popped_0: "popped now 0 p p"
  by (simp add: popped_def bytes_sum_def)

lemma popped_Suc:
  assumes "pf_records p = r # rs" "\<not> now < pr_timestamp r + WINDOW_LENGTH"
    and "popped now k (p\<lparr>pf_total_packets := pf_total_packets p - 1,
               pf_total_bytes := pf_total_bytes p - ucast (pr_bytes r),
               pf_records := rs\<rparr>) p'"
  shows "popped now (Suc k) p p'"
  using assms by (simp add: popped_def bytes_sum_def algebra_simps)

lemma renew_loop_popped: "\<exists>k. popped now k p (renew_loop now n p)"
proof (induction n arbitrary: p)
  case 0
  then show ?case using popped_0 by auto
next
  case (Suc n)
  show ?case
  proof (cases "pf_records p")
    case Nil
    then show ?thesis using popped_0[of now p] by auto
  next
    case (Cons r rs)
    then show ?thesis
      using popped_0[of now p] popped_Suc[OF Cons] Suc.IH
      by (cases "now < pr_timestamp r + WINDOW_LENGTH") (auto, blast)
  qed
qed

lemma bytes_sum_append: "bytes_sum (xs @ ys) = bytes_sum xs + bytes_sum ys"
  by (simp add: bytes_sum_def)

lemma popped_counters:
  assumes "popped now k p p'" "pf_total_packets p = of_nat (length (pf_records p))"
    "pf_total_bytes p = bytes_sum (pf_records p)"
  shows "pf_total_packets p' = of_nat (length (pf_records p'))"
    "pf_total_bytes p' = bytes_sum (pf_records p')"
proof -
  have "bytes_sum (pf_records p) = bytes_sum (take k (pf_records p)) + bytes_sum (drop k (pf_records p))"
    by (simp flip: bytes_sum_append)
  with assms show "pf_total_bytes p' = bytes_sum (pf_records p')" by (simp add: popped_def)
  show "pf_total_packets p' = of_nat (length (pf_records p'))"
    using assms by (simp add: popped_def of_nat_diff)
qed

lemma renew_spec:
  assumes "counters_exact p"
  obtains k where "pf_records (renew now p) = drop k (pf_records p)"
    "\<forall>r \<in> set (take k (pf_records p)). pr_timestamp r + WINDOW_LENGTH \<le> now"
    "counters_exact (renew now p)"
proof -
  obtain k where k: "popped now k (p\<lparr>pf_is_renewing := True\<rparr>)
      (renew_loop now max_pops (p\<lparr>pf_is_renewing := True\<rparr>))"
    using renew_loop_popped by blast
  have r: "renew now p
      = (renew_loop now max_pops (p\<lparr>pf_is_renewing := True\<rparr>))\<lparr>pf_is_renewing := False\<rparr>"
    using assms by (simp add: renew_def counters_exact_def)
  have "counters_exact (renew now p)"
    using popped_counters[OF k] assms unfolding r by (simp add: counters_exact_def)
  moreover have "pf_records (renew now p) = drop k (pf_records p)"
    "\<forall>r \<in> set (take k (pf_records p)). pr_timestamp r + WINDOW_LENGTH \<le> now"
    using k unfolding r by (simp_all add: popped_def)
  ultimately show thesis using that by blast
qed

text \<open>Calls from the rest of the server: each has its clock readings.\<close>

datatype profiler_call = Add_packet int int u32 | Renew int

primrec prof_exec :: "profiler_call \<Rightarrow> profiler \<Rightarrow> profiler" where
  "prof_exec (Add_packet now now' b) p = add_packet now now' b p"
| "prof_exec (Renew now) p = renew now p"

primrec call_time :: "profiler_call \<Rightarrow> int" where
  "call_time (Add_packet now now' b) = now'"
| "call_time (Renew now) = now"

primrec call_records :: "profiler_call \<Rightarrow> packet_record list" where
  "call_records (Add_packet now now' b) = [\<lparr>pr_timestamp = now, pr_bytes = ucast b\<rparr>]"
| "call_records (Renew now) = []"

primrec call_small :: "profiler_call \<Rightarrow> bool" where
  "call_small (Add_packet now now' b) = (b < 2 ^ 16)"
| "call_small (Renew now) = True"

lemma ucast_narrow:
  assumes "(b :: u32) < 2 ^ 16"
  shows "(ucast (ucast b :: u16) :: u64) = ucast b"
proof -
  have "uint b < 2 ^ 16" using assms by (simp add: word_less_def)
  then have t: "take_bit 16 (uint b) = uint b" "take_bit 64 (uint b) = uint b"
    by (simp_all add: take_bit_int_eq_self)
  have "uint (ucast (ucast b :: u16) :: u64) = take_bit LENGTH(64) (take_bit LENGTH(16) (uint b))"
    by (simp add: unsigned_ucast_eq unsigned_take_bit_eq)
  also have "\<dots> = uint (ucast b :: u64)" using t by (simp add: unsigned_ucast_eq)
  finally show ?thesis by (rule word_uint_eqI)
qed

lemma counters_after_push:
  assumes "counters_exact p" "b < 2 ^ 16"
  shows "counters_exact
    (p\<lparr>pf_records := pf_records p @ [\<lparr>pr_timestamp = now, pr_bytes = ucast b\<rparr>],
       pf_total_packets := pf_total_packets p + 1,
       pf_total_bytes := pf_total_bytes p + ucast (b :: u32)\<rparr>)"
  using assms ucast_narrow[OF assms(2)] by (simp add: counters_exact_def bytes_sum_def)

lemma prof_exec_spec:
  assumes "counters_exact p" "call_small c"
  obtains gone where
    "gone @ pf_records (prof_exec c p) = pf_records p @ call_records c"
    "\<forall>r \<in> set gone. pr_timestamp r + WINDOW_LENGTH \<le> call_time c"
    "counters_exact (prof_exec c p)"
proof -
  let ?added = "pf_records p @ call_records c"
  have "\<exists>k. pf_records (prof_exec c p) = drop k ?added
      \<and> (\<forall>r \<in> set (take k ?added). pr_timestamp r + WINDOW_LENGTH \<le> call_time c)
      \<and> counters_exact (prof_exec c p)"
  proof (cases c)
    case (Add_packet now now' b)
    have "b < 2 ^ 16" using assms(2) Add_packet by simp
    from renew_spec[OF counters_after_push[OF assms(1) this], of now' now]
    show ?thesis using Add_packet by (simp add: add_packet_def) metis
  next
    case (Renew now)
    from renew_spec[OF assms(1), of now] show ?thesis using Renew by simp metis
  qed
  then obtain k where k: "pf_records (prof_exec c p) = drop k ?added"
      "\<forall>r \<in> set (take k ?added). pr_timestamp r + WINDOW_LENGTH \<le> call_time c"
      "counters_exact (prof_exec c p)"
    by blast
  show thesis by (rule that[OF _ k(2,3)]) (simp only: k(1) append_take_drop_id)
qed

definition dropped_ok :: "int \<Rightarrow> packet_record list \<Rightarrow> profiler \<Rightarrow> bool" where
  "dropped_ok t added p \<longleftrightarrow> counters_exact p
     \<and> (\<exists>gone. gone @ pf_records p = added
          \<and> (\<forall>r \<in> set gone. pr_timestamp r + WINDOW_LENGTH \<le> t))"

lemma dropped_ok_exec:
  assumes "dropped_ok t added p" "call_small c" "t \<le> call_time c"
  shows "dropped_ok (call_time c) (added @ call_records c) (prof_exec c p)"
proof -
  obtain gone where gone: "gone @ pf_records p = added" "counters_exact p"
    "\<forall>r \<in> set gone. pr_timestamp r + WINDOW_LENGTH \<le> t"
    using assms(1) by (auto simp: dropped_ok_def)
  obtain gone' where gone': "gone' @ pf_records (prof_exec c p) = pf_records p @ call_records c"
    "\<forall>r \<in> set gone'. pr_timestamp r + WINDOW_LENGTH \<le> call_time c"
    "counters_exact (prof_exec c p)"
    using prof_exec_spec[OF gone(2) assms(2)] by blast
  have "(gone @ gone') @ pf_records (prof_exec c p) = added @ call_records c"
    using gone(1) gone'(1) by auto
  moreover have "\<forall>r \<in> set (gone @ gone'). pr_timestamp r + WINDOW_LENGTH \<le> call_time c"
    using gone(3) gone'(2) assms(3) by fastforce
  ultimately show ?thesis using gone'(3) unfolding dropped_ok_def by blast
qed

lemma dropped_ok_run:
  assumes "dropped_ok t added p" "\<forall>c \<in> set calls. call_small c" "sorted (t # map call_time calls)"
  shows "dropped_ok (last (t # map call_time calls)) (added @ concat (map call_records calls))
    (fold prof_exec calls p)"
  using assms
proof (induction calls arbitrary: t added p)
  case (Cons c calls)
  have "dropped_ok (call_time c) (added @ call_records c) (prof_exec c p)"
    using Cons.prems by (intro dropped_ok_exec) auto
  from Cons.IH[OF this] Cons.prems show ?case by simp
qed simp

text \<open>As long as no packet is larger than 65535 bytes, the profiler's counters never drift: after
  any calls with a clock that does not run backwards they are exactly the number and the total size
  (modulo \<open>2 ^ 64\<close>) of the records it holds; these are the most recently added packets, and every
  packet it has dropped was at least five seconds old.\<close>

theorem profiler_no_drift:
  assumes "\<forall>c \<in> set calls. call_small c" and "sorted (t0 # map call_time calls)"
    and "p = fold prof_exec calls profiler_new"
  shows "pf_total_packets p = of_nat (length (pf_records p))
    \<and> pf_total_bytes p = (\<Sum>r\<leftarrow>pf_records p. ucast (pr_bytes r))
    \<and> (\<exists>gone. gone @ pf_records p = concat (map call_records calls)
          \<and> (\<forall>r \<in> set gone. pr_timestamp r + WINDOW_LENGTH \<le> last (t0 # map call_time calls)))"
proof -
  have "dropped_ok t0 [] profiler_new"
    by (simp add: dropped_ok_def counters_exact_def profiler_new_def bytes_sum_def)
  from dropped_ok_run[OF this assms(1,2)] assms(3) show ?thesis
    by (simp add: dropped_ok_def counters_exact_def bytes_sum_def)
qed

lemma renew_loop_numeral:
  "renew_loop now (numeral n) p =
     (case pf_records p of
        [] \<Rightarrow> p
      | r # rs \<Rightarrow>
          if now < pr_timestamp r + WINDOW_LENGTH then p
          else renew_loop now (pred_numeral n)
            (p\<lparr>pf_total_packets := pf_total_packets p - 1,
               pf_total_bytes := pf_total_bytes p - ucast (pr_bytes r), pf_records := rs\<rparr>))"
  by (simp add: numeral_eq_Suc)

definition sample_calls :: "profiler_call list" where
  "sample_calls = [Add_packet 0 0 100, Add_packet 3000 3000 200, Add_packet 6000 6001 300, Renew 7999]"

theorem profiler_no_drift_witness:
  "pf_total_packets (fold prof_exec sample_calls profiler_new) = 2
   \<and> get_bps (fold prof_exec sample_calls profiler_new) = 100
   \<and> (\<exists>gone. gone @ pf_records (fold prof_exec sample_calls profiler_new)
         = concat (map call_records sample_calls)
       \<and> (\<forall>r \<in> set gone. pr_timestamp r + WINDOW_LENGTH \<le> last (0 # map call_time sample_calls)))"
proof -
  have "\<forall>c \<in> set sample_calls. call_small c" "sorted (0 # map call_time sample_calls)"
    by (simp_all add: sample_calls_def)
  note run = profiler_no_drift[OF this refl]
  have "length (pf_records (fold prof_exec sample_calls profiler_new)) = 2"
    and "get_bps (fold prof_exec sample_calls profiler_new) = 100"
    by (simp_all add: sample_calls_def profiler_new_def add_packet_def renew_def max_pops_def
        renew_loop_numeral WINDOW_LENGTH_def get_bps_def)
  with run show ?thesis by simp
qed

end
