(* ===== verification/Server.thy ===== *)
theory Server
  imports Zone_Correct Profiler Players
begin

text \<open>
  \<open>Server\<close> (\<open>tower/network/server.cpp\<close>): it accepts sockets, keeps the tables of the clients and of the
  zones they are in, authenticates clients and routes their packets. Its handlers run on the server's
  strand, in the order in which they were posted.

  A handler that was posted and throws takes the process down (\<open>Inl\<close>). The packet handlers run in
  coroutines that are spawned detached: an exception ends the coroutine and is dropped. What comes from
  outside is an input: the verdict of the token verifier, the outcome of the database, sockets, clocks.
\<close>

section \<open>State\<close>

datatype server_job =
    Sj_add addr
  | Sj_remove addr
  | Sj_packet addr in_packet
  | Sj_cleanup

text \<open>\<open>sv_freed\<close>: the zones that \<open>_zones.clear()\<close> destroyed, whose jobs may still be in their strands.
  Starting after a stop gives no new accepting loop, because the acceptor stays closed, but a further
  loop that logs the traffic: \<open>sv_profiling\<close> counts those. \<open>sv_joins\<close>: the join coroutines that wait for the database, with the client and the character name.
  \<open>sv_store\<close> holds the client objects, \<open>sv_next_id\<close> is \<open>client_id_generator\<close>.\<close>

record server =
  sv_running :: bool
  sv_acceptor_open :: bool
  sv_accepting :: bool
  sv_profiling :: nat
  sv_next_id :: u32
  sv_clients :: "(u32, addr) umap"
  sv_current_zone :: "(u32, u32) umap"
  sv_zones :: "(u32, zone) umap"
  sv_freed :: "zone list"
  sv_profiler :: profiler
  sv_strand :: "server_job list"
  sv_joins :: "(addr \<times> string) list"
  sv_store :: clients
  sv_next_addr :: addr
  sv_world :: world

definition server_new :: "world \<Rightarrow> server" where
  "server_new w =
     \<lparr>sv_running = False, sv_acceptor_open = True, sv_accepting = False, sv_profiling = 0, sv_next_id = 0, sv_clients = [],
      sv_current_zone = [], sv_zones = [], sv_freed = [], sv_profiler = profiler_new, sv_strand = [],
      sv_joins = [], sv_store = Map.empty, sv_next_addr = 0, sv_world = w\<rparr>"

definition sv_post :: "server_job \<Rightarrow> server \<Rightarrow> server" where
  "sv_post j s = s\<lparr>sv_strand := sv_strand s @ [j]\<rparr>"

definition sv_set_client :: "addr \<Rightarrow> client \<Rightarrow> server \<Rightarrow> server" where
  "sv_set_client c cl s = s\<lparr>sv_store := (sv_store s)(c \<mapsto> cl)\<rparr>"

text \<open>\<open>remove_client_deferred\<close>, which every client calls when its connection goes down.\<close>

definition remove_client_deferred :: "addr \<Rightarrow> server \<Rightarrow> server" where
  "remove_client_deferred c s = sv_post (Sj_remove c) s"

definition sv_client_events :: "addr \<Rightarrow> conn_event list \<Rightarrow> server \<Rightarrow> server" where
  "sv_client_events c evs s = fold (\<lambda>ev s. case ev of Disconnected \<Rightarrow> remove_client_deferred c s | _ \<Rightarrow> s) evs s"

text \<open>\<open>client->stop()\<close>\<close>

definition sv_stop_client :: "addr \<Rightarrow> server \<Rightarrow> server option" where
  "sv_stop_client c s =
     map_option (\<lambda>cl. case client_stop cl of (cl', evs) \<Rightarrow> sv_client_events c evs (sv_set_client c cl' s))
       (sv_store s c)"

definition sv_send :: "addr \<Rightarrow> out_packet \<Rightarrow> server \<Rightarrow> server option" where
  "sv_send c p s = map_option (\<lambda>cs. s\<lparr>sv_store := cs\<rparr>) (send_to c p (sv_store s))"

text \<open>\<open>_zones.at(zid)->...\<close> for an operation that posts to the zone.\<close>

definition on_zone :: "u32 \<Rightarrow> (zone \<Rightarrow> zone) \<Rightarrow> server \<Rightarrow> server result" where
  "on_zone zid f s =
     (case um_at (sv_zones s) zid of
        Inl ex \<Rightarrow> Inl ex
      | Inr z \<Rightarrow> Inr (s\<lparr>sv_zones := um_assign zid (f z) (sv_zones s)\<rparr>))"

section \<open>init, start, stop\<close>

definition init_zone :: "(u32 \<Rightarrow> zone_file) \<Rightarrow> u32 \<Rightarrow> server \<Rightarrow> server option" where
  "init_zone files zid s =
     map_option (\<lambda>z. case z of None \<Rightarrow> s | Some z \<Rightarrow> s\<lparr>sv_zones := um_assign zid z (sv_zones s)\<rparr>)
       (zone_create zid (files zid))"

definition server_init :: "vec3 \<Rightarrow> (u32 \<Rightarrow> zone_file) \<Rightarrow> server \<Rightarrow> server result option" where
  "server_init shape_size files s = do {
     s \<leftarrow> fold_opt (init_zone files) [1, 2, 3, 4, 5, 6, 7, 8, 9, 10] s;
     (monster, w) \<leftarrow> simple_monster_create shape_size (sv_world s);
     let s = s\<lparr>sv_world := w\<rparr>;
     case um_at (sv_zones s) 1 of
       Inl ex \<Rightarrow> Some (Inl ex)
     | Inr z \<Rightarrow>
         map_option (\<lambda>sw. Inr (s\<lparr>sv_zones := um_assign 1 (z\<lparr>zn_subworld := sw\<rparr>) (sv_zones s)\<rparr>))
           (add_entity (wd_heap w) monster (zn_subworld z))
   }"

definition server_start :: "server \<Rightarrow> server" where
  "server_start s =
     (if sv_running s then s
      else s\<lparr>sv_running := True, sv_accepting := (sv_accepting s \<or> sv_acceptor_open s),
             sv_profiling := sv_profiling s + 1\<rparr>)"

definition server_stop :: "server \<Rightarrow> server" where
  "server_stop s = (if \<not> sv_running s then s
      else sv_post Sj_cleanup (s\<lparr>sv_running := False, sv_acceptor_open := False\<rparr>))"

definition server_cleanup :: "server \<Rightarrow> server option" where
  "server_cleanup s =
     map_option (\<lambda>s. s\<lparr>sv_zones := [], sv_freed := sv_freed s @ map zone_stop (um_values (sv_zones s))\<rparr>)
       (fold_opt sv_stop_client (um_values (sv_clients s)) s)"

section \<open>Accepting\<close>

datatype accept_outcome =
    Accept_aborted
  | Accept_error
  | Accept_no_endpoint
  | Accept_no_delay_failed
  | Accepted bool

definition add_client_deferred :: "bool \<Rightarrow> server \<Rightarrow> server" where
  "add_client_deferred socket_is_open s =
     (let i = sv_next_id s + 1; c = sv_next_addr s in
      sv_post (Sj_add c)
        (s\<lparr>sv_next_id := i, sv_next_addr := c + 1, sv_store := (sv_store s)(c \<mapsto> client_new i socket_is_open)\<rparr>))"

text \<open>One round of the accepting loop: from the completion of an accept to the next one.\<close>

definition accept_round :: "accept_outcome \<Rightarrow> server \<Rightarrow> server option" where
  "accept_round outcome s =
     (if \<not> sv_accepting s then None
      else
        let s = (case outcome of
            Accept_aborted \<Rightarrow> s\<lparr>sv_accepting := False\<rparr>
          | Accepted socket_is_open \<Rightarrow> add_client_deferred socket_is_open s
          | _ \<Rightarrow> s)
        in Some (if sv_running s then s else s\<lparr>sv_accepting := False\<rparr>))"

text \<open>One round of the loop that logs the traffic, after its timer.\<close>

definition profiler_round :: "bool \<Rightarrow> int \<Rightarrow> server \<Rightarrow> server option" where
  "profiler_round ec now s =
     (if sv_profiling s = 0 then None
      else if ec \<or> \<not> sv_running s then Some (s\<lparr>sv_profiling := sv_profiling s - 1\<rparr>)
      else Some (s\<lparr>sv_profiler := renew now (sv_profiler s)\<rparr>))"

text \<open>A client delivers a packet of \<open>bytes\<close> bytes; \<open>None\<close> if the verifier rejects it.\<close>

definition packet_received :: "addr \<Rightarrow> u32 \<Rightarrow> in_packet option \<Rightarrow> int \<Rightarrow> server \<Rightarrow> server option" where
  "packet_received c bytes p now s =
     (case sv_store s c of
        None \<Rightarrow> None
      | Some cl \<Rightarrow>
          (let s = sv_set_client c (client_packet_received now cl) s;
               s = s\<lparr>sv_profiler := add_packet now now bytes (sv_profiler s)\<rparr>
           in case p of
                None \<Rightarrow> sv_stop_client c s
              | Some p \<Rightarrow> Some (sv_post (Sj_packet c p) s)))"

section \<open>Clients come and go\<close>

definition server_add_client :: "addr \<Rightarrow> int \<Rightarrow> server \<Rightarrow> server result option" where
  "server_add_client c now s =
     (case sv_store s c of
        None \<Rightarrow> None
      | Some cl \<Rightarrow>
          (let i = client_id cl;
               s = s\<lparr>sv_clients := um_insert i c (sv_clients s), sv_current_zone := um_insert i 0 (sv_current_zone s)\<rparr>
           in case um_at (sv_clients s) i of
                Inl ex \<Rightarrow> Some (Inl ex)
              | Inr a \<Rightarrow> map_option (\<lambda>x. Inr (sv_set_client a (client_start now x) s)) (sv_store s a)))"

definition server_remove_client :: "addr \<Rightarrow> server \<Rightarrow> server result option" where
  "server_remove_client c s = do {
     s \<leftarrow> sv_stop_client c s;
     cl \<leftarrow> sv_store s c;
     let i = client_id cl;
     case um_at (sv_current_zone s) i of
       Inl ex \<Rightarrow> Some (Inl ex)
     | Inr current_zone \<Rightarrow>
         (case (if um_contains (sv_zones s) current_zone
                then on_zone current_zone (zone_remove_client_deferred c) s else Inr s) of
            Inl ex \<Rightarrow> Some (Inl ex)
          | Inr s \<Rightarrow> Some (Inr (s\<lparr>sv_clients := um_erase i (sv_clients s),
                                  sv_current_zone := um_erase i (sv_current_zone s)\<rparr>)))
   }"

section \<open>Packets\<close>

text \<open>Joining, up to the database. The verdict of the verifier on the token and the user name is a
  parameter.\<close>

definition join_request_start :: "(string \<Rightarrow> string \<Rightarrow> bool) \<Rightarrow> addr \<Rightarrow> join_request \<Rightarrow> server \<Rightarrow> server option" where
  "join_request_start token_ok c req s =
     (case (jr_username req, jr_character_name req, jr_token req) of
        (Some username, Some character_name, Some token) \<Rightarrow>
          if token_ok token username
          then map_option (\<lambda>cl. (sv_set_client c (cl\<lparr>is_authenticated := True\<rparr>) s)
                                  \<lparr>sv_joins := sv_joins s @ [(c, character_name)]\<rparr>) (sv_store s c)
          else sv_stop_client c s
      | _ \<Rightarrow> sv_stop_client c s)"

text \<open>What the database says: the statement could not be prepared, the query failed, or it gave rows; and
  the rows that \<open>Player::load\<close> reads.\<close>

record join_db =
  jd_prepare_ok :: bool
  jd_rows :: "db_row list option"
  jd_character :: database

text \<open>The rest of a join coroutine. An exception of \<open>Player::load\<close> ends it.\<close>

definition join_request_finish :: "vec3 \<Rightarrow> join_db \<Rightarrow> addr \<Rightarrow> server \<Rightarrow> server option" where
  "join_request_finish shape_size db c s =
     (if \<not> jd_prepare_ok db then Some s
      else case jd_rows db of
        None \<Rightarrow> sv_stop_client c s
      | Some [] \<Rightarrow> sv_stop_client c s
      | Some (_ # _) \<Rightarrow> do {
          (res, w) \<leftarrow> player_load shape_size (jd_character db) (sv_world s);
          cl \<leftarrow> sv_store s c;
          case res of
            Inl _ \<Rightarrow> Some (s\<lparr>sv_world := w\<rparr>)
          | Inr player \<Rightarrow>
              (let s = sv_set_client c (cl\<lparr>cl_player := player\<rparr>) (s\<lparr>sv_world := w\<rparr>) in
               case player of
                 None \<Rightarrow> sv_stop_client c s
               | Some pl \<Rightarrow> do {
                   spawn \<leftarrow> player_spawn_of (wd_heap w) True pl;
                   sv_send c (Out_ClientJoinResponse 1 spawn) s
                 })
        })"

definition join_resume :: "vec3 \<Rightarrow> join_db \<Rightarrow> nat \<Rightarrow> server \<Rightarrow> server option" where
  "join_resume shape_size db i s =
     (if i < length (sv_joins s)
      then join_request_finish shape_size db (fst (sv_joins s ! i))
             (s\<lparr>sv_joins := take i (sv_joins s) @ drop (Suc i) (sv_joins s)\<rparr>)
      else None)"

definition handle_player_enter_zone_request :: "addr \<Rightarrow> u32 option \<Rightarrow> server \<Rightarrow> server result option" where
  "handle_player_enter_zone_request c location s = do {
     cl \<leftarrow> sv_store s c;
     let i = client_id cl;
     case um_at (sv_current_zone s) i of
       Inl ex \<Rightarrow> Some (Inl ex)
     | Inr current_zone_id \<Rightarrow> do {
         next_zone_id \<leftarrow> location;
         if current_zone_id = next_zone_id then Some (Inr s)
         else if (current_zone_id = 0 \<or> um_contains (sv_zones s) current_zone_id)
                  \<and> um_contains (sv_zones s) next_zone_id
         then (case (if current_zone_id \<noteq> 0
                     then on_zone current_zone_id (zone_remove_client_deferred c) s else Inr s) of
                 Inl ex \<Rightarrow> Some (Inl ex)
               | Inr s \<Rightarrow>
                   (case on_zone next_zone_id (zone_add_client_deferred c) s of
                      Inl ex \<Rightarrow> Some (Inl ex)
                    | Inr s \<Rightarrow> map_option Inr (sv_send c (Out_PlayerEnterZoneResponse next_zone_id)
                        (s\<lparr>sv_current_zone := um_assign i next_zone_id (sv_current_zone s)\<rparr>))))
         else map_option Inr (sv_stop_client c s)
       }
   }"

text \<open>The default branch: a packet for the zone of the client.\<close>

definition route_packet :: "addr \<Rightarrow> in_packet \<Rightarrow> server \<Rightarrow> server result option" where
  "route_packet c p s =
     (case sv_store s c of
        None \<Rightarrow> None
      | Some cl \<Rightarrow>
          if \<not> is_authenticated cl then map_option Inr (sv_stop_client c s)
          else if \<not> um_contains (sv_clients s) (client_id cl) then Some (Inr s)
          else case um_at (sv_current_zone s) (client_id cl) of
            Inl ex \<Rightarrow> Some (Inl ex)
          | Inr zid \<Rightarrow> Some (on_zone zid (handle_packet_deferred c p) s))"

definition server_handle_packet ::
  "(string \<Rightarrow> string \<Rightarrow> bool) \<Rightarrow> addr \<Rightarrow> in_packet \<Rightarrow> server \<Rightarrow> server result option" where
  "server_handle_packet token_ok c p s =
     (case p of
        In_ClientJoinRequest req \<Rightarrow> Option.bind req (\<lambda>req. map_option Inr (join_request_start token_ok c req s))
      | In_PlayerEnterZoneRequest req \<Rightarrow> Option.bind req (\<lambda>location. handle_player_enter_zone_request c location s)
      | In_HeartBeat \<Rightarrow> Some (Inr s)
      | In_Ping timestamp \<Rightarrow> Option.bind timestamp (\<lambda>t. map_option Inr (sv_send c (Out_Ping t) s))
      | _ \<Rightarrow> route_packet c p s)"

section \<open>The strand\<close>

text \<open>The coroutine of a packet is detached: its exception is dropped.\<close>

definition detached :: "server \<Rightarrow> server result option \<Rightarrow> server result option" where
  "detached s r = map_option (\<lambda>res. case res of Inl _ \<Rightarrow> Inr s | Inr s' \<Rightarrow> Inr s') r"

definition server_exec ::
  "(string \<Rightarrow> string \<Rightarrow> bool) \<Rightarrow> int \<Rightarrow> server_job \<Rightarrow> server \<Rightarrow> server result option" where
  "server_exec token_ok now j s =
     (case j of
        Sj_add c \<Rightarrow> server_add_client c now s
      | Sj_remove c \<Rightarrow> server_remove_client c s
      | Sj_packet c p \<Rightarrow> detached s (server_handle_packet token_ok c p s)
      | Sj_cleanup \<Rightarrow> map_option Inr (server_cleanup s))"

definition server_step :: "(string \<Rightarrow> string \<Rightarrow> bool) \<Rightarrow> int \<Rightarrow> server \<Rightarrow> server result option" where
  "server_step token_ok now s =
     (case sv_strand s of [] \<Rightarrow> None | j # js \<Rightarrow> server_exec token_ok now j (s\<lparr>sv_strand := js\<rparr>))"

text \<open>A zone's strand runs its first job.\<close>

definition server_zone_step :: "glm \<Rightarrow> tick_inputs \<Rightarrow> u32 \<Rightarrow> server \<Rightarrow> server result option" where
  "server_zone_step gl ti zid s =
     (case um_find (sv_zones s) zid of
        None \<Rightarrow> None
      | Some z \<Rightarrow>
          map_option (map_sum id (\<lambda>(z', h', cs').
              s\<lparr>sv_zones := um_assign zid z' (sv_zones s), sv_store := cs',
                 sv_world := (sv_world s)\<lparr>wd_heap := h'\<rparr>\<rparr>))
            (zone_step gl ti (z, wd_heap (sv_world s), sv_store s)))"

text \<open>The coroutine of the delayed transition with the timer \<open>t\<close>, of the machine of the entity at \<open>a\<close>,
  starts to wait, its timer expires, or it resumes.\<close>

datatype wait_event = Wait_begin nat | Wait_expire nat int | Wait_resume nat

definition machine_event :: "wait_event \<Rightarrow> unit state_machine \<Rightarrow> unit state_machine option" where
  "machine_event ev sm =
     (case ev of
        Wait_begin t \<Rightarrow> sm_begin_wait t sm
      | Wait_expire t now \<Rightarrow> sm_expire t now sm
      | Wait_resume t \<Rightarrow> map_option fst (sm_resume t sm ()))"

definition server_machine_step :: "wait_event \<Rightarrow> addr \<Rightarrow> server \<Rightarrow> server option" where
  "server_machine_step ev a s = do {
     e \<leftarrow> entity_at (wd_heap (sv_world s)) a;
     sm \<leftarrow> machine_event ev (state_machine e);
     h \<leftarrow> set_machine a sm (wd_heap (sv_world s));
     Some (s\<lparr>sv_world := (sv_world s)\<lparr>wd_heap := h\<rparr>\<rparr>)
   }"

end
