(* ===== verification/Server_Steps.thy ===== *)
theory Server_Steps
  imports Server
begin

text \<open>
  What each handler of the server does when it returns, as elimination rules: the proofs about the server
  go through these cases and never unfold a handler.
\<close>

section \<open>What the handlers do\<close>

lemma on_zone_Inr:
  "on_zone zid f s = Inr s' \<longleftrightarrow> (\<exists>z. um_find (sv_zones s) zid = Some z
     \<and> s' = s\<lparr>sv_zones := um_assign zid (f z) (sv_zones s)\<rparr>)"
  by (auto simp: on_zone_def um_at_def split: option.splits)

lemma deferred_posts:
  "zone_remove_client_deferred c = zone_post (Job_remove c)"
  "zone_add_client_deferred c = zone_post (Job_add c)"
  "handle_packet_deferred c p = zone_post (Job_packet c p)"
  by (simp_all add: fun_eq_iff zone_remove_client_deferred_def zone_add_client_deferred_def handle_packet_deferred_def)

lemma detached_Inr:
  "detached s r = Some (Inr s') \<Longrightarrow> s' = s \<or> r = Some (Inr s')"
  by (cases r) (auto simp: detached_def split: sum.split_asm)

lemma add_client_cases:
  assumes "server_add_client c now s = Some (Inr s')"
  obtains cl t d x where "sv_store s c = Some cl"
    "t = s\<lparr>sv_clients := um_insert (client_id cl) c (sv_clients s),
            sv_current_zone := um_insert (client_id cl) 0 (sv_current_zone s)\<rparr>"
    "sv_store t d = Some x" "s' = sv_set_client d (client_start now x) t"
proof -
  obtain cl where cl: "sv_store s c = Some cl" using assms by (auto simp: server_add_client_def split: option.splits)
  then show thesis using assms that by (auto simp: server_add_client_def Let_def split: sum.splits)
qed

lemma remove_client_cases:
  assumes "server_remove_client c s = Some (Inr s')"
  obtains s1 cl zid s2 where "sv_stop_client c s = Some s1" "sv_store s1 c = Some cl"
    "um_find (sv_current_zone s1) (client_id cl) = Some zid"
    "if um_contains (sv_zones s1) zid then on_zone zid (zone_post (Job_remove c)) s1 = Inr s2 else s2 = s1"
    "s' = s2\<lparr>sv_clients := um_erase (client_id cl) (sv_clients s2),
               sv_current_zone := um_erase (client_id cl) (sv_current_zone s2)\<rparr>"
proof -
  obtain s1 where stop: "sv_stop_client c s = Some s1"
    using assms by (auto simp: server_remove_client_def bind_eq_Some_conv)
  then obtain cl where cl: "sv_store s1 c = Some cl"
    using assms by (auto simp: server_remove_client_def bind_eq_Some_conv)
  then obtain zid where zid: "um_find (sv_current_zone s1) (client_id cl) = Some zid"
    using assms stop by (auto simp: server_remove_client_def Let_def um_at_def split: option.splits)
  then obtain s2 where
    "(if um_contains (sv_zones s1) zid then on_zone zid (zone_remove_client_deferred c) s1 else Inr s1) = Inr s2"
    "s' = s2\<lparr>sv_clients := um_erase (client_id cl) (sv_clients s2),
               sv_current_zone := um_erase (client_id cl) (sv_current_zone s2)\<rparr>"
    using assms stop cl by (auto simp: server_remove_client_def Let_def um_at_def split: sum.splits)
  then show thesis using that stop cl zid by (auto simp: deferred_posts split: if_splits)
qed

lemma cleanup_cases:
  assumes "server_cleanup s = Some s'"
  obtains s1 where "fold_opt sv_stop_client (um_values (sv_clients s)) s = Some s1"
    "s' = s1\<lparr>sv_zones := [], sv_freed := sv_freed s1 @ map zone_stop (um_values (sv_zones s1))\<rparr>"
  using assms by (auto simp: server_cleanup_def)

lemma enter_zone_cases:
  assumes "handle_player_enter_zone_request c location s = Some (Inr s')"
  obtains (same) "s' = s" | (stopped) "sv_stop_client c s = Some s'"
    | (moved) cl cur nxt s1 s2 where "sv_store s c = Some cl"
        "um_find (sv_current_zone s) (client_id cl) = Some cur" "cur \<noteq> nxt"
        "if cur \<noteq> 0 then on_zone cur (zone_post (Job_remove c)) s = Inr s1 else s1 = s"
        "on_zone nxt (zone_post (Job_add c)) s1 = Inr s2"
        "sv_send c (Out_PlayerEnterZoneResponse nxt)
           (s2\<lparr>sv_current_zone := um_assign (client_id cl) nxt (sv_current_zone s2)\<rparr>) = Some s'"
proof -
  obtain cl where cl: "sv_store s c = Some cl"
    using assms by (auto simp: handle_player_enter_zone_request_def bind_eq_Some_conv)
  obtain cur where cur: "um_find (sv_current_zone s) (client_id cl) = Some cur"
    using assms cl by (auto simp: handle_player_enter_zone_request_def Let_def um_at_def split: option.splits)
  obtain nxt where nxt: "location = Some nxt"
    using assms cl cur by (auto simp: handle_player_enter_zone_request_def Let_def um_at_def bind_eq_Some_conv)
  consider "s' = s" | "sv_stop_client c s = Some s'"
    | s1 s2 where "cur \<noteq> nxt" "(if cur \<noteq> 0 then on_zone cur (zone_remove_client_deferred c) s else Inr s) = Inr s1"
        "on_zone nxt (zone_add_client_deferred c) s1 = Inr s2"
        "sv_send c (Out_PlayerEnterZoneResponse nxt)
           (s2\<lparr>sv_current_zone := um_assign (client_id cl) nxt (sv_current_zone s2)\<rparr>) = Some s'"
    using assms cl cur nxt
    by (auto simp: handle_player_enter_zone_request_def Let_def um_at_def split: if_splits sum.splits)
  then show thesis
    using same stopped moved[OF cl cur] by cases (auto simp: deferred_posts split: if_splits)
qed

lemma join_start_cases:
  assumes "join_request_start token_ok c req s = Some s'"
  obtains (stopped) "sv_stop_client c s = Some s'"
    | (verified) cl n username token where "sv_store s c = Some cl"
        "s' = (sv_set_client c (cl\<lparr>is_authenticated := True\<rparr>) s)\<lparr>sv_joins := sv_joins s @ [(c, n)]\<rparr>"
        "jr_username req = Some username" "jr_character_name req = Some n" "jr_token req = Some token"
        "token_ok token username"
  using assms by (auto simp: join_request_start_def split: option.splits if_splits)

lemma join_finish_cases:
  assumes "join_request_finish shape_size db c s = Some s'"
  obtains (same) "s' = s" | (stopped) "sv_stop_client c s = Some s'"
    | (threw) w ex where "s' = s\<lparr>sv_world := w\<rparr>"
        "player_load shape_size (jd_character db) (sv_world s) = Some (Inl ex, w)"
    | (loaded) w player cl where "sv_store s c = Some cl"
        "sv_stop_client c (sv_set_client c (cl\<lparr>cl_player := player\<rparr>) (s\<lparr>sv_world := w\<rparr>)) = Some s'
         \<or> (\<exists>p. sv_send c p (sv_set_client c (cl\<lparr>cl_player := player\<rparr>) (s\<lparr>sv_world := w\<rparr>)) = Some s')"
        "player_load shape_size (jd_character db) (sv_world s) = Some (Inr player, w)"
proof (cases "jd_prepare_ok db \<and> (\<exists>r rs. jd_rows db = Some (r # rs))")
  case False
  then have "s' = s \<or> sv_stop_client c s = Some s'"
    using assms by (auto simp: join_request_finish_def split: if_splits option.splits list.splits)
  then show thesis using same stopped by blast
next
  case True
  then obtain res w cl where res: "player_load shape_size (jd_character db) (sv_world s) = Some (res, w)"
    and cl: "sv_store s c = Some cl"
    using assms by (auto simp: join_request_finish_def bind_eq_Some_conv)
  show thesis
  proof (cases res)
    case (Inl ex)
    then show thesis using threw[of w ex] assms True res cl by (auto simp: join_request_finish_def)
  next
    case (Inr player)
    let ?t = "sv_set_client c (cl\<lparr>cl_player := player\<rparr>) (s\<lparr>sv_world := w\<rparr>)"
    have "sv_stop_client c ?t = Some s' \<or> (\<exists>p. sv_send c p ?t = Some s')"
      using assms True res cl Inr
      by (auto simp: join_request_finish_def bind_eq_Some_conv Let_def split: option.splits)
    then show thesis using loaded[OF cl] res Inr by blast
  qed
qed

lemma packet_cases:
  assumes "server_handle_packet token_ok c p s = Some (Inr s')"
  obtains (same) "s' = s" | (stopped) "sv_stop_client c s = Some s'"
    | (sent) q where "sv_send c q s = Some s'"
    | (join) req where "p = In_ClientJoinRequest (Some req)" "join_request_start token_ok c req s = Some s'"
    | (enter) location where "handle_player_enter_zone_request c location s = Some (Inr s')"
    | (routed) cl zid where "sv_store s c = Some cl" "is_authenticated cl"
        "on_zone zid (zone_post (Job_packet c p)) s = Inr s'"
proof -
  have route: thesis if r: "route_packet c p s = Some (Inr s')"
  proof -
    obtain cl where cl: "sv_store s c = Some cl" using r by (auto simp: route_packet_def split: option.splits)
    then show thesis
      using r same stopped routed[OF cl] by (auto simp: route_packet_def deferred_posts um_at_def split: if_splits option.splits)
  qed
  show thesis
  proof (cases p)
    case (In_ClientJoinRequest r)
    then show thesis using assms join by (auto simp: server_handle_packet_def bind_eq_Some_conv)
  next
    case (In_PlayerEnterZoneRequest r)
    then show thesis using assms enter by (auto simp: server_handle_packet_def bind_eq_Some_conv)
  next
    case (In_Ping r)
    then show thesis using assms sent by (auto simp: server_handle_packet_def bind_eq_Some_conv)
  qed (use assms same route in \<open>auto simp: server_handle_packet_def\<close>)
qed

lemma packet_received_cases:
  assumes "packet_received c bytes p now s = Some s'"
  obtains cl t where "sv_store s c = Some cl"
    "t = (sv_set_client c (client_packet_received now cl) s)\<lparr>sv_profiler := add_packet now now bytes (sv_profiler s)\<rparr>"
    "(case p of None \<Rightarrow> sv_stop_client c t = Some s' | Some q \<Rightarrow> s' = sv_post (Sj_packet c q) t)"
  using assms by (auto simp: packet_received_def Let_def sv_set_client_def split: option.splits)

lemma accept_cases:
  assumes "accept_round outcome s = Some s'" "outcome \<noteq> Accepted False"
  obtains s1 where "s1 = s \<or> s1 = add_client_deferred True s" "s' = s1 \<or> s' = s1\<lparr>sv_accepting := False\<rparr>"
  using assms by (auto simp: accept_round_def Let_def split: if_splits accept_outcome.splits)

lemma machine_step_cases:
  assumes "server_machine_step ev a s = Some s'"
  obtains e sm where "entity_at (wd_heap (sv_world s)) a = Some e" "machine_event ev (state_machine e) = Some sm"
    "s' = s\<lparr>sv_world := (sv_world s)\<lparr>wd_heap := set_entity a (e\<lparr>state_machine := sm\<rparr>) (wd_heap (sv_world s))\<rparr>\<rparr>"
  using assms by (auto simp: server_machine_step_def set_machine_def bind_eq_Some_conv)

end
