(* ===== verification/Server_Correct.thy ===== *)
theory Server_Correct
  imports Server_Steps Client_Views
begin

text \<open>
  What the server guarantees in every state it can reach: the two tables of the clients have the same keys,
  every client is in no zone or in a zone that exists, and no packet of a client whose token was not
  verified reaches a zone. And what goes wrong: entering a zone without having joined, and stopping the
  server while a zone is running.
\<close>

definition ident :: "clients \<Rightarrow> addr \<Rightarrow> (u32 \<times> bool) option" where
  "ident = views credentials"

lemma ident_apply: "ident cs c = map_option (\<lambda>cl. (client_id cl, is_authenticated cl)) (cs c)"
  by (cases "cs c") (simp_all add: ident_def views_def credentials_def)

section \<open>The invariant of the server\<close>

definition authenticated :: "server \<Rightarrow> addr \<Rightarrow> bool" where
  "authenticated s c \<longleftrightarrow> (\<exists>i. ident (sv_store s) c = Some (i, True))"

text \<open>\<open>V\<close>: the clients whose token was verified.\<close>

definition tables_inv ::
  "(u32, addr) umap \<Rightarrow> (u32, u32) umap \<Rightarrow> (u32, zone) umap \<Rightarrow> (addr \<Rightarrow> (u32 \<times> bool) option) \<Rightarrow> addr \<Rightarrow> addr set \<Rightarrow> bool" where
  "tables_inv cls cur zs idn nxt V \<longleftrightarrow>
     um2.agree cls cur \<and> um_ok zs
     \<and> (\<forall>i zid. um_find cur i = Some zid \<longrightarrow> zid = 0 \<or> um_contains zs zid \<or> zs = [])
     \<and> (\<forall>i c. um_find cls i = Some c \<longrightarrow> map_option fst (idn c) = Some i)
     \<and> (\<forall>zid z c p. um_find zs zid = Some z \<longrightarrow> Job_packet c p \<in> set (zn_strand z) \<longrightarrow> (\<exists>i. idn c = Some (i, True)))
     \<and> (\<forall>c. (\<exists>i. idn c = Some (i, True)) \<longrightarrow> c \<in> V)
     \<and> (\<forall>c. idn c \<noteq> None \<longrightarrow> c < nxt)
     \<and> (\<forall>zid z. um_find zs zid = Some z \<longrightarrow> zone_inv z)"

definition server_inv :: "server \<Rightarrow> addr set \<Rightarrow> bool" where
  "server_inv s V \<longleftrightarrow>
     tables_inv (sv_clients s) (sv_current_zone s) (sv_zones s) (ident (sv_store s)) (sv_next_addr s) V"

lemma server_inv_iff:
  "server_inv s V \<longleftrightarrow>
     um2.agree (sv_clients s) (sv_current_zone s) \<and> um_ok (sv_zones s)
     \<and> (\<forall>i zid. um_find (sv_current_zone s) i = Some zid \<longrightarrow> zid = 0 \<or> um_contains (sv_zones s) zid \<or> sv_zones s = [])
     \<and> (\<forall>i c. um_find (sv_clients s) i = Some c \<longrightarrow> map_option fst (ident (sv_store s) c) = Some i)
     \<and> (\<forall>zid z c p. um_find (sv_zones s) zid = Some z \<longrightarrow> Job_packet c p \<in> set (zn_strand z) \<longrightarrow> authenticated s c)
     \<and> (\<forall>c. authenticated s c \<longrightarrow> c \<in> V)
     \<and> (\<forall>c. ident (sv_store s) c \<noteq> None \<longrightarrow> c < sv_next_addr s)
     \<and> (\<forall>zid z. um_find (sv_zones s) zid = Some z \<longrightarrow> zone_inv z)"
  by (simp add: server_inv_def tables_inv_def authenticated_def)

lemma tables_inv_zone:
  assumes inv: "tables_inv cls cur zs idn nxt V" and z: "um_find zs zid = Some z" and zi: "zone_inv z'"
    and jobs: "\<And>c p. Job_packet c p \<in> set (zn_strand z') \<Longrightarrow> Job_packet c p \<in> set (zn_strand z) \<or> (\<exists>i. idn c = Some (i, True))"
  shows "tables_inv cls cur (um_assign zid z' zs) idn nxt V"
proof -
  have old: "\<exists>i. idn c = Some (i, True)" if "um_find zs k = Some y" "Job_packet c p \<in> set (zn_strand y)" for k y c p
    using inv that unfolding tables_inv_def by blast
  have new: "\<exists>i. idn c = Some (i, True)"
    if "um_find (um_assign zid z' zs) k = Some y" "Job_packet c p \<in> set (zn_strand y)" for k y c p
  proof (cases "k = zid")
    case True
    then have "Job_packet c p \<in> set (zn_strand z')" using that by simp
    then show ?thesis using jobs old[OF z] by blast
  next
    case False
    then show ?thesis using that old[of k y c p] by simp
  qed
  have sub: "um_contains (um_assign zid z' zs) i" if "um_contains zs i" for i
    using that by (simp add: um_contains_def)
  have "zs \<noteq> []" using z by auto
  then have "\<forall>i k. um_find cur i = Some k \<longrightarrow> k = 0 \<or> um_contains (um_assign zid z' zs) k \<or> um_assign zid z' zs = []"
    using inv sub unfolding tables_inv_def by blast
  moreover have "um_ok (um_assign zid z' zs)" using inv by (simp add: tables_inv_def)
  moreover have "\<forall>k y. um_find (um_assign zid z' zs) k = Some y \<longrightarrow> zone_inv y"
    using inv zi unfolding tables_inv_def by auto
  ultimately show ?thesis
    using inv new unfolding tables_inv_def by blast
qed

text \<open>Two states with the same tables.\<close>

definition same_tables :: "server \<Rightarrow> server \<Rightarrow> bool" where
  "same_tables s s' \<longleftrightarrow> sv_clients s' = sv_clients s \<and> sv_current_zone s' = sv_current_zone s
     \<and> sv_zones s' = sv_zones s \<and> ident (sv_store s') = ident (sv_store s) \<and> sv_next_addr s' = sv_next_addr s"

named_theorems same_tables_intros

lemma same_tables_refl [simp]: "same_tables s s"
  by (simp add: same_tables_def)

lemma same_tables_trans: "same_tables s s' \<Longrightarrow> same_tables s' s'' \<Longrightarrow> same_tables s s''"
  by (simp add: same_tables_def)

lemma server_inv_same: "server_inv s V \<Longrightarrow> same_tables s s' \<Longrightarrow> server_inv s' V"
  by (simp add: server_inv_iff same_tables_def authenticated_def)

lemma same_tables_post [simp]: "same_tables s (sv_post j s)"
  by (simp add: same_tables_def sv_post_def)

lemma ident_upd: "map_option (\<lambda>cl. (client_id cl, is_authenticated cl)) (cs c) = Some (client_id cl', is_authenticated cl')
    \<Longrightarrow> ident (cs(c \<mapsto> cl')) = ident cs"
  by (auto simp: ident_apply intro!: ext)

lemma same_tables_set_client:
  "sv_store s c = Some cl \<Longrightarrow> client_id cl' = client_id cl \<Longrightarrow> is_authenticated cl' = is_authenticated cl
     \<Longrightarrow> same_tables s (sv_set_client c cl' s)"
  by (simp add: same_tables_def sv_set_client_def ident_upd)

lemma same_tables_events [simp]: "same_tables s (sv_client_events c evs s)"
proof -
  have "same_tables s (fold (\<lambda>ev s. case ev of Disconnected \<Rightarrow> remove_client_deferred c s | _ \<Rightarrow> s) evs s)"
    by (rule fold_invariant[where P = "same_tables s"])
      (auto simp: remove_client_deferred_def intro: same_tables_trans split: conn_event.split)
  then show ?thesis by (simp add: sv_client_events_def)
qed

lemma client_stop_ident:
  assumes "client_stop cl = (cl', evs)"
  shows "client_id cl' = client_id cl" "is_authenticated cl' = is_authenticated cl"
  using assms by (auto simp: client_stop_def split: if_splits prod.splits)

lemma same_tables_stop_client [same_tables_intros]:
  assumes "sv_stop_client c s = Some s'"
  shows "same_tables s s'"
proof -
  obtain cl where cl: "sv_store s c = Some cl" using assms by (auto simp: sv_stop_client_def)
  moreover obtain cl' evs where "client_stop cl = (cl', evs)" by fastforce
  ultimately have "sv_store s c = Some cl" "client_stop cl = (cl', evs)"
    "s' = sv_client_events c evs (sv_set_client c cl' s)"
    using assms by (auto simp: sv_stop_client_def)
  then show ?thesis
    using same_tables_trans[OF same_tables_set_client same_tables_events] client_stop_ident by blast
qed

lemma same_tables_send [same_tables_intros]: "sv_send c p s = Some s' \<Longrightarrow> same_tables s s'"
  by (auto simp: sv_send_def same_tables_def ident_def dest: cred.views_send_to)

lemma same_tables_packet_received:
  assumes "packet_received c bytes p now s = Some s'"
  shows "same_tables s s'"
  using assms
proof (cases rule: packet_received_cases)
  case (1 cl t)
  have "same_tables s (sv_set_client c (client_packet_received now cl) s)"
    using same_tables_set_client[OF 1(1)] by (simp add: client_packet_received_def)
  then have t: "same_tables s t" by (simp add: 1(2) same_tables_def)
  show ?thesis
    using 1(3) same_tables_trans[OF t] same_tables_stop_client same_tables_post by (auto split: option.splits)
qed

lemma same_tables_join_finish:
  assumes "join_request_finish shape_size db c s = Some s'"
  shows "same_tables s s'"
  using assms
proof (cases rule: join_finish_cases)
  case (loaded w player cl)
  have "same_tables s (sv_set_client c (cl\<lparr>cl_player := player\<rparr>) (s\<lparr>sv_world := w\<rparr>))"
    using loaded(1) by (simp add: same_tables_def sv_set_client_def ident_upd)
  then show ?thesis using loaded(2) same_tables_trans same_tables_stop_client same_tables_send by blast
qed (auto simp: same_tables_def dest: same_tables_stop_client)

section \<open>Every handler keeps it\<close>

lemma server_inv_zone:
  assumes "server_inv s V" "um_find (sv_zones s) zid = Some z" "zone_inv z'"
    and "\<And>c p. Job_packet c p \<in> set (zn_strand z') \<Longrightarrow> Job_packet c p \<in> set (zn_strand z) \<or> authenticated s c"
  shows "server_inv (s\<lparr>sv_zones := um_assign zid z' (sv_zones s)\<rparr>) V"
  using tables_inv_zone assms by (simp add: server_inv_def authenticated_def)

lemma server_inv_on_zone_post:
  assumes "server_inv s V" "on_zone zid (zone_post j) s = Inr s'"
    and "\<And>c p. j = Job_packet c p \<Longrightarrow> authenticated s c"
  shows "server_inv s' V"
proof -
  obtain z where z: "um_find (sv_zones s) zid = Some z"
    and s': "s' = s\<lparr>sv_zones := um_assign zid (zone_post j z) (sv_zones s)\<rparr>"
    using assms(2) by (auto simp: on_zone_Inr)
  have "zone_inv z" using assms(1) z unfolding server_inv_iff by blast
  then show ?thesis
    unfolding s' using assms(3) by (intro server_inv_zone[OF assms(1) z zone_inv_post]) auto
qed

lemma server_inv_add_client_deferred:
  assumes "server_inv s V"
  shows "server_inv (add_client_deferred b s) V"
proof -
  let ?c = "sv_next_addr s"
  have fresh: "ident (sv_store s) ?c = None"
    using assms unfolding server_inv_iff by (metis less_irrefl)
  have i: "ident ((sv_store s)(?c \<mapsto> client_new j b)) = (ident (sv_store s))(?c \<mapsto> (j, False))" for j
    by (auto simp: ident_apply client_new_def intro!: ext)
  have old: "um_find (sv_clients s) k = Some a \<Longrightarrow> a \<noteq> ?c"
    "um_find (sv_zones s) zid = Some z \<Longrightarrow> Job_packet a p \<in> set (zn_strand z) \<Longrightarrow> a \<noteq> ?c" for k a zid z p
    using assms fresh unfolding server_inv_iff authenticated_def by fastforce+
  show ?thesis
    using assms unfolding server_inv_iff add_client_deferred_def authenticated_def
    by (auto simp: Let_def sv_post_def i less_Suc_eq dest: old)
qed

lemma server_inv_add_client:
  assumes "server_inv s V" "server_add_client c now s = Some (Inr s')"
  shows "server_inv s' V"
  using assms(2)
proof (cases rule: add_client_cases)
  case (1 cl t d x)
  let ?i = "client_id cl"
  have agree: "um2.agree (sv_clients s) (sv_current_zone s)" using assms(1) by (simp add: server_inv_iff)
  then have both: "um_contains (sv_clients s) ?i \<longleftrightarrow> um_contains (sv_current_zone s) ?i"
    by (auto simp: um2.agree_def um.keys_def um_contains_def)
  have "um2.agree (sv_clients t) (sv_current_zone t)"
    using agree both um2.agree_assign[OF agree] by (simp add: um_insert_def 1(2))
  then have inv: "server_inv t V"
    using assms(1) 1(1) unfolding server_inv_iff authenticated_def 1(2)
    by (auto simp: um_find_insert ident_apply split: if_splits)
  have "same_tables t s'"
    using same_tables_set_client[OF 1(3)] by (simp add: 1(4) client_start_def)
  then show ?thesis using server_inv_same[OF inv] by blast
qed

lemma server_inv_remove_client:
  assumes "server_inv s V" "server_remove_client c s = Some (Inr s')"
  shows "server_inv s' V"
  using assms(2)
proof (cases rule: remove_client_cases)
  case (1 s1 cl zid s2)
  have inv1: "server_inv s1 V" using server_inv_same[OF assms(1)] same_tables_stop_client[OF 1(1)] by blast
  have inv2: "server_inv s2 V"
    using 1(4) server_inv_on_zone_post[OF inv1, of zid "Job_remove c" s2] inv1 by (auto split: if_splits)
  then have "um2.agree (um_erase (client_id cl) (sv_clients s2)) (um_erase (client_id cl) (sv_current_zone s2))"
    unfolding server_inv_iff by (blast intro: um2.agree_erase)
  then show ?thesis
    using inv2 unfolding 1(5) server_inv_iff authenticated_def by (auto split: if_splits)
qed

lemma server_inv_cleanup:
  assumes "server_inv s V" "server_cleanup s = Some s'"
  shows "server_inv s' V"
  using assms(2)
proof (cases rule: cleanup_cases)
  case (1 s1)
  have "server_inv s1 V"
    by (rule fold_opt_invariant[OF 1(1)]) (use assms(1) same_tables_stop_client server_inv_same in blast)+
  then show ?thesis unfolding 1(2) server_inv_iff authenticated_def by auto
qed

text \<open>The job that authenticates a client: its join request names a user, a character and a token that the
  verifier accepts for the user.\<close>

definition join_verified :: "(string \<Rightarrow> string \<Rightarrow> bool) \<Rightarrow> server_job \<Rightarrow> addr \<Rightarrow> bool" where
  "join_verified token_ok j c \<longleftrightarrow>
     (\<exists>req username character_name token. j = Sj_packet c (In_ClientJoinRequest (Some req))
        \<and> jr_username req = Some username \<and> jr_character_name req = Some character_name
        \<and> jr_token req = Some token \<and> token_ok token username)"

lemma server_inv_mono: "server_inv s V \<Longrightarrow> V \<subseteq> W \<Longrightarrow> server_inv s W"
  unfolding server_inv_iff by blast

lemma server_inv_join_start:
  assumes "server_inv s V" "join_request_start token_ok c req s = Some s'"
  shows "server_inv s' (V \<union> {a. join_verified token_ok (Sj_packet c (In_ClientJoinRequest (Some req))) a})"
    (is "server_inv s' ?V")
  using assms(2)
proof (cases rule: join_start_cases)
  case stopped
  then show ?thesis
    using server_inv_mono[OF server_inv_same[OF assms(1) same_tables_stop_client]] by blast
next
  case (verified cl n username token)
  then have v: "join_verified token_ok (Sj_packet c (In_ClientJoinRequest (Some req))) c"
    by (simp add: join_verified_def)
  have i: "ident (sv_store s') = (ident (sv_store s))(c \<mapsto> (client_id cl, True))"
    by (auto simp: verified(2) sv_set_client_def ident_apply intro!: ext)
  have tabs: "sv_clients s' = sv_clients s" "sv_current_zone s' = sv_current_zone s" "sv_zones s' = sv_zones s"
    "sv_next_addr s' = sv_next_addr s"
    by (simp_all add: verified(2) sv_set_client_def)
  have old: "ident (sv_store s) c = Some (client_id cl, is_authenticated cl)"
    using verified(1) by (simp add: ident_apply)
  have auth: "authenticated s' a \<longleftrightarrow> a = c \<or> authenticated s a" for a by (auto simp: authenticated_def i)
  have fst: "map_option fst (ident (sv_store s') a) = map_option fst (ident (sv_store s) a)" for a
    using old by (simp add: i)
  have live: "ident (sv_store s') a \<noteq> None \<longleftrightarrow> ident (sv_store s) a \<noteq> None" for a using old by (auto simp: i)
  show ?thesis
    using assms(1) v unfolding server_inv_iff tabs auth fst live by blast
qed

lemma server_inv_enter_zone:
  assumes "server_inv s V" "handle_player_enter_zone_request c location s = Some (Inr s')"
  shows "server_inv s' V"
  using assms(2)
proof (cases rule: enter_zone_cases)
  case (moved cl cur nxt s1 s2)
  let ?i = "client_id cl" and ?s = "s2\<lparr>sv_current_zone := um_assign (client_id cl) nxt (sv_current_zone s2)\<rparr>"
  have inv1: "server_inv s1 V"
    using moved(4) assms(1) server_inv_on_zone_post[OF assms(1), of cur "Job_remove c" s1] by (auto split: if_splits)
  have inv2: "server_inv s2 V" using moved(5) server_inv_on_zone_post[OF inv1, of nxt "Job_add c" s2] by auto
  have tabs: "sv_current_zone s2 = sv_current_zone s" "um_contains (sv_zones s2) nxt"
    using moved(4,5) by (auto simp: on_zone_Inr um_contains_def split: if_splits)
  have agree: "um2.agree (sv_clients s2) (sv_current_zone s2)" using inv2 by (simp add: server_inv_iff)
  moreover have "um_find (sv_clients s2) ?i \<noteq> None"
    using agree moved(2) by (auto simp: um2.agree_def um.keys_def tabs)
  ultimately have "um2.agree (sv_clients ?s) (sv_current_zone ?s)"
    using um2.agree_overwrite by simp
  then have "server_inv ?s V"
    using inv2 tabs(2) unfolding server_inv_iff authenticated_def by auto
  then show ?thesis using server_inv_same same_tables_send[OF moved(6)] by blast
qed (use assms(1) server_inv_same same_tables_stop_client in auto)

lemma server_inv_handle_packet:
  assumes "server_inv s V" "server_handle_packet token_ok c p s = Some (Inr s')"
  shows "server_inv s' (V \<union> {a. join_verified token_ok (Sj_packet c p) a})"
  using assms(2)
proof (cases rule: packet_cases)
  case stopped
  then show ?thesis using server_inv_mono[OF server_inv_same[OF assms(1) same_tables_stop_client]] by blast
next
  case (sent q)
  then show ?thesis using server_inv_mono[OF server_inv_same[OF assms(1) same_tables_send]] by blast
next
  case (join req)
  then show ?thesis using server_inv_join_start[OF assms(1)] by simp
next
  case (enter location)
  then show ?thesis using server_inv_mono[OF server_inv_enter_zone[OF assms(1)]] by blast
next
  case (routed cl zid)
  then have "authenticated s c" by (simp add: authenticated_def ident_apply)
  then have "server_inv s' V" using server_inv_on_zone_post[OF assms(1) routed(3)] by auto
  then show ?thesis using server_inv_mono by blast
qed (use assms(1) server_inv_mono in blast)

section \<open>All runs of the server\<close>

text \<open>What a client may do of its own (its reader, its sender, its heart beat): it keeps its id, its player and
  its authentication, and it reports that it is disconnected exactly when it goes from connected to not
  connected.\<close>

definition client_may :: "client \<Rightarrow> conn_event list \<Rightarrow> client \<Rightarrow> bool" where
  "client_may cl evs cl' \<longleftrightarrow> client_id cl' = client_id cl \<and> is_authenticated cl' = is_authenticated cl
     \<and> cl_player cl' = cl_player cl
     \<and> (Disconnected \<notin> set evs \<and> linked cl' = linked cl \<or> evs = [Disconnected] \<and> linked cl \<and> \<not> linked cl')"

lemma client_may_stop: "client_stop cl = (cl', evs) \<Longrightarrow> client_may cl evs cl'"
  by (auto simp: client_stop_def client_may_def disconnect_def linked_def split: if_splits prod.splits)

lemma client_may_send: "client_may cl [] (client_send p cl)"
  by (auto simp: client_may_def client_send_def linked_def send_packet_def)

lemma client_may_connection:
  assumes "conn_exec bl act (cl_connection cl) = Some (conn, evs)" "reader_ok (cl_connection cl)"
  shows "client_may cl evs (cl\<lparr>cl_connection := conn\<rparr>)"
  using step_ok_exec[OF assms(2,1)] by (auto simp: client_may_def step_ok_def linked_def)

lemma client_may_timeout:
  assumes "client_timeout now cl = (cl', evs)"
  shows "client_may cl evs cl'"
proof -
  let ?hb = "cl_heart_beater cl"
  let ?stop = "cl\<lparr>cl_heart_beater := ?hb\<lparr>hb_timer := timer_stop (hb_timer ?hb)\<rparr>\<rparr>"
  let ?beat = "cl\<lparr>cl_heart_beater := ?hb\<lparr>hb_dead_beats := hb_dead_beats ?hb + 1\<rparr>\<rparr>"
  have branches: "cl' = cl \<and> evs = [] \<or> client_stop ?stop = (cl', evs)
      \<or> cl' = client_send Out_HeartBeat ?beat \<and> evs = []"
  proof (cases "hb_on_beat ?hb")
    case on: True
    then have a: "on_beat now cl = (cl', evs)" using assms by (simp only: client_timeout_def if_True)
    show ?thesis
    proof (cases "hb_dead_beats ?hb \<ge> MAX_DEAD_BEATS")
      case True
      then have "client_stop ?stop = (cl', evs)" using a by (simp only: on_beat_def Let_def if_True)
      then show ?thesis by blast
    next
      case False
      then show ?thesis using a by (cases "now \<le> hb_last_beat ?hb + BEAT_INTERVAL") (auto simp: on_beat_def Let_def)
    qed
  qed (use assms in \<open>simp add: client_timeout_def\<close>)
  consider "cl' = cl" "evs = []" | "client_stop ?stop = (cl', evs)" | "cl' = client_send Out_HeartBeat ?beat" "evs = []"
    using branches by blast
  then show ?thesis
  proof cases
    case 2
    from client_may_stop[OF this] show ?thesis by (simp add: client_may_def linked_def)
  next
    case 3
    then show ?thesis using client_may_send[of ?beat Out_HeartBeat] by (simp add: client_may_def linked_def)
  qed (simp add: client_may_def)
qed

lemma client_may_timer_resume:
  assumes "client_timer_resume i now cl = Some (cl', evs)"
  shows "client_may cl evs cl'"
proof -
  obtain fires where f: "timer_fires i (hb_timer (cl_heart_beater cl)) = Some fires"
    using assms by (cases "timer_fires i (hb_timer (cl_heart_beater cl))") (simp_all add: client_timer_resume_def)
  obtain c1 evs1 where c1: "(if fires then client_timeout now cl else (cl, [])) = (c1, evs1)"
    by (rule prod.exhaust)
  then have may: "client_may cl evs1 c1"
    using client_may_timeout by (cases fires) (auto simp: client_may_def)
  obtain hb where "cl' = c1\<lparr>cl_heart_beater := hb\<rparr>" "evs = evs1"
    using assms unfolding client_timer_resume_def f option.case c1 Let_def prod.case by blast
  then show ?thesis using may by (simp add: client_may_def linked_def)
qed

text \<open>The states the server can reach, with the set of the clients whose token was verified. The acceptor
  delivers open sockets.\<close>

inductive server_reach ::
  "(string \<Rightarrow> string \<Rightarrow> bool) \<Rightarrow> vec3 \<Rightarrow> glm \<Rightarrow> server \<Rightarrow> addr set \<Rightarrow> bool" for token_ok shape_size gl where
  created: "server_init shape_size files (server_new empty_world) = Some (Inr s) \<Longrightarrow> server_reach token_ok shape_size gl s {}"
| started: "server_reach token_ok shape_size gl s V \<Longrightarrow> server_reach token_ok shape_size gl (server_start s) V"
| stopped: "server_reach token_ok shape_size gl s V \<Longrightarrow> server_reach token_ok shape_size gl (server_stop s) V"
| accepted: "server_reach token_ok shape_size gl s V \<Longrightarrow> accept_round outcome s = Some s' \<Longrightarrow> outcome \<noteq> Accepted False
    \<Longrightarrow> server_reach token_ok shape_size gl s' V"
| profiled: "server_reach token_ok shape_size gl s V \<Longrightarrow> profiler_round ec now s = Some s'
    \<Longrightarrow> server_reach token_ok shape_size gl s' V"
| received: "server_reach token_ok shape_size gl s V \<Longrightarrow> packet_received c bytes p now s = Some s'
    \<Longrightarrow> server_reach token_ok shape_size gl s' V"
| client: "server_reach token_ok shape_size gl s V \<Longrightarrow> sv_store s c = Some cl
    \<Longrightarrow> client_may cl evs cl'
    \<Longrightarrow> server_reach token_ok shape_size gl (sv_client_events c evs (sv_set_client c cl' s)) V"
| strand: "server_reach token_ok shape_size gl s V \<Longrightarrow> server_step token_ok now s = Some (Inr s')
    \<Longrightarrow> server_reach token_ok shape_size gl s' (V \<union> {a. join_verified token_ok (hd (sv_strand s)) a})"
| joined: "server_reach token_ok shape_size gl s V \<Longrightarrow> join_resume shape_size db i s = Some s'
    \<Longrightarrow> server_reach token_ok shape_size gl s' V"
| zone: "server_reach token_ok shape_size gl s V \<Longrightarrow> server_zone_step gl ti zid s = Some (Inr s')
    \<Longrightarrow> server_reach token_ok shape_size gl s' V"
| waited: "server_reach token_ok shape_size gl s V \<Longrightarrow> server_machine_step ev a s = Some s'
    \<Longrightarrow> server_reach token_ok shape_size gl s' V"

lemma server_init_tables:
  assumes "server_init shape_size files (server_new w) = Some (Inr s)"
  shows "sv_clients s = [] \<and> sv_current_zone s = [] \<and> um_ok (sv_zones s) \<and> sv_store s = Map.empty
    \<and> um_find (sv_zones s) 0 = None
    \<and> (\<forall>zid z. um_find (sv_zones s) zid = Some z \<longrightarrow> zn_strand z = [] \<and> zn_clients z = [] \<and> \<not> zn_running z)"
proof -
  let ?P = "\<lambda>s. sv_clients s = [] \<and> sv_current_zone s = [] \<and> um_ok (sv_zones s) \<and> sv_store s = Map.empty
    \<and> um_find (sv_zones s) 0 = None
    \<and> (\<forall>zid z. um_find (sv_zones s) zid = Some z \<longrightarrow> zn_strand z = [] \<and> zn_clients z = [] \<and> \<not> zn_running z)"
  obtain s1 where f: "fold_opt (init_zone files) [1, 2, 3, 4, 5, 6, 7, 8, 9, 10] (server_new w) = Some s1"
    using assms by (auto simp: server_init_def bind_eq_Some_conv)
  have P1: "?P s1"
  proof (rule fold_opt_invariant[OF f])
    show "?P (server_new w)" by (simp add: server_new_def)
  next
    fix zid :: u32 and s t assume "zid \<in> set [1, 2, 3, 4, 5, 6, 7, 8, 9, 10]" and P: "?P s"
      and i: "init_zone files zid s = Some t"
    then have "zid \<noteq> 0" by auto
    moreover from i obtain zo where "zone_create zid (files zid) = Some zo"
      "t = (case zo of None \<Rightarrow> s | Some z \<Rightarrow> s\<lparr>sv_zones := um_assign zid z (sv_zones s)\<rparr>)"
      by (auto simp: init_zone_def)
    ultimately show "?P t" using P zone_create_frame[of zid "files zid"] by (cases zo) auto
  qed
  obtain monster wd z sw where "um_find (sv_zones s1) 1 = Some z"
    "s = (s1\<lparr>sv_world := wd\<rparr>)\<lparr>sv_zones := um_assign 1 (z\<lparr>zn_subworld := sw\<rparr>) (sv_zones s1)\<rparr>"
    using assms f by (auto simp: server_init_def Let_def um_at_def bind_eq_Some_conv split: option.splits)
  then show ?thesis using P1 by auto
qed

lemma server_zone_step_cases:
  assumes "server_zone_step gl ti zid s = Some (Inr s')"
  obtains z z' h' cs' where "um_find (sv_zones s) zid = Some z"
    "zone_step gl ti (z, wd_heap (sv_world s), sv_store s) = Some (Inr (z', h', cs'))"
    "s' = s\<lparr>sv_zones := um_assign zid z' (sv_zones s), sv_store := cs', sv_world := (sv_world s)\<lparr>wd_heap := h'\<rparr>\<rparr>"
proof -
  obtain z where z: "um_find (sv_zones s) zid = Some z"
    using assms by (auto simp: server_zone_step_def split: option.splits)
  then obtain r where r: "zone_step gl ti (z, wd_heap (sv_world s), sv_store s) = Some (Inr r)"
    and s': "s' = (case r of (z', h', cs') \<Rightarrow> s\<lparr>sv_zones := um_assign zid z' (sv_zones s), sv_store := cs',
                 sv_world := (sv_world s)\<lparr>wd_heap := h'\<rparr>\<rparr>)"
    using assms by (auto simp: server_zone_step_def map_sum_Inr)
  then show thesis using that z by (cases r) auto
qed

lemma server_inv_exec:
  assumes "server_inv s V" "server_exec token_ok now j s = Some (Inr s')"
  shows "server_inv s' (V \<union> {a. join_verified token_ok j a})"
proof (cases j)
  case (Sj_packet c p)
  then have "s' = s \<or> server_handle_packet token_ok c p s = Some (Inr s')"
    using assms(2) detached_Inr by (simp add: server_exec_def)
  then show ?thesis using assms(1) server_inv_handle_packet[OF assms(1)] server_inv_mono Sj_packet by blast
next
  case (Sj_add c)
  then have "server_add_client c now s = Some (Inr s')" using assms(2) by (simp add: server_exec_def)
  then show ?thesis using server_inv_mono[OF server_inv_add_client[OF assms(1)]] by blast
next
  case (Sj_remove c)
  then have "server_remove_client c s = Some (Inr s')" using assms(2) by (simp add: server_exec_def)
  then show ?thesis using server_inv_mono[OF server_inv_remove_client[OF assms(1)]] by blast
next
  case Sj_cleanup
  then have "server_cleanup s = Some s'" using assms(2) by (simp add: server_exec_def)
  then show ?thesis using server_inv_mono[OF server_inv_cleanup[OF assms(1)]] by blast
qed

lemma server_reach_inv: "server_reach token_ok shape_size gl s V \<Longrightarrow> server_inv s V"
proof (induction rule: server_reach.induct)
  case (created files s)
  from server_init_tables[OF this] show ?case
    by (auto simp: server_inv_iff authenticated_def ident_apply um2.agree_def um.keys_def zone_inv_def)
next
  case (started s V)
  then show ?case using server_inv_same[of s V "server_start s"] by (simp add: server_start_def same_tables_def)
next
  case (stopped s V)
  then show ?case using server_inv_same[of s V "server_stop s"]
    by (simp add: server_stop_def same_tables_def sv_post_def)
next
  case (accepted s V outcome s')
  obtain s1 where s1: "s1 = s \<or> s1 = add_client_deferred True s" and s': "s' = s1 \<or> s' = s1\<lparr>sv_accepting := False\<rparr>"
    using accept_cases[OF accepted.hyps(2,3)] by blast
  have "server_inv s1 V" using s1 accepted.IH server_inv_add_client_deferred by blast
  moreover have "same_tables s1 (s1\<lparr>sv_accepting := False\<rparr>)" by (simp add: same_tables_def)
  ultimately show ?case using s' server_inv_same by blast
next
  case (profiled s V ec now s')
  then have "same_tables s s'" by (auto simp: profiler_round_def same_tables_def split: if_splits)
  then show ?case using profiled server_inv_same by blast
next
  case (received s V c bytes p now s')
  then show ?case using same_tables_packet_received server_inv_same by blast
next
  case (client s V c cl evs cl')
  then have "same_tables s (sv_set_client c cl' s)" by (intro same_tables_set_client) (auto simp: client_may_def)
  then show ?case using same_tables_trans[OF _ same_tables_events] server_inv_same client.IH by blast
next
  case (strand s V now s')
  then obtain j js where j: "sv_strand s = j # js" "server_exec token_ok now j (s\<lparr>sv_strand := js\<rparr>) = Some (Inr s')"
    by (auto simp: server_step_def split: list.splits)
  have "server_inv (s\<lparr>sv_strand := js\<rparr>) V"
    using strand.IH server_inv_same[of s V "s\<lparr>sv_strand := js\<rparr>"] by (simp add: same_tables_def)
  from server_inv_exec[OF this j(2)] show ?case by (simp add: j(1))
next
  case (joined s V db i s')
  then obtain c js where f: "join_request_finish shape_size db c (s\<lparr>sv_joins := js\<rparr>) = Some s'"
    by (auto simp: join_resume_def split: if_splits)
  have "same_tables s (s\<lparr>sv_joins := js\<rparr>)" by (simp add: same_tables_def)
  then show ?case using same_tables_trans same_tables_join_finish[OF f] server_inv_same joined.IH by blast
next
  case (zone s V ti zid s')
  from zone.hyps(2) obtain z z' h' cs' where z: "um_find (sv_zones s) zid = Some z"
    and st: "zone_step gl ti (z, wd_heap (sv_world s), sv_store s) = Some (Inr (z', h', cs'))"
    and s': "s' = s\<lparr>sv_zones := um_assign zid z' (sv_zones s), sv_store := cs', sv_world := (sv_world s)\<lparr>wd_heap := h'\<rparr>\<rparr>"
    by (rule server_zone_step_cases)
  have fr: "ident cs' = ident (sv_store s)" "set (zn_strand z') \<subseteq> insert Job_tick (set (zn_strand z))"
    using cred.zone_step_views[OF st] zone_step_strand[OF st] by (auto simp: ident_def)
  have "zone_inv z" using zone.IH z unfolding server_inv_iff by blast
  then have "zone_inv z'"
    using st zone_exec_inv by (auto simp: zone_step_def split: list.splits)
  then have "server_inv (s\<lparr>sv_zones := um_assign zid z' (sv_zones s)\<rparr>) V"
    using fr(2) by (intro server_inv_zone[OF zone.IH z]) auto
  then show ?case using fr(1) by (simp add: server_inv_def s')
next
  case (waited s V ev a s')
  then have "same_tables s s'" by (auto simp: same_tables_def elim: machine_step_cases)
  then show ?case using waited.IH server_inv_same by blast
qed


text \<open>C3. No packet of a client whose token was not verified ever reaches a zone, in any interleaving of the
  jobs of the server, the zones, the clients and the database.\<close>

theorem only_verified_reach_zones:
  assumes "server_reach token_ok shape_size gl s V"
    and "um_find (sv_zones s) zid = Some z" "Job_packet c p \<in> set (zn_strand z)"
  shows "c \<in> V"
  using server_reach_inv[OF assms(1)] assms(2,3) unfolding server_inv_iff by blast

section \<open>What goes wrong\<close>

text \<open>C24. Entering a zone checks neither that the client is authenticated nor that it has joined: the request of
  a client without a player, in no zone yet, for an existing zone is accepted and answered, and the job it
  leaves in the zone's strand dereferences the null player.\<close>

theorem unjoined_enter_crashes:
  assumes "sv_store s c = Some cl" "cl_player cl = None"
    and "um_find (sv_current_zone s) (client_id cl) = Some 0"
    and "um_find (sv_zones s) n = Some z" "n \<noteq> 0"
  shows "\<exists>s' z'. server_handle_packet token_ok c (In_PlayerEnterZoneRequest (Some (Some n))) s = Some (Inr s')
    \<and> um_find (sv_zones s') n = Some z' \<and> zn_strand z' = zn_strand z @ [Job_add c]
    \<and> (\<forall>gl ti z'' h. zone_exec gl ti (Job_add c) (z'', h, sv_store s') = None)"
proof -
  note z = assms(4) and cur = assms(3)
  have con: "um_contains (sv_zones s) n" using assms(4) by (simp add: um_contains_def)
  let ?s = "s\<lparr>sv_zones := um_assign n (zone_post (Job_add c) z) (sv_zones s)\<rparr>"
  let ?cl = "client_send (Out_PlayerEnterZoneResponse n) cl"
  let ?s' = "?s\<lparr>sv_current_zone := um_assign (client_id cl) n (sv_current_zone s), sv_store := (sv_store s)(c \<mapsto> ?cl)\<rparr>"
  have "server_handle_packet token_ok c (In_PlayerEnterZoneRequest (Some (Some n))) s = Some (Inr ?s')"
    using assms(1,5) z cur con
    by (simp add: server_handle_packet_def handle_player_enter_zone_request_def Let_def on_zone_def um_at_def
        deferred_posts sv_send_def send_to_def)
  moreover have "zone_exec gl ti (Job_add c) (z'', h, sv_store ?s') = None" for gl ti z'' h
    using assms(2) by (simp add: zone_exec_def zone_add_client_def client_send_def Let_def)
  moreover have "um_find (sv_zones ?s') n = Some (zone_post (Job_add c) z)"
    "zn_strand (zone_post (Job_add c) z) = zn_strand z @ [Job_add c]" by simp_all
  ultimately show ?thesis by blast
qed

text \<open>C25. Stopping the server while a zone has clients destroys the zone with a tick still in its strand: the
  job refers to the freed zone.\<close>

theorem stop_frees_ticking_zone:
  assumes "server_reach token_ok shape_size gl s V" "server_cleanup s = Some s'"
    and "um_find (sv_zones s) zid = Some z" "zn_clients z \<noteq> []"
  shows "sv_zones s' = [] \<and> (\<exists>z' \<in> set (sv_freed s'). zn_strand z' = zn_strand z \<and> Job_tick \<in> set (zn_strand z'))"
proof -
  obtain s1 where f: "fold_opt sv_stop_client (um_values (sv_clients s)) s = Some s1"
    and s': "s' = s1\<lparr>sv_zones := [], sv_freed := sv_freed s1 @ map zone_stop (um_values (sv_zones s1))\<rparr>"
    using assms(2) by (auto simp: server_cleanup_def)
  have "same_tables s s1"
    by (rule fold_opt_invariant[OF f, where P = "same_tables s"])
      (auto intro: same_tables_trans dest: same_tables_stop_client)
  then have "z \<in> set (um_values (sv_zones s1))"
    using um_find_in_values[OF assms(3)] by (simp add: same_tables_def)
  then have freed: "zone_stop z \<in> set (sv_freed s')" by (simp add: s')
  have "zone_inv z" using server_reach_inv[OF assms(1)] assms(3) unfolding server_inv_iff by blast
  then have "Job_tick \<in> set (zn_strand z)" using assms(4) by (simp add: zone_inv_def)
  then have "zn_strand (zone_stop z) = zn_strand z" "Job_tick \<in> set (zn_strand (zone_stop z))" by simp_all
  moreover have "sv_zones s' = []" by (simp add: s')
  ultimately show ?thesis using freed by blast
qed

section \<open>A run for the witnesses\<close>

text \<open>A client connects, joins with a valid token, enters the only zone and attacks.\<close>

definition same_string :: "string \<Rightarrow> string \<Rightarrow> bool" where
  "same_string token username \<longleftrightarrow> token = username"

definition sample_join :: join_db where
  "sample_join = \<lparr>jd_prepare_ok = True, jd_rows = Some [[Db_int64 1]], jd_character = sample_db\<rparr>"

text \<open>The database fails while the player is loaded.\<close>

definition failed_join :: join_db where
  "failed_join = sample_join\<lparr>jd_character := sample_db\<lparr>db_prepare_ok := False\<rparr>\<rparr>"

datatype scripted = Sc_start | Sc_accept | Sc_packet addr in_packet | Sc_bad_packet addr | Sc_strand | Sc_join nat | Sc_failed_join nat
  | Sc_zone u32 | Sc_zone_at u32 int | Sc_read addr

primrec script_step :: "scripted \<Rightarrow> server \<Rightarrow> server option" where
  "script_step Sc_start s = Some (server_start s)"
| "script_step Sc_accept s = accept_round (Accepted True) s"
| "script_step (Sc_packet c p) s = packet_received c 8 (Some p) 0 s"
| "script_step (Sc_bad_packet c) s = packet_received c 8 None 0 s"
| "script_step Sc_strand s = the_ok (server_step same_string 0 s)"
| "script_step (Sc_join i) s = join_resume zero3 sample_join i s"
| "script_step (Sc_failed_join i) s = join_resume zero3 failed_join i s"
| "script_step (Sc_zone zid) s = the_ok (server_zone_step sample_glm (inputs_at 0) zid s)"
| "script_step (Sc_zone_at zid t) s = the_ok (server_zone_step sample_glm (inputs_at t) zid s)"
| "script_step (Sc_read c) s =
     map_option (\<lambda>cl. sv_set_client c (cl\<lparr>cl_connection := reader_loop (cl_connection cl)\<rparr>) s) (sv_store s c)"

lemma script_read_reach:
  assumes "server_reach token_ok sz gl s V" "sv_store s c = Some cl"
  shows "server_reach token_ok sz gl (sv_set_client c (cl\<lparr>cl_connection := reader_loop (cl_connection cl)\<rparr>) s) V"
proof -
  have "client_may cl [] (cl\<lparr>cl_connection := reader_loop (cl_connection cl)\<rparr>)"
    by (simp add: client_may_def linked_def reader_loop_def)
  from server_reach.client[OF assms this] show ?thesis by (simp add: sv_client_events_def)
qed

lemma script_reach:
  assumes "fold_opt script_step evs s = Some s'" "server_reach same_string zero3 sample_glm s V"
  shows "\<exists>V'. server_reach same_string zero3 sample_glm s' V'"
  by (rule fold_opt_invariant[OF assms(1), where P = "\<lambda>s. \<exists>V. server_reach same_string zero3 sample_glm s V"])
    (use assms(2) in blast, erule exE, case_tac x,
      auto simp: the_ok_Some intro: server_reach.intros script_read_reach)

definition join_script :: "scripted list" where
  "join_script = [Sc_start, Sc_accept, Sc_strand,
     Sc_packet 0 (In_ClientJoinRequest (Some \<lparr>jr_username = Some ''u'', jr_character_name = Some ''n'', jr_token = Some ''u''\<rparr>)),
     Sc_strand, Sc_join 0, Sc_packet 0 (In_PlayerEnterZoneRequest (Some (Some 1))), Sc_strand, Sc_zone 1,
     Sc_packet 0 In_SkillMeleeAttack, Sc_strand]"

definition scripted_run :: "scripted list \<Rightarrow> server option" where
  "scripted_run evs =
     Option.bind (the_ok (server_init zero3 tiny_files (server_new empty_world))) (fold_opt script_step evs)"

lemma scripted_run_reach:
  assumes "scripted_run evs = Some s"
  shows "\<exists>V. server_reach same_string zero3 sample_glm s V"
proof -
  obtain s0 where init: "the_ok (server_init zero3 tiny_files (server_new empty_world)) = Some s0"
    and run: "fold_opt script_step evs s0 = Some s"
    using assms unfolding scripted_run_def bind_eq_Some_conv by blast
  show ?thesis using script_reach[OF run server_reach.created[OF init[unfolded the_ok_Some]]] .
qed

theorem unjoined_enter_crashes_witness:
  "\<exists>s' z'. server_handle_packet (\<lambda>_ _. False) 100 (In_PlayerEnterZoneRequest (Some (Some 1)))
      ((server_new empty_world)\<lparr>sv_current_zone := [(1, 0)], sv_zones := [(1, duel_zone)], sv_store := duel_clients\<rparr>)
      = Some (Inr s')
    \<and> um_find (sv_zones s') 1 = Some z' \<and> zn_strand z' = [Job_tick, Job_add 100]
    \<and> zone_exec sample_glm (inputs_at 0) (Job_add 100) (z', Map.empty, sv_store s') = None"
proof -
  let ?s = "(server_new empty_world)\<lparr>sv_current_zone := [(1, 0)], sv_zones := [(1, duel_zone)], sv_store := duel_clients\<rparr>"
  have "sv_store ?s 100 = Some (client_new 1 True)" "cl_player (client_new 1 True) = None"
    "um_find (sv_current_zone ?s) (client_id (client_new 1 True)) = Some 0"
    "um_find (sv_zones ?s) 1 = Some duel_zone"
    by (simp_all add: duel_clients_def client_new_def um_find_def)
  from unjoined_enter_crashes[OF this, of "\<lambda>_ _. False"] show ?thesis
    by (auto simp: duel_zone_def)
qed

text \<open>The run ends in the zone, with the client's attack waiting behind the pending tick.\<close>

lemma scripted_run_ends:
  "case scripted_run join_script of None \<Rightarrow> False | Some s \<Rightarrow>
     (case um_find (sv_zones s) 1 of None \<Rightarrow> False | Some z \<Rightarrow>
        zn_strand z = [Job_tick, Job_packet 0 In_SkillMeleeAttack] \<and> um_find (sv_current_zone s) 1 = Some 1
        \<and> um_find (sv_clients s) 1 = Some 0 \<and> um_find (zn_clients z) 1 = Some 0 \<and> server_cleanup s \<noteq> None)"
  by code_simp

lemma scripted_state:
  obtains s V z s' where "server_reach same_string zero3 sample_glm s V" "um_find (sv_zones s) 1 = Some z"
    "zn_strand z = [Job_tick, Job_packet 0 In_SkillMeleeAttack]" "um_find (sv_current_zone s) 1 = Some 1"
    "um_find (sv_clients s) 1 = Some 0" "zn_clients z \<noteq> []" "server_cleanup s = Some s'"
proof -
  obtain s z s' where s: "scripted_run join_script = Some s" "um_find (sv_zones s) 1 = Some z"
    "zn_strand z = [Job_tick, Job_packet 0 In_SkillMeleeAttack]" "um_find (sv_current_zone s) 1 = Some 1"
    "um_find (sv_clients s) 1 = Some 0" "um_find (zn_clients z) 1 = Some 0" "server_cleanup s = Some s'"
    using scripted_run_ends by (auto split: option.split_asm)
  then obtain V where "server_reach same_string zero3 sample_glm s V" using scripted_run_reach by blast
  moreover have "zn_clients z \<noteq> []" using s(6) by auto
  ultimately show thesis using that s by blast
qed


theorem only_verified_reach_zones_witness:
  "\<exists>s V z. server_reach same_string zero3 sample_glm s V \<and> um_find (sv_zones s) 1 = Some z
     \<and> Job_packet 0 In_SkillMeleeAttack \<in> set (zn_strand z) \<and> 0 \<in> V"
proof -
  obtain s V z s' where r: "server_reach same_string zero3 sample_glm s V" "um_find (sv_zones s) 1 = Some z"
    "zn_strand z = [Job_tick, Job_packet 0 In_SkillMeleeAttack]" "um_find (sv_current_zone s) 1 = Some 1"
    "um_find (sv_clients s) 1 = Some 0" "zn_clients z \<noteq> []" "server_cleanup s = Some s'"
    by (rule scripted_state)
  have j: "Job_packet 0 In_SkillMeleeAttack \<in> set (zn_strand z)" using r(3) by simp
  show ?thesis using only_verified_reach_zones[OF r(1,2) j] r(1,2) j by blast
qed

theorem stop_frees_ticking_zone_witness:
  "\<exists>s V s'. server_reach same_string zero3 sample_glm s V \<and> server_cleanup s = Some s' \<and> sv_zones s' = []
     \<and> (\<exists>z' \<in> set (sv_freed s'). Job_tick \<in> set (zn_strand z'))"
proof -
  obtain s V z s' where r: "server_reach same_string zero3 sample_glm s V" "um_find (sv_zones s) 1 = Some z"
    "zn_strand z = [Job_tick, Job_packet 0 In_SkillMeleeAttack]" "um_find (sv_current_zone s) 1 = Some 1"
    "um_find (sv_clients s) 1 = Some 0" "zn_clients z \<noteq> []" "server_cleanup s = Some s'"
    by (rule scripted_state)
  show ?thesis using stop_frees_ticking_zone[OF r(1,7,2,6)] r(1,7) by blast
qed

end
