(* ===== verification/Server_Live.thy ===== *)
theory Server_Live
  imports Server_Correct
begin

text \<open>
  The server never loses or forgets a client by accident. Every job that removes a client finds it in the
  tables, so that no job of the server's strand throws; and whenever the strand is idle, the table of the
  clients holds exactly the clients that are connected. Both need that fewer than \<open>2\<^sup>3\<^sup>2\<close> clients were accepted:
  the ids are 32-bit words.
\<close>

section \<open>What the pending jobs will do\<close>

definition job_effect :: "server_job \<Rightarrow> addr set \<Rightarrow> addr set" where
  "job_effect j K = (case j of Sj_add c \<Rightarrow> insert c K | Sj_remove c \<Rightarrow> K - {c} | _ \<Rightarrow> K)"

text \<open>The clients in the tables once the jobs have run, and that every removal will find its client.\<close>

primrec after :: "addr set \<Rightarrow> server_job list \<Rightarrow> addr set" where
  "after K [] = K"
| "after K (j # js) = after (job_effect j K) js"

primrec removable :: "addr set \<Rightarrow> server_job list \<Rightarrow> bool" where
  "removable K [] = True"
| "removable K (j # js) = ((case j of Sj_remove c \<Rightarrow> c \<in> K | _ \<Rightarrow> True) \<and> removable (job_effect j K) js)"

lemma after_append: "after K (xs @ ys) = after (after K xs) ys"
  by (induction xs arbitrary: K) auto

lemma removable_append: "removable K (xs @ ys) \<longleftrightarrow> removable K xs \<and> removable (after K xs) ys"
  by (induction xs arbitrary: K) auto

lemmas pending_simps = after_append removable_append job_effect_def

definition known :: "(u32, u32) umap \<Rightarrow> (addr \<Rightarrow> u32 option) \<Rightarrow> addr set" where
  "known cur ids = {c. \<exists>i. ids c = Some i \<and> um_contains cur i}"

definition live ::
  "server_job list \<Rightarrow> (u32, u32) umap \<Rightarrow> (addr \<Rightarrow> u32 option) \<Rightarrow> (addr \<Rightarrow> bool option) \<Rightarrow> addr \<Rightarrow> u32 \<Rightarrow> bool" where
  "live strand cur ids lnk nxt gen \<longleftrightarrow>
     removable (known cur ids) strand
     \<and> (\<forall>c. c \<in> after (known cur ids) strand \<longleftrightarrow> lnk c = Some True)
     \<and> (\<forall>c. Sj_remove c \<in> set strand \<longrightarrow> lnk c = Some False)
     \<and> (\<forall>c i. ids c = Some i \<longrightarrow> c < nxt \<and> i = of_nat (Suc c))
     \<and> (\<forall>c. lnk c = None \<longleftrightarrow> ids c = None)
     \<and> (\<forall>i. um_contains cur i \<longrightarrow> (\<exists>c. ids c = Some i))
     \<and> gen = of_nat nxt"

definition live_server :: "server \<Rightarrow> bool" where
  "live_server s \<longleftrightarrow>
     (sv_next_addr s < 2 ^ 32 \<longrightarrow>
      live (sv_strand s) (sv_current_zone s) (views client_id (sv_store s)) (views linked (sv_store s))
        (sv_next_addr s) (sv_next_id s))"

lemma live_dest:
  assumes "live strand cur ids lnk nxt gen"
  shows "removable (known cur ids) strand"
    and "c \<in> after (known cur ids) strand \<longleftrightarrow> lnk c = Some True"
    and "Sj_remove c \<in> set strand \<Longrightarrow> lnk c = Some False"
    and "ids c = Some i \<Longrightarrow> c < nxt \<and> i = of_nat (Suc c)"
    and "lnk c = None \<longleftrightarrow> ids c = None"
    and "um_contains cur i \<Longrightarrow> \<exists>c. ids c = Some i"
    and "gen = of_nat nxt"
  using assms unfolding live_def by blast+

lemma of_nat_Suc_inj:
  assumes "(of_nat (Suc c) :: u32) = of_nat (Suc d)" "Suc c < 2 ^ 32" "Suc d < 2 ^ 32"
  shows "c = d"
proof -
  have "unat (of_nat (Suc c) :: u32) = Suc c" "unat (of_nat (Suc d) :: u32) = Suc d"
    using assms(2,3) by (simp_all add: unsigned_of_nat take_bit_nat_eq_self del: of_nat_Suc)
  then show ?thesis using assms(1) by (metis Suc_inject)
qed

lemma ids_unique:
  assumes "live strand cur ids lnk nxt gen" "nxt < 2 ^ 32" "ids c = Some i" "ids d = Some i"
  shows "c = d"
proof -
  have "i = of_nat (Suc c)" "i = of_nat (Suc d)" "c < nxt" "d < nxt"
    using assms unfolding live_def by blast+
  then show ?thesis using of_nat_Suc_inj[of c d] assms(2) by simp
qed

lemma live_packet:
  assumes "live strand cur ids lnk nxt gen" "\<And>K. job_effect j K = K" "\<And>c. j \<noteq> Sj_remove c"
  shows "live (strand @ [j]) cur ids lnk nxt gen"
proof -
  have "removable K [j]" for K using assms(3) by (cases j) auto
  then show ?thesis using assms by (auto simp: live_def removable_append after_append)
qed

lemma live_disconnect:
  assumes l: "live strand cur ids lnk nxt gen" and c: "lnk c = Some True"
  shows "live (strand @ [Sj_remove c]) cur ids (lnk(c \<mapsto> False)) nxt gen"
proof -
  have "c \<in> after (known cur ids) strand" using live_dest(2)[OF l] c by blast
  then have "removable (known cur ids) (strand @ [Sj_remove c])"
    using live_dest(1)[OF l] by (simp add: pending_simps)
  moreover have "d \<in> after (known cur ids) (strand @ [Sj_remove c]) \<longleftrightarrow> (lnk(c \<mapsto> False)) d = Some True" for d
    using live_dest(2)[OF l, of d] by (simp add: pending_simps)
  moreover have "(lnk(c \<mapsto> False)) d = None \<longleftrightarrow> ids d = None" for d
    using live_dest(5)[OF l, of d] live_dest(5)[OF l, of c] c by simp
  ultimately show ?thesis using l unfolding live_def by auto
qed

lemma live_accept:
  assumes "live strand cur ids lnk nxt gen" "Suc nxt < 2 ^ 32"
  shows "live (strand @ [Sj_add nxt]) cur (ids(nxt \<mapsto> gen + 1)) (lnk(nxt \<mapsto> True)) (Suc nxt) (gen + 1)"
proof -
  have fresh: "ids nxt = None" "lnk nxt = None"
    using assms(1) unfolding live_def by (metis not_None_eq less_irrefl)+
  have gen: "gen + 1 = of_nat (Suc nxt)" using assms(1) by (simp add: live_def)
  have "\<not> um_contains cur (gen + 1)"
  proof
    assume "um_contains cur (gen + 1)"
    then obtain c where "ids c = Some (gen + 1)" using assms(1) unfolding live_def by blast
    then have "c < nxt" "(of_nat (Suc nxt) :: u32) = of_nat (Suc c)"
      using assms(1) gen unfolding live_def by force+
    then show False using of_nat_Suc_inj[of nxt c] assms(2) by simp
  qed
  then have k: "known cur (ids(nxt \<mapsto> gen + 1)) = known cur ids" using fresh by (auto simp: known_def)
  note l = assms(1)
  let ?strand = "strand @ [Sj_add nxt]" and ?ids = "ids(nxt \<mapsto> gen + 1)" and ?lnk = "lnk(nxt \<mapsto> True)"
  have 1: "removable (known cur ?ids) ?strand" using live_dest(1)[OF l] by (simp add: k pending_simps)
  have 2: "d \<in> after (known cur ?ids) ?strand \<longleftrightarrow> ?lnk d = Some True" for d
    using live_dest(2)[OF l, of d] by (simp add: k pending_simps)
  have 3: "?lnk d = Some False" if "Sj_remove d \<in> set ?strand" for d
    using live_dest(3)[OF l, of d] that fresh(2) by auto
  have 4: "d < Suc nxt \<and> i = of_nat (Suc d)" if "?ids d = Some i" for d i
    using that live_dest(4)[OF l, of d i] gen by (cases "d = nxt") auto
  have 5: "?lnk d = None \<longleftrightarrow> ?ids d = None" for d using live_dest(5)[OF l, of d] by simp
  have 6: "\<exists>d. ?ids d = Some i" if i: "um_contains cur i" for i
  proof -
    obtain d where "ids d = Some i" using live_dest(6)[OF l i] by blast
    then have "?ids d = Some i" using fresh(1) by auto
    then show ?thesis by blast
  qed
  show ?thesis unfolding live_def using 1 2 3 4 5 6 gen by blast
qed

lemma known_insert:
  assumes "live strand cur ids lnk nxt gen" "nxt < 2 ^ 32" "ids c = Some i"
  shows "known (um_insert i 0 cur) ids = insert c (known cur ids)"
proof (rule set_eqI)
  fix d
  have k: "um_contains (um_insert i 0 cur) k \<longleftrightarrow> k = i \<or> um_contains cur k" for k
    by (auto simp: um_contains_def um_find_insert)
  show "d \<in> known (um_insert i 0 cur) ids \<longleftrightarrow> d \<in> insert c (known cur ids)"
  proof (cases "d = c")
    case True
    then show ?thesis using assms(3) by (simp add: known_def k)
  next
    case False
    then have "ids d \<noteq> Some i" using ids_unique[OF assms] by blast
    then have "(\<exists>j. ids d = Some j \<and> um_contains (um_insert i 0 cur) j) \<longleftrightarrow> (\<exists>j. ids d = Some j \<and> um_contains cur j)"
      using k by (cases "ids d") simp_all
    then show ?thesis using False by (simp add: known_def)
  qed
qed

lemma known_erase:
  assumes "live strand cur ids lnk nxt gen" "nxt < 2 ^ 32" "ids c = Some i"
  shows "known (um_erase i cur) ids = known cur ids - {c}"
proof (rule set_eqI)
  fix d
  have k: "um_contains (um_erase i cur) k \<longleftrightarrow> k \<noteq> i \<and> um_contains cur k" for k
    by (auto simp: um_contains_def um_find_insert)
  show "d \<in> known (um_erase i cur) ids \<longleftrightarrow> d \<in> known cur ids - {c}"
  proof (cases "d = c")
    case True
    then show ?thesis using assms(3) by (simp add: known_def k)
  next
    case False
    then have "ids d \<noteq> Some i" using ids_unique[OF assms] by blast
    then have "(\<exists>j. ids d = Some j \<and> um_contains (um_erase i cur) j) \<longleftrightarrow> (\<exists>j. ids d = Some j \<and> um_contains cur j)"
      using k by (cases "ids d") simp_all
    then show ?thesis using False by (simp add: known_def)
  qed
qed

lemma live_add:
  assumes "live (Sj_add c # js) cur ids lnk nxt gen" "nxt < 2 ^ 32" "ids c = Some i"
  shows "live js (um_insert i 0 cur) ids lnk nxt gen"
proof -
  note l = live_dest[OF assms(1)]
  have "\<exists>d. ids d = Some k" if "um_contains (um_insert i 0 cur) k" for k
    using that l(6)[of k] assms(3) by (auto simp: um_contains_def um_find_insert split: if_splits)
  then show ?thesis
    unfolding live_def known_insert[OF assms] using l by (simp add: job_effect_def)
qed

lemma live_remove:
  assumes "live (Sj_remove c # js) cur ids lnk nxt gen" "nxt < 2 ^ 32" "ids c = Some i"
  shows "live js (um_erase i cur) ids lnk nxt gen" "um_contains cur i"
proof -
  note l = live_dest[OF assms(1)]
  show "um_contains cur i" using l(1) assms(3) by (auto simp: known_def)
  have "\<exists>d. ids d = Some k" if "um_contains (um_erase i cur) k" for k
    using that l(6)[of k] by (auto simp: um_contains_def split: if_splits)
  then show "live js (um_erase i cur) ids lnk nxt gen"
    unfolding live_def known_erase[OF assms] using l by (simp add: job_effect_def)
qed

section \<open>The server's steps\<close>

text \<open>Two states that differ in nothing the invariant looks at, or only in the fields of the table of zones.\<close>

definition same_keys :: "('k, 'a) umap \<Rightarrow> ('k, 'b) umap \<Rightarrow> bool" where
  "same_keys m m' \<longleftrightarrow> (\<forall>k. um_contains m k \<longleftrightarrow> um_contains m' k)"

definition quiet :: "server \<Rightarrow> server \<Rightarrow> bool" where
  "quiet s s' \<longleftrightarrow> sv_strand s' = sv_strand s \<and> same_keys (sv_current_zone s) (sv_current_zone s')
     \<and> views client_id (sv_store s') = views client_id (sv_store s)
     \<and> views linked (sv_store s') = views linked (sv_store s)
     \<and> sv_next_addr s' = sv_next_addr s \<and> sv_next_id s' = sv_next_id s"

lemma known_same_keys: "same_keys cur cur' \<Longrightarrow> known cur' ids = known cur ids"
  by (simp add: same_keys_def known_def)

lemma live_same_keys:
  assumes "live strand cur ids lnk nxt gen" "same_keys cur cur'"
  shows "live strand cur' ids lnk nxt gen"
proof -
  have "um_contains cur' i \<longleftrightarrow> um_contains cur i" for i using assms(2) by (simp add: same_keys_def)
  then show ?thesis
    using assms(1) unfolding live_def known_same_keys[OF assms(2)] by simp
qed

lemma live_server_quiet: "live_server s \<Longrightarrow> quiet s s' \<Longrightarrow> live_server s'"
  by (auto simp: live_server_def quiet_def intro: live_same_keys)

lemma quiet_refl [simp]: "quiet s s"
  by (simp add: quiet_def same_keys_def)

lemma live_server_post:
  assumes "live_server s" "\<And>K. job_effect j K = K" "\<And>c. j \<noteq> Sj_remove c"
  shows "live_server (sv_post j s)"
  using assms live_packet by (simp add: live_server_def sv_post_def)

lemma fold_no_disconnect:
  "Disconnected \<notin> set evs \<Longrightarrow> sv_client_events c evs s = s"
  by (induction evs arbitrary: s) (auto simp: sv_client_events_def split: conn_event.split)

lemma views_fun_upd: "views view (cs(c \<mapsto> cl)) = (views view cs)(c \<mapsto> view cl)"
  by (auto simp: views_def intro!: ext)

lemma live_server_client:
  assumes l: "live_server s" and cl: "sv_store s c = Some cl" and may: "client_may cl evs cl'"
  shows "live_server (sv_client_events c evs (sv_set_client c cl' s))"
proof -
  have i: "views client_id (sv_store (sv_set_client c cl' s)) = views client_id (sv_store s)"
    using may cl by (auto simp: sv_set_client_def views_def client_may_def intro!: ext)
  consider "Disconnected \<notin> set evs" "linked cl' = linked cl" | "evs = [Disconnected]" "linked cl" "\<not> linked cl'"
    using may by (auto simp: client_may_def)
  then show ?thesis
  proof cases
    case 1
    then have "quiet s (sv_set_client c cl' s)"
      using i cl by (auto simp: quiet_def same_keys_def sv_set_client_def views_fun_upd views_def intro!: ext)
    then show ?thesis using live_server_quiet[OF l] fold_no_disconnect[OF 1(1)] by simp
  next
    case 2
    then have "views linked (sv_store s) c = Some True" using cl by (simp add: views_def)
    then show ?thesis
      using l 2 live_disconnect i
      by (simp add: live_server_def sv_client_events_def remove_client_deferred_def sv_post_def sv_set_client_def
          views_fun_upd)
  qed
qed

lemma live_server_stop_client:
  assumes "live_server s" "sv_stop_client c s = Some s'"
  shows "live_server s'"
proof -
  obtain cl where cl: "sv_store s c = Some cl" using assms(2) by (auto simp: sv_stop_client_def)
  obtain cl' evs where stop: "client_stop cl = (cl', evs)" by fastforce
  then have "s' = sv_client_events c evs (sv_set_client c cl' s)" using assms(2) cl by (simp add: sv_stop_client_def)
  then show ?thesis using live_server_client[OF assms(1) cl client_may_stop[OF stop]] by simp
qed

lemma quiet_send_to: "send_to c p cs = Some cs' \<Longrightarrow> views client_id cs' = views client_id cs"
  by (auto simp: send_to_def views_def client_send_def intro!: ext)

lemma quiet_send: "sv_send c p s = Some s' \<Longrightarrow> quiet s s'"
  by (auto simp: sv_send_def quiet_def same_keys_def dest: link.views_send_to quiet_send_to)

lemma quiet_set_client:
  "sv_store s c = Some cl \<Longrightarrow> client_id cl' = client_id cl \<Longrightarrow> linked cl' = linked cl
     \<Longrightarrow> quiet s (sv_set_client c cl' s)"
  by (auto simp: quiet_def same_keys_def sv_set_client_def views_def intro!: ext)

lemma live_server_packet_received:
  assumes "live_server s" "packet_received c bytes p now s = Some s'"
  shows "live_server s'"
  using assms(2)
proof (cases rule: packet_received_cases)
  case (1 cl t)
  have "quiet s (sv_set_client c (client_packet_received now cl) s)"
    by (rule quiet_set_client[OF 1(1)]) (simp_all add: client_packet_received_def linked_def)
  then have "quiet s t" by (simp add: 1(2) quiet_def)
  then have l: "live_server t" using live_server_quiet assms(1) by blast
  show ?thesis
  proof (cases p)
    case None
    then show ?thesis using live_server_stop_client[OF l] 1(3) by simp
  next
    case (Some q)
    then show ?thesis using live_server_post[OF l] 1(3) by (simp add: job_effect_def)
  qed
qed

lemma live_server_join_finish:
  assumes "live_server s" "join_request_finish shape_size db c s = Some s'"
  shows "live_server s'"
  using assms(2)
proof (cases rule: join_finish_cases)
  case (threw w)
  then show ?thesis using live_server_quiet[OF assms(1)] by (simp add: quiet_def same_keys_def)
next
  case (loaded w player cl)
  let ?s = "sv_set_client c (cl\<lparr>cl_player := player\<rparr>) (s\<lparr>sv_world := w\<rparr>)"
  have "quiet s ?s"
    using loaded(1) by (auto simp: quiet_def same_keys_def sv_set_client_def views_def linked_def intro!: ext)
  then have "live_server ?s" using live_server_quiet[OF assms(1)] by blast
  then show ?thesis using loaded(2) live_server_stop_client live_server_quiet quiet_send by blast
qed (use assms(1) live_server_stop_client in auto)

lemma on_zone_quiet:
  assumes "on_zone zid f s = Inr s'"
  shows "quiet s s'" "sv_current_zone s' = sv_current_zone s" "sv_store s' = sv_store s"
  using assms by (auto simp: on_zone_Inr quiet_def same_keys_def)

lemma quiet_trans: "quiet s s' \<Longrightarrow> quiet s' s'' \<Longrightarrow> quiet s s''"
  by (simp add: quiet_def same_keys_def)

text \<open>A packet handler changes nothing of that, or stops the client.\<close>

lemma enter_zone_quiet:
  assumes "handle_player_enter_zone_request c location s = Some (Inr s')"
  shows "quiet s s' \<or> sv_stop_client c s = Some s'"
  using assms
proof (cases rule: enter_zone_cases)
  case (moved cl cur nxt s1 s2)
  let ?s = "s2\<lparr>sv_current_zone := um_assign (client_id cl) nxt (sv_current_zone s2)\<rparr>"
  have "quiet s s1" using moved(4) on_zone_quiet(1) by (auto split: if_splits)
  then have q: "quiet s s2" using on_zone_quiet(1)[OF moved(5)] quiet_trans by blast
  have "sv_current_zone s2 = sv_current_zone s"
    using moved(4) on_zone_quiet(2)[OF moved(5)] on_zone_quiet(2) by (auto split: if_splits)
  then have "same_keys (sv_current_zone s2) (sv_current_zone ?s)"
    using moved(2) by (auto simp: same_keys_def um_contains_def)
  then have "quiet s2 ?s" by (simp add: quiet_def)
  then show ?thesis using quiet_trans q quiet_send[OF moved(6)] by blast
qed auto

lemma packet_quiet:
  assumes "server_handle_packet token_ok c p s = Some (Inr s')"
  shows "quiet s s' \<or> sv_stop_client c s = Some s'"
  using assms
proof (cases rule: packet_cases)
  case (join req)
  from join(2) show ?thesis
  proof (cases rule: join_start_cases)
    case (verified cl n username token)
    then show ?thesis
      using quiet_set_client[of s c cl "cl\<lparr>is_authenticated := True\<rparr>"] by (simp add: quiet_def linked_def)
  qed simp
qed (use enter_zone_quiet quiet_send on_zone_quiet(1) in auto)

lemma live_server_exec:
  assumes l: "live_server s" and j: "sv_strand s = j # js"
    and e: "server_exec token_ok now j (s\<lparr>sv_strand := js\<rparr>) = Some (Inr s')" and n: "sv_next_addr s < 2 ^ 32"
  shows "live_server s'"
proof -
  let ?s = "s\<lparr>sv_strand := js\<rparr>"
  have lv: "live (j # js) (sv_current_zone s) (views client_id (sv_store s)) (views linked (sv_store s))
      (sv_next_addr s) (sv_next_id s)"
    using l n j by (simp add: live_server_def)
  have other: "live_server ?s" if "\<And>K. job_effect j K = K" "\<And>c. j \<noteq> Sj_remove c"
  proof -
    have "live js (sv_current_zone s) (views client_id (sv_store s)) (views linked (sv_store s))
        (sv_next_addr s) (sv_next_id s)"
      using lv that unfolding live_def by (auto split: server_job.splits)
    then show ?thesis by (simp add: live_server_def)
  qed
  show ?thesis
  proof (cases j)
    case (Sj_packet c p)
    then have "s' = ?s \<or> server_handle_packet token_ok c p ?s = Some (Inr s')"
      using e detached_Inr by (simp add: server_exec_def)
    moreover have "live_server ?s" by (rule other) (simp_all add: Sj_packet job_effect_def)
    ultimately show ?thesis using packet_quiet live_server_quiet live_server_stop_client by blast
  next
    case (Sj_add c)
    then have "server_add_client c now ?s = Some (Inr s')" using e by (simp add: server_exec_def)
    then show ?thesis
    proof (cases rule: add_client_cases)
      case (1 cl t d x)
      then have "views client_id (sv_store s) c = Some (client_id cl)" by (simp add: views_def)
      from live_add[OF lv[unfolded Sj_add] n this] have lt: "live_server t" by (simp add: live_server_def 1(2))
      have "quiet t s'"
        using 1(3,4) by (auto intro!: quiet_set_client simp: client_start_def linked_def conn_open_def)
      then show ?thesis using live_server_quiet[OF lt] by blast
    qed
  next
    case (Sj_remove c)
    then have "server_remove_client c ?s = Some (Inr s')" using e by (simp add: server_exec_def)
    then show ?thesis
    proof (cases rule: remove_client_cases)
      case (1 s1 cl1 zid s2)
      obtain cl where cl: "sv_store s c = Some cl" using 1(1) by (auto simp: sv_stop_client_def)
      have "views linked (sv_store s) c = Some False" using live_dest(3)[OF lv] Sj_remove by simp
      then have down: "\<not> linked cl" using cl by (simp add: views_def)
      obtain cl' evs where st: "client_stop cl = (cl', evs)" by fastforce
      have may: "client_id cl' = client_id cl" "linked cl' = linked cl" "Disconnected \<notin> set evs"
        using client_may_stop[OF st] down by (auto simp: client_may_def)
      have s1: "s1 = sv_set_client c cl' ?s"
        using 1(1) cl st fold_no_disconnect[OF may(3)] by (simp add: sv_stop_client_def)
      then have "quiet ?s s1" using quiet_set_client[of ?s c cl cl'] may cl by simp
      moreover have "quiet s1 s2" using 1(4) on_zone_quiet(1) by (auto split: if_splits)
      ultimately have q: "quiet ?s s2" by (rule quiet_trans)
      have "cl1 = cl'" using 1(2) by (simp add: s1 sv_set_client_def)
      then have "views client_id (sv_store s) c = Some (client_id cl1)" using cl may(1) by (simp add: views_def)
      from live_remove(1)[OF lv[unfolded Sj_remove] n this]
      have "live_server (?s\<lparr>sv_current_zone := um_erase (client_id cl1) (sv_current_zone s)\<rparr>)"
        by (simp add: live_server_def)
      moreover have "quiet (?s\<lparr>sv_current_zone := um_erase (client_id cl1) (sv_current_zone s)\<rparr>) s'"
        using q by (simp add: 1(5) quiet_def same_keys_def um_contains_def)
      ultimately show ?thesis using live_server_quiet by blast
    qed
  next
    case Sj_cleanup
    then have "server_cleanup ?s = Some s'" using e by (simp add: server_exec_def)
    then show ?thesis
    proof (cases rule: cleanup_cases)
      case (1 s1)
      have "live_server ?s" by (rule other) (simp_all add: Sj_cleanup job_effect_def)
      then have "live_server s1"
        using fold_opt_invariant[OF 1(1), where P = live_server] live_server_stop_client by blast
      then show ?thesis unfolding 1(2) by (simp add: live_server_def)
    qed
  qed
qed

section \<open>All runs\<close>

lemma server_init_frame:
  assumes "server_init shape_size files s = Some (Inr s')"
  shows "sv_strand s' = sv_strand s \<and> sv_current_zone s' = sv_current_zone s \<and> sv_store s' = sv_store s
    \<and> sv_next_addr s' = sv_next_addr s \<and> sv_next_id s' = sv_next_id s"
proof -
  let ?P = "\<lambda>s'. sv_strand s' = sv_strand s \<and> sv_current_zone s' = sv_current_zone s \<and> sv_store s' = sv_store s
    \<and> sv_next_addr s' = sv_next_addr s \<and> sv_next_id s' = sv_next_id s"
  obtain s1 where f: "fold_opt (init_zone files) [1, 2, 3, 4, 5, 6, 7, 8, 9, 10] s = Some s1"
    using assms by (auto simp: server_init_def bind_eq_Some_conv)
  have "?P s1"
    by (rule fold_opt_invariant[OF f]) (auto simp: init_zone_def split: option.splits)
  moreover obtain wd zs where "s' = (s1\<lparr>sv_world := wd\<rparr>)\<lparr>sv_zones := zs\<rparr>"
    using assms f by (auto simp: server_init_def Let_def um_at_def bind_eq_Some_conv split: option.splits)
  ultimately show ?thesis by simp
qed

lemma server_step_next:
  assumes "server_step token_ok now s = Some (Inr s')"
  obtains j js where "sv_strand s = j # js" "server_exec token_ok now j (s\<lparr>sv_strand := js\<rparr>) = Some (Inr s')"
  using assms by (auto simp: server_step_def split: list.splits)

lemma stop_client_next: "sv_stop_client c s = Some s' \<Longrightarrow> sv_next_addr s' = sv_next_addr s"
  using same_tables_stop_client by (auto simp: same_tables_def)

lemma server_exec_next:
  assumes "server_exec token_ok now j s = Some (Inr s')"
  shows "sv_next_addr s' = sv_next_addr s"
proof (cases j)
  case (Sj_packet c p)
  then have "s' = s \<or> server_handle_packet token_ok c p s = Some (Inr s')"
    using assms detached_Inr by (simp add: server_exec_def)
  then show ?thesis
    using packet_quiet[of token_ok c p s s'] stop_client_next[of c s s'] by (auto simp: quiet_def)
next
  case (Sj_add c)
  then have "server_add_client c now s = Some (Inr s')" using assms by (simp add: server_exec_def)
  then show ?thesis by (cases rule: add_client_cases) (simp add: sv_set_client_def)
next
  case (Sj_remove c)
  then have "server_remove_client c s = Some (Inr s')" using assms by (simp add: server_exec_def)
  then show ?thesis
    by (cases rule: remove_client_cases) (auto simp: on_zone_Inr stop_client_next split: if_splits)
next
  case Sj_cleanup
  then have "server_cleanup s = Some s'" using assms by (simp add: server_exec_def)
  then show ?thesis
  proof (cases rule: cleanup_cases)
    case (1 s1)
    have "sv_next_addr s1 = sv_next_addr s"
      by (rule fold_opt_invariant[OF 1(1), where P = "\<lambda>t. sv_next_addr t = sv_next_addr s"]) (simp_all add: stop_client_next)
    then show ?thesis by (simp add: 1(2))
  qed
qed

lemma live_server_accept:
  assumes "live_server s"
  shows "live_server (add_client_deferred True s)"
proof -
  have "linked (client_new i True)" "client_id (client_new i True) = i" for i
    by (simp_all add: linked_def client_new_def connection_new_def)
  then show ?thesis
    using assms live_accept by (auto simp: live_server_def add_client_deferred_def Let_def sv_post_def views_fun_upd)
qed

lemma server_reach_live: "server_reach token_ok shape_size gl s V \<Longrightarrow> live_server s"
proof (induction rule: server_reach.induct)
  case (created files s)
  from server_init_frame[OF this] show ?case
    by (simp add: live_server_def live_def server_new_def known_def views_def um_contains_def)
next
  case (started s V)
  then show ?case using live_server_quiet by (simp add: server_start_def quiet_def same_keys_def)
next
  case (stopped s V)
  then have "live_server (s\<lparr>sv_running := False, sv_acceptor_open := False\<rparr>)" by (simp add: live_server_def)
  then show ?case using live_server_post[of _ Sj_cleanup] stopped by (simp add: server_stop_def job_effect_def)
next
  case (accepted s V outcome s')
  obtain s1 where "s1 = s \<or> s1 = add_client_deferred True s" "s' = s1 \<or> s' = s1\<lparr>sv_accepting := False\<rparr>"
    using accept_cases[OF accepted.hyps(2,3)] by blast
  then show ?case using accepted.IH live_server_accept[OF accepted.IH] by (auto simp: live_server_def)
next
  case (profiled s V ec now s')
  then have "quiet s s'" by (auto simp: profiler_round_def quiet_def same_keys_def split: if_splits)
  then show ?case using profiled live_server_quiet by blast
next
  case (received s V c bytes p now s')
  then show ?case using live_server_packet_received by blast
next
  case (client s V c cl evs cl')
  then show ?case using live_server_client by blast
next
  case (strand s V now s')
  from strand.hyps(2) obtain j js where j: "sv_strand s = j # js"
    "server_exec token_ok now j (s\<lparr>sv_strand := js\<rparr>) = Some (Inr s')" by (rule server_step_next)
  show ?case
  proof (cases "sv_next_addr s < 2 ^ 32")
    case True
    then show ?thesis using live_server_exec[OF strand.IH j] by blast
  next
    case False
    then show ?thesis using server_exec_next[OF j(2)] by (simp add: live_server_def)
  qed
next
  case (joined s V db i s')
  then obtain c js where f: "join_request_finish shape_size db c (s\<lparr>sv_joins := js\<rparr>) = Some s'"
    by (auto simp: join_resume_def split: if_splits)
  have "live_server (s\<lparr>sv_joins := js\<rparr>)" using joined.IH by (simp add: live_server_def)
  then show ?case using live_server_join_finish f by blast
next
  case (zone s V ti zid s')
  from zone.hyps(2) obtain z z' h' cs' where st: "zone_step gl ti (z, wd_heap (sv_world s), sv_store s) = Some (Inr (z', h', cs'))"
    and s': "s' = s\<lparr>sv_zones := um_assign zid z' (sv_zones s), sv_store := cs', sv_world := (sv_world s)\<lparr>wd_heap := h'\<rparr>\<rparr>"
    by (rule server_zone_step_cases)
  have "views client_id cs = map_option fst \<circ> views credentials cs" for cs
    by (simp add: fun_eq_iff views_def credentials_def option.map_comp comp_def)
  then have "views client_id cs' = views client_id (sv_store s)" using cred.zone_step_views[OF st] by simp
  then have "quiet s s'" using link.zone_step_views[OF st] by (simp add: quiet_def same_keys_def s')
  then show ?case using zone.IH live_server_quiet by blast
next
  case (waited s V ev a s')
  then have "quiet s s'" by (auto simp: quiet_def same_keys_def elim: machine_step_cases)
  then show ?case using waited.IH live_server_quiet by blast
qed

lemma server_step_no_throw:
  assumes reach: "server_reach token_ok shape_size gl s V" and n: "sv_next_addr s < 2 ^ 32"
  shows "server_step token_ok now s \<noteq> Some (Inl ex)"
proof
  assume "server_step token_ok now s = Some (Inl ex)"
  then obtain j js where j: "sv_strand s = j # js" "server_exec token_ok now j (s\<lparr>sv_strand := js\<rparr>) = Some (Inl ex)"
    by (auto simp: server_step_def split: list.splits)
  show False
  proof (cases j)
    case (Sj_remove c)
    then have lv: "live (Sj_remove c # js) (sv_current_zone s) (views client_id (sv_store s)) (views linked (sv_store s))
        (sv_next_addr s) (sv_next_id s)"
      using server_reach_live[OF reach] n j(1) by (simp add: live_server_def)
    let ?s = "s\<lparr>sv_strand := js\<rparr>"
    have r: "server_remove_client c ?s = Some (Inl ex)" using j(2) Sj_remove by (simp add: server_exec_def)
    then obtain s1 where stop: "sv_stop_client c ?s = Some s1" by (auto simp: server_remove_client_def bind_eq_Some_conv)
    then obtain cl where cl: "sv_store s c = Some cl" by (auto simp: sv_stop_client_def)
    then have "views client_id (sv_store s) c = Some (client_id cl)" by (simp add: views_def)
    from live_remove(2)[OF lv n this] have con: "um_contains (sv_current_zone s) (client_id cl)" .
    have t: "same_tables ?s s1" using same_tables_stop_client[OF stop] .
    then have i: "map_option fst (ident (sv_store s1) c) = Some (client_id cl)"
      using cl by (simp add: same_tables_def ident_apply)
    then obtain cl1 where cl1: "sv_store s1 c = Some cl1" "client_id cl1 = client_id cl" by (auto simp: ident_apply)
    obtain cur where cur: "um_at (sv_current_zone s1) (client_id cl) = Inr cur"
      using con t by (auto simp: same_tables_def um_contains_def um_at_def)
    show False
      using r stop cl1 cur by (auto simp: server_remove_client_def on_zone_def um_at_def um_contains_def Let_def
          split: option.splits if_splits)
  next
    case (Sj_packet c p)
    have "detached s0 r \<noteq> Some (Inl ex)" for s0 r by (auto simp: detached_def split: sum.split_asm option.split_asm)
    then show False using j(2) Sj_packet by (simp add: server_exec_def)
  next
    case (Sj_add c)
    then show False
      using j(2) by (auto simp: server_exec_def server_add_client_def Let_def um_at_def um_find_insert split: option.splits if_splits)
  qed (use j(2) in \<open>simp add: server_exec_def\<close>)
qed

text \<open>C1. No job of the server's strand throws, so the process is not taken down by an exception in any run:
  a client that is being added is found again, and a client that is being removed is in the tables exactly
  once, however often the server, the heart beater and the connection stop it, and in whatever order. Packet
  handlers may throw, but their exceptions end with their coroutine.\<close>

theorem server_never_throws:
  assumes reach: "server_reach token_ok shape_size gl s V" and n: "sv_next_addr s < 2 ^ 32"
  shows "server_step token_ok now s \<noteq> Some (Inl ex)"
  by (rule server_step_no_throw[OF assms])

text \<open>C14. Whenever the server's strand is idle, its table of clients holds exactly the clients that are
  connected, under their ids: a client that disconnects is forgotten, and no other client is.\<close>

theorem idle_tables_exact:
  assumes reach: "server_reach token_ok shape_size gl s V" and n: "sv_next_addr s < 2 ^ 32" and idle: "sv_strand s = []"
  shows "um_find (sv_clients s) i = Some c \<longleftrightarrow> (\<exists>cl. sv_store s c = Some cl \<and> client_id cl = i \<and> linked cl)"
proof
  have lv: "live [] (sv_current_zone s) (views client_id (sv_store s)) (views linked (sv_store s))
      (sv_next_addr s) (sv_next_id s)"
    using server_reach_live[OF reach] n idle by (simp add: live_server_def)
  note tabs = server_reach_inv[OF reach, unfolded server_inv_iff]
  have keys: "um_contains (sv_clients s) k \<longleftrightarrow> um_contains (sv_current_zone s) k" for k
    using tabs by (auto simp: um2.agree_def um.keys_def um_contains_def)
  have entry: "\<exists>cl. sv_store s a = Some cl \<and> client_id cl = k" if "um_find (sv_clients s) k = Some a" for k a
  proof -
    have "map_option fst (ident (sv_store s) a) = Some k" using tabs that by blast
    then show ?thesis by (auto simp: ident_apply)
  qed
  have known: "views linked (sv_store s) a = Some True
      \<longleftrightarrow> (\<exists>cl. sv_store s a = Some cl \<and> um_contains (sv_clients s) (client_id cl))" for a
    using live_dest(2)[OF lv, of a] keys by (auto simp: known_def views_def)
  { assume c: "um_find (sv_clients s) i = Some c"
    then obtain cl where cl: "sv_store s c = Some cl" "client_id cl = i" using entry by blast
    then have "views linked (sv_store s) c = Some True" using known[of c] c by (auto simp: um_contains_def)
    then show "\<exists>cl. sv_store s c = Some cl \<and> client_id cl = i \<and> linked cl" using cl by (simp add: views_def)
  }
  { assume "\<exists>cl. sv_store s c = Some cl \<and> client_id cl = i \<and> linked cl"
    then obtain cl where cl: "sv_store s c = Some cl" "client_id cl = i" "linked cl" by blast
    then have "um_contains (sv_clients s) i" using known[of c] by (auto simp: views_def)
    then obtain d where d: "um_find (sv_clients s) i = Some d" by (auto simp: um_contains_def)
    then obtain dl where "sv_store s d = Some dl" "client_id dl = i" using entry by blast
    then have "c = d" using ids_unique[OF lv n, of c i d] cl by (simp add: views_def)
    then show "um_find (sv_clients s) i = Some c" using d by simp
  }
qed

text \<open>Two clients connect, and the first one sends garbage: it is stopped, and its removal is pending. Then the
  removal runs.\<close>

definition leave_script :: "scripted list" where
  "leave_script = [Sc_start, Sc_accept, Sc_accept, Sc_strand, Sc_strand, Sc_bad_packet 0]"

lemma leave_script_ends:
  "case scripted_run leave_script of None \<Rightarrow> False | Some s \<Rightarrow> sv_strand s = [Sj_remove 0] \<and> sv_next_addr s = 2"
  "case scripted_run (leave_script @ [Sc_strand]) of None \<Rightarrow> False
   | Some s \<Rightarrow> sv_strand s = [] \<and> sv_next_addr s = 2 \<and> map_option linked (sv_store s 1) = Some True
       \<and> map_option client_id (sv_store s 1) = Some 2 \<and> map_option linked (sv_store s 0) = Some False"
  by code_simp+

theorem server_never_throws_witness:
  "\<exists>s V. server_reach same_string zero3 sample_glm s V \<and> sv_strand s = [Sj_remove 0]
     \<and> server_step same_string 0 s \<noteq> Some (Inl Out_of_range)"
proof -
  obtain s where s: "scripted_run leave_script = Some s" "sv_strand s = [Sj_remove 0]" "sv_next_addr s = 2"
    using leave_script_ends(1) by (auto split: option.split_asm)
  obtain V where r: "server_reach same_string zero3 sample_glm s V" using scripted_run_reach[OF s(1)] by blast
  have "sv_next_addr s < 2 ^ 32" by (simp add: s(3))
  then show ?thesis using server_never_throws[OF r] r s(2) by blast
qed

theorem idle_tables_exact_witness:
  "\<exists>s V. server_reach same_string zero3 sample_glm s V \<and> um_find (sv_clients s) 2 = Some 1
     \<and> (\<forall>i. um_find (sv_clients s) i \<noteq> Some 0)"
proof -
  obtain s where s: "scripted_run (leave_script @ [Sc_strand]) = Some s" "sv_strand s = []" "sv_next_addr s = 2"
    "map_option linked (sv_store s 1) = Some True" "map_option client_id (sv_store s 1) = Some 2"
    "map_option linked (sv_store s 0) = Some False"
    using leave_script_ends(2) by (auto split: option.split_asm)
  obtain V where r: "server_reach same_string zero3 sample_glm s V" using scripted_run_reach[OF s(1)] by blast
  have n: "sv_next_addr s < 2 ^ 32" by (simp add: s(3))
  note exact = idle_tables_exact[OF r n s(2)]
  have "um_find (sv_clients s) 2 = Some 1" using exact[of 2 1] s(4,5) by auto
  moreover have "um_find (sv_clients s) i \<noteq> Some 0" for i using exact[of i 0] s(6) by auto
  ultimately show ?thesis using r by blast
qed

end
