(* ===== verification/Server_Zones.thy ===== *)
theory Server_Zones
  imports Server_Live
begin

text \<open>
  The server and its zones agree on who is where. The server's table changes at once when a client moves,
  the zones follow when their strands run: once the pending jobs of a zone have run, its members are exactly
  the clients whose current zone it is.
\<close>

section \<open>Members once the pending jobs have run\<close>

definition member_effect :: "(addr \<Rightarrow> u32 option) \<Rightarrow> zone_job \<Rightarrow> u32 set \<Rightarrow> u32 set" where
  "member_effect ids j K =
     (case j of Job_add c \<Rightarrow> K \<union> set_option (ids c) | Job_remove c \<Rightarrow> K - set_option (ids c) | _ \<Rightarrow> K)"

primrec members :: "(addr \<Rightarrow> u32 option) \<Rightarrow> u32 set \<Rightarrow> zone_job list \<Rightarrow> u32 set" where
  "members ids K [] = K"
| "members ids K (j # js) = members ids (member_effect ids j K) js"

lemma members_append: "members ids K (xs @ ys) = members ids (members ids K xs) ys"
  by (induction xs arbitrary: K) auto

text \<open>The client a job is about, if it adds or removes one.\<close>

definition moves :: "zone_job \<Rightarrow> addr \<Rightarrow> bool" where
  "moves j c \<longleftrightarrow> j = Job_add c \<or> j = Job_remove c"

lemma members_cong: "(\<And>j c. j \<in> set js \<Longrightarrow> moves j c \<Longrightarrow> ids' c = ids c) \<Longrightarrow> members ids' K js = members ids K js"
proof (induction js arbitrary: K)
  case (Cons j js)
  have "member_effect ids' j K = member_effect ids j K"
    using Cons.prems[of j] by (auto simp: member_effect_def moves_def split: zone_job.splits)
  moreover have "members ids' (member_effect ids j K) js = members ids (member_effect ids j K) js"
    by (rule Cons.IH, rule Cons.prems) auto
  ultimately show ?case by simp
qed simp

lemma members_still: "(\<And>j c. j \<in> set js \<Longrightarrow> \<not> moves j c) \<Longrightarrow> members ids K js = K"
proof (induction js)
  case (Cons j js)
  have "member_effect ids j K = K"
    using Cons.prems[of j] by (auto simp: member_effect_def moves_def split: zone_job.splits)
  then show ?case using Cons by simp
qed simp

definition zone_ids :: "zone \<Rightarrow> u32 set" where
  "zone_ids z = {i. um_contains (zn_clients z) i}"

definition placed :: "(addr \<Rightarrow> u32 option) \<Rightarrow> (u32, u32) umap \<Rightarrow> (u32, zone) umap \<Rightarrow> bool" where
  "placed ids cur zs \<longleftrightarrow>
     (\<forall>zid z. um_find zs zid = Some z \<longrightarrow> zid \<noteq> 0
        \<and> (\<forall>j \<in> set (zn_strand z). \<forall>c. moves j c \<longrightarrow> ids c \<noteq> None)
        \<and> (\<forall>i. i \<in> members ids (zone_ids z) (zn_strand z) \<longleftrightarrow> um_find cur i = Some zid))"

definition placed_server :: "server \<Rightarrow> bool" where
  "placed_server s \<longleftrightarrow> placed (views client_id (sv_store s)) (sv_current_zone s) (sv_zones s)"

lemma placed_dest:
  assumes "placed ids cur zs" "um_find zs zid = Some z"
  shows "zid \<noteq> 0" "j \<in> set (zn_strand z) \<Longrightarrow> moves j c \<Longrightarrow> ids c \<noteq> None"
    "i \<in> members ids (zone_ids z) (zn_strand z) \<longleftrightarrow> um_find cur i = Some zid"
  using assms unfolding placed_def by blast+

text \<open>The zones' side of a step.\<close>

lemma zone_exec_members:
  assumes "zone_exec gl ti j (z, h, cs) = Some (Inr (z', h', cs'))"
  shows "zone_ids z' = member_effect (views client_id cs) j (zone_ids z)"
proof (cases j)
  case Job_tick
  then show ?thesis using assms zone_tick_frame(1)[of gl ti z h cs z' h' cs']
    by (simp add: zone_exec_def zone_ids_def member_effect_def)
next
  case (Job_add c)
  then obtain cl where "cs c = Some cl" "zn_clients z' = um_assign (client_id cl) c (zn_clients z)"
    using assms zone_add_client_frame(1)[of c z h cs z' h' cs'] by (auto simp: zone_exec_def)
  then show ?thesis
    by (auto simp: zone_ids_def member_effect_def Job_add views_def um_contains_def split: if_splits)
next
  case (Job_remove c)
  then obtain cl where "cs c = Some cl" "zn_clients z' = um_erase (client_id cl) (zn_clients z)"
    using assms zone_remove_client_frame(1)[of c z h cs z' h' cs'] by (auto simp: zone_exec_def)
  then show ?thesis
    by (auto simp: zone_ids_def member_effect_def Job_remove views_def um_contains_def split: if_splits)
next
  case (Job_packet c p)
  then have "z' = z" using assms zone_handle_packet_frame by (auto simp: zone_exec_def)
  then show ?thesis by (simp add: member_effect_def Job_packet)
qed

lemma zone_step_members:
  assumes "zone_step gl ti (z, h, cs) = Some (Inr (z', h', cs'))"
  shows "members (views client_id cs) (zone_ids z') (zn_strand z')
      = members (views client_id cs) (zone_ids z) (zn_strand z)"
    and "set (zn_strand z') \<subseteq> insert Job_tick (set (zn_strand z))"
proof -
  obtain j js where s: "zn_strand z = j # js" "zn_strand z' = js \<or> zn_strand z' = js @ [Job_tick]"
    and e: "zone_exec gl ti j (z\<lparr>zn_strand := js\<rparr>, h, cs) = Some (Inr (z', h', cs'))"
    using zone_step_strand[OF assms] by blast
  have "zone_ids (z\<lparr>zn_strand := js\<rparr>) = zone_ids z" by (simp add: zone_ids_def)
  then have "zone_ids z' = member_effect (views client_id cs) j (zone_ids z)"
    using zone_exec_members[OF e] by simp
  moreover have "members ids K [Job_tick] = K" for ids K by (simp add: member_effect_def)
  ultimately show "members (views client_id cs) (zone_ids z') (zn_strand z')
      = members (views client_id cs) (zone_ids z) (zn_strand z)"
    using s by (auto simp: members_append)
  show "set (zn_strand z') \<subseteq> insert Job_tick (set (zn_strand z))" using s by auto
qed

lemma zone_ids_post [simp]: "zone_ids (zone_post j z) = zone_ids z"
  by (simp add: zone_ids_def)

lemma placed_zone:
  assumes "placed ids cur zs" "um_find zs zid = Some z"
    and "members ids (zone_ids z') (zn_strand z') = members ids (zone_ids z) (zn_strand z)"
    and "\<And>j c. j \<in> set (zn_strand z') \<Longrightarrow> moves j c \<Longrightarrow> ids c \<noteq> None"
  shows "placed ids cur (um_assign zid z' zs)"
  unfolding placed_def
proof (intro allI impI)
  fix k y assume k: "um_find (um_assign zid z' zs) k = Some y"
  show "k \<noteq> 0 \<and> (\<forall>j\<in>set (zn_strand y). \<forall>c. moves j c \<longrightarrow> ids c \<noteq> None)
      \<and> (\<forall>i. i \<in> members ids (zone_ids y) (zn_strand y) \<longleftrightarrow> um_find cur i = Some k)"
  proof (cases "k = zid")
    case True
    then have "y = z'" using k by simp
    then show ?thesis using placed_dest[OF assms(1,2)] assms(3,4) True by auto
  next
    case False
    then show ?thesis using placed_dest[OF assms(1), of k y] k by auto
  qed
qed

text \<open>A step of the server: it posts jobs to zones and changes the table to match.\<close>

definition keeps_place ::
  "(addr \<Rightarrow> u32 option) \<Rightarrow> (u32, u32) umap \<Rightarrow> (u32, u32) umap \<Rightarrow> u32 \<Rightarrow> zone_job list \<Rightarrow> bool" where
  "keeps_place ids cur cur' k extra \<longleftrightarrow>
     (\<forall>j \<in> set extra. \<forall>c. moves j c \<longrightarrow> ids c \<noteq> None)
     \<and> members ids {i. um_find cur i = Some k} extra = {i. um_find cur' i = Some k}"

lemma placed_update:
  assumes p: "placed ids cur zs"
    and step: "\<And>k y. um_find zs' k = Some y \<Longrightarrow> \<exists>z extra. um_find zs k = Some z \<and> zone_ids y = zone_ids z
        \<and> zn_strand y = zn_strand z @ extra \<and> (k \<noteq> 0 \<longrightarrow> keeps_place ids cur cur' k extra)"
  shows "placed ids cur' zs'"
  unfolding placed_def
proof (intro allI impI)
  fix k y assume "um_find zs' k = Some y"
  then obtain z extra where z: "um_find zs k = Some z" "zone_ids y = zone_ids z" "zn_strand y = zn_strand z @ extra"
    and keep: "k \<noteq> 0 \<longrightarrow> keeps_place ids cur cur' k extra"
    using step by blast
  note old = placed_dest[OF p z(1)]
  have "members ids (zone_ids z) (zn_strand z) = {i. um_find cur i = Some k}" using old(3) by blast
  then have "members ids (zone_ids y) (zn_strand y) = {i. um_find cur' i = Some k}"
    using keep old(1) by (simp add: z members_append keeps_place_def)
  moreover have "\<forall>j\<in>set (zn_strand y). \<forall>c. moves j c \<longrightarrow> ids c \<noteq> None"
    using old(2) keep old(1) by (auto simp: z(3) keeps_place_def)
  ultimately show "k \<noteq> 0 \<and> (\<forall>j\<in>set (zn_strand y). \<forall>c. moves j c \<longrightarrow> ids c \<noteq> None)
      \<and> (\<forall>i. i \<in> members ids (zone_ids y) (zn_strand y) \<longleftrightarrow> um_find cur' i = Some k)"
    using old(1) by blast
qed

lemma keeps_place_same: "(\<And>i. um_find cur' i = Some k \<longleftrightarrow> um_find cur i = Some k) \<Longrightarrow> keeps_place ids cur cur' k []"
  by (simp add: keeps_place_def)

lemma keeps_place_add:
  "ids c = Some i \<Longrightarrow> keeps_place ids cur (um_assign i k cur) k [Job_add c]"
  by (auto simp: keeps_place_def member_effect_def moves_def)

lemma keeps_place_remove:
  "ids c = Some i \<Longrightarrow> (\<And>j. um_find cur' j = Some k \<longleftrightarrow> j \<noteq> i \<and> um_find cur j = Some k)
     \<Longrightarrow> keeps_place ids cur cur' k [Job_remove c]"
  by (auto simp: keeps_place_def member_effect_def moves_def)

lemma placed_enter:
  assumes p: "placed ids cur zs" and i: "ids c = Some i" "um_find cur i = Some old" "old \<noteq> nxt"
    and z1: "if old \<noteq> 0 then um_find zs old = Some z \<and> zs1 = um_assign old (zone_post (Job_remove c) z) zs else zs1 = zs"
    and z2: "um_find zs1 nxt = Some z'"
  shows "placed ids (um_assign i nxt cur) (um_assign nxt (zone_post (Job_add c) z') zs1)"
proof (rule placed_update[OF p])
  fix k y assume y: "um_find (um_assign nxt (zone_post (Job_add c) z') zs1) k = Some y"
  have z': "um_find zs nxt = Some z'" using z1 z2 i(3) by (auto split: if_splits)
  consider "k = nxt" | "k = old" "old \<noteq> 0" "k \<noteq> nxt" | "k \<noteq> nxt" "k \<noteq> old \<or> old = 0" by blast
  then show "\<exists>z extra. um_find zs k = Some z \<and> zone_ids y = zone_ids z \<and> zn_strand y = zn_strand z @ extra
      \<and> (k \<noteq> 0 \<longrightarrow> keeps_place ids cur (um_assign i nxt cur) k extra)"
  proof cases
    case 1
    then have "y = zone_post (Job_add c) z'" using y by simp
    then show ?thesis using 1 z' keeps_place_add[of ids c i cur nxt] i(1) by auto
  next
    case 2
    then have "y = zone_post (Job_remove c) z" using y z1 by simp
    moreover have "keeps_place ids cur (um_assign i nxt cur) k [Job_remove c]"
      by (rule keeps_place_remove[of ids c i, OF i(1)]) (use 2 in auto)
    ultimately show ?thesis using 2 z1 by auto
  next
    case 3
    then have "um_find zs k = Some y" using y z1 by (auto split: if_splits)
    moreover have "k \<noteq> 0 \<longrightarrow> keeps_place ids cur (um_assign i nxt cur) k []"
      using 3 i(2) by (intro impI keeps_place_same) auto
    ultimately show ?thesis by auto
  qed
qed

lemma placed_remove:
  assumes p: "placed ids cur zs" and i: "ids c = Some i" "um_find cur i = Some old"
    and z: "if um_contains zs old then um_find zs old = Some z \<and> zs' = um_assign old (zone_post (Job_remove c) z) zs
      else zs' = zs"
  shows "placed ids (um_erase i cur) zs'"
proof (rule placed_update[OF p])
  fix k y assume y: "um_find zs' k = Some y"
  show "\<exists>z extra. um_find zs k = Some z \<and> zone_ids y = zone_ids z \<and> zn_strand y = zn_strand z @ extra
      \<and> (k \<noteq> 0 \<longrightarrow> keeps_place ids cur (um_erase i cur) k extra)"
  proof (cases "k = old")
    case True
    then have "um_contains zs old" using y z by (auto simp: um_contains_def split: if_splits)
    then have "y = zone_post (Job_remove c) z" "um_find zs k = Some z" using y z True by auto
    moreover have "keeps_place ids cur (um_erase i cur) k [Job_remove c]"
      by (rule keeps_place_remove[of ids c i, OF i(1)]) auto
    ultimately show ?thesis by auto
  next
    case False
    then have "um_find zs k = Some y" using y z by (auto split: if_splits)
    moreover have "keeps_place ids cur (um_erase i cur) k []"
      by (rule keeps_place_same) (use False i(2) in auto)
    ultimately show ?thesis by auto
  qed
qed

lemma placed_add:
  assumes "placed ids cur zs"
  shows "placed ids (um_insert i 0 cur) zs"
proof (rule placed_update[OF assms])
  fix k y assume y: "um_find zs k = Some y"
  have "k \<noteq> 0 \<longrightarrow> keeps_place ids cur (um_insert i 0 cur) k []"
    by (auto intro!: keeps_place_same simp: um_find_insert split: if_splits)
  then show "\<exists>z extra. um_find zs k = Some z \<and> zone_ids y = zone_ids z \<and> zn_strand y = zn_strand z @ extra
      \<and> (k \<noteq> 0 \<longrightarrow> keeps_place ids cur (um_insert i 0 cur) k extra)"
    using y by auto
qed

lemma placed_packet:
  assumes "placed ids cur zs" "um_find zs zid = Some z"
  shows "placed ids cur (um_assign zid (zone_post (Job_packet c p) z) zs)"
  using placed_dest(2)[OF assms]
  by (intro placed_zone[OF assms]) (auto simp: members_append member_effect_def moves_def)

lemma placed_ids:
  assumes "placed ids cur zs" "\<And>c. ids c \<noteq> None \<Longrightarrow> ids' c = ids c"
  shows "placed ids' cur zs"
proof -
  have "members ids' K (zn_strand z) = members ids K (zn_strand z)" if "um_find zs zid = Some z" for zid z K
    by (rule members_cong) (use placed_dest(2)[OF assms(1) that] assms(2) in blast)
  then show ?thesis
    using assms unfolding placed_def by (metis option.distinct(1))
qed

section \<open>All runs\<close>

lemma views_client_id: "views client_id cs = map_option fst \<circ> ident cs"
  by (simp add: fun_eq_iff views_def ident_apply option.map_comp comp_def)

lemma placed_server_same:
  assumes "placed_server s" "same_tables s s'"
  shows "placed_server s'"
proof -
  have "views client_id (sv_store s') = views client_id (sv_store s)"
    using assms(2) by (simp only: views_client_id same_tables_def)
  then show ?thesis using assms by (simp add: placed_server_def same_tables_def)
qed

lemma placed_server_enter:
  assumes "placed_server s" "handle_player_enter_zone_request c location s = Some (Inr s')"
  shows "placed_server s'"
  using assms(2)
proof (cases rule: enter_zone_cases)
  case (moved cl cur nxt s1 s2)
  let ?ids = "views client_id (sv_store s)"
  have i: "?ids c = Some (client_id cl)" using moved(1) by (simp add: views_def)
  obtain z where z: "if cur \<noteq> 0 then um_find (sv_zones s) cur = Some z
      \<and> s1 = s\<lparr>sv_zones := um_assign cur (zone_post (Job_remove c) z) (sv_zones s)\<rparr> else s1 = s"
    using moved(4) by (auto simp: on_zone_Inr split: if_splits)
  obtain z' where z': "um_find (sv_zones s1) nxt = Some z'"
    "s2 = s1\<lparr>sv_zones := um_assign nxt (zone_post (Job_add c) z') (sv_zones s1)\<rparr>"
    using moved(5) by (auto simp: on_zone_Inr)
  have z1: "if cur \<noteq> 0 then um_find (sv_zones s) cur = Some z
      \<and> sv_zones s1 = um_assign cur (zone_post (Job_remove c) z) (sv_zones s) else sv_zones s1 = sv_zones s"
    using z by (auto split: if_splits)
  have "placed ?ids (um_assign (client_id cl) nxt (sv_current_zone s)) (sv_zones s2)"
    using placed_enter[OF assms(1)[unfolded placed_server_def] i moved(2,3) z1 z'(1)] by (simp add: z'(2))
  moreover have "sv_current_zone s2 = sv_current_zone s" "sv_store s2 = sv_store s"
    using z z'(2) by (auto split: if_splits)
  ultimately have "placed_server (s2\<lparr>sv_current_zone := um_assign (client_id cl) nxt (sv_current_zone s2)\<rparr>)"
    by (simp add: placed_server_def)
  then show ?thesis using placed_server_same same_tables_send[OF moved(6)] by blast
qed (use assms(1) placed_server_same same_tables_stop_client in auto)

lemma placed_server_packet:
  assumes "placed_server s" "server_handle_packet token_ok c p s = Some (Inr s')"
  shows "placed_server s'"
  using assms(2)
proof (cases rule: packet_cases)
  case (join req)
  from join(2) show ?thesis
  proof (cases rule: join_start_cases)
    case stopped
    then show ?thesis using assms(1) placed_server_same same_tables_stop_client by blast
  next
    case (verified cl n username token)
    then have "views client_id (sv_store s') = views client_id (sv_store s)" "sv_zones s' = sv_zones s"
        "sv_current_zone s' = sv_current_zone s"
      by (auto simp: sv_set_client_def views_def intro!: ext)
    then show ?thesis using assms(1) by (simp add: placed_server_def)
  qed
next
  case (routed cl zid)
  then obtain z where "um_find (sv_zones s) zid = Some z"
    "s' = s\<lparr>sv_zones := um_assign zid (zone_post (Job_packet c p) z) (sv_zones s)\<rparr>"
    by (auto simp: on_zone_Inr)
  then show ?thesis using assms(1) placed_packet by (simp add: placed_server_def)
next
  case stopped
  then show ?thesis using assms(1) placed_server_same same_tables_stop_client by blast
next
  case (sent q)
  then show ?thesis using assms(1) placed_server_same same_tables_send by blast
next
  case (enter location)
  then show ?thesis using assms(1) placed_server_enter by blast
qed (use assms(1) in simp)

lemma placed_server_exec:
  assumes "placed_server s" "server_exec token_ok now j s = Some (Inr s')"
  shows "placed_server s'"
proof (cases j)
  case (Sj_packet c p)
  then have "s' = s \<or> server_handle_packet token_ok c p s = Some (Inr s')"
    using assms(2) detached_Inr by (simp add: server_exec_def)
  then show ?thesis using assms(1) placed_server_packet by blast
next
  case (Sj_add c)
  then have "server_add_client c now s = Some (Inr s')" using assms(2) by (simp add: server_exec_def)
  then show ?thesis
  proof (cases rule: add_client_cases)
    case (1 cl t d x)
    have "placed_server t" using assms(1) placed_add by (simp add: placed_server_def 1(2))
    moreover have "same_tables t s'"
      using same_tables_set_client[OF 1(3)] by (simp add: 1(4) client_start_def)
    ultimately show ?thesis by (rule placed_server_same)
  qed
next
  case (Sj_remove c)
  then have "server_remove_client c s = Some (Inr s')" using assms(2) by (simp add: server_exec_def)
  then show ?thesis
  proof (cases rule: remove_client_cases)
    case (1 s1 cl zid s2)
    have p: "placed_server s1" using assms(1) placed_server_same same_tables_stop_client[OF 1(1)] by blast
    have i: "views client_id (sv_store s1) c = Some (client_id cl)" using 1(2) by (simp add: views_def)
    obtain z where "if um_contains (sv_zones s1) zid then um_find (sv_zones s1) zid = Some z
        \<and> sv_zones s2 = um_assign zid (zone_post (Job_remove c) z) (sv_zones s1) else sv_zones s2 = sv_zones s1"
      using 1(4) by (auto simp: on_zone_Inr split: if_splits)
    from placed_remove[OF p[unfolded placed_server_def] i 1(3) this]
    have "placed (views client_id (sv_store s1)) (um_erase (client_id cl) (sv_current_zone s1)) (sv_zones s2)" .
    moreover have "sv_current_zone s2 = sv_current_zone s1" "sv_store s2 = sv_store s1"
      using 1(4) by (auto simp: on_zone_Inr split: if_splits)
    ultimately show ?thesis by (simp add: placed_server_def 1(5))
  qed
next
  case Sj_cleanup
  then have "server_cleanup s = Some s'" using assms(2) by (simp add: server_exec_def)
  then show ?thesis by (cases rule: cleanup_cases) (simp add: placed_server_def placed_def)
qed

lemma placed_server_zone:
  assumes "placed_server s" "server_zone_step gl ti zid s = Some (Inr s')"
  shows "placed_server s'"
  using assms(2)
proof (cases rule: server_zone_step_cases)
  case (1 z z' h' cs')
  have "ident cs' = ident (sv_store s)" using cred.zone_step_views[OF 1(2)] by (simp add: ident_def)
  then have "views client_id cs' = views client_id (sv_store s)" by (simp only: views_client_id)
  moreover have "placed (views client_id (sv_store s)) (sv_current_zone s) (um_assign zid z' (sv_zones s))"
    using assms(1) unfolding placed_server_def
  proof (rule placed_zone[OF _ 1(1) zone_step_members(1)[OF 1(2)]])
    fix j c assume "j \<in> set (zn_strand z')" "moves j c"
    then have "j \<in> set (zn_strand z)" using zone_step_members(2)[OF 1(2)] by (auto simp: moves_def)
    then show "views client_id (sv_store s) c \<noteq> None"
      using placed_dest(2) assms(1) 1(1) \<open>moves j c\<close> unfolding placed_server_def by blast
  qed
  ultimately show ?thesis by (simp add: placed_server_def 1(3))
qed

lemma server_reach_placed: "server_reach token_ok shape_size gl s V \<Longrightarrow> placed_server s"
proof (induction rule: server_reach.induct)
  case (created files s)
  from server_init_tables[OF this] show ?case
    by (auto simp: placed_server_def placed_def zone_ids_def um_contains_def)
next
  case (started s V)
  then show ?case by (simp add: placed_server_def server_start_def)
next
  case (stopped s V)
  then show ?case by (simp add: placed_server_def server_stop_def sv_post_def)
next
  case (accepted s V outcome s')
  obtain s1 where s1: "s1 = s \<or> s1 = add_client_deferred True s" and s': "s' = s1 \<or> s' = s1\<lparr>sv_accepting := False\<rparr>"
    using accept_cases[OF accepted.hyps(2,3)] by blast
  have "views client_id (sv_store s) (sv_next_addr s) = None"
  proof -
    have "ident (sv_store s) c \<noteq> None \<Longrightarrow> c < sv_next_addr s" for c
      using server_reach_inv[OF accepted.hyps(1)] unfolding server_inv_iff by blast
    then show ?thesis by (metis comp_apply less_irrefl option.map_disc_iff views_client_id)
  qed
  then have "views client_id ((sv_store s)(sv_next_addr s \<mapsto> cl)) c = views client_id (sv_store s) c"
    if "views client_id (sv_store s) c \<noteq> None" for cl c
    using that by (auto simp: views_fun_upd)
  then have "placed_server (add_client_deferred True s)"
    using placed_ids accepted.IH by (simp add: placed_server_def add_client_deferred_def Let_def sv_post_def)
  then have "placed_server s1" using s1 accepted.IH by blast
  then show ?case using s' by (auto simp: placed_server_def)
next
  case (profiled s V ec now s')
  then have "same_tables s s'" by (auto simp: profiler_round_def same_tables_def split: if_splits)
  then show ?case using profiled placed_server_same by blast
next
  case (received s V c bytes p now s')
  then show ?case using same_tables_packet_received placed_server_same by blast
next
  case (client s V c cl evs cl')
  then have "same_tables s (sv_set_client c cl' s)" by (intro same_tables_set_client) (auto simp: client_may_def)
  then show ?case using same_tables_trans[OF _ same_tables_events] placed_server_same client.IH by blast
next
  case (strand s V now s')
  from strand.hyps(2) obtain j js where j: "server_exec token_ok now j (s\<lparr>sv_strand := js\<rparr>) = Some (Inr s')"
    by (rule server_step_next)
  have "placed_server (s\<lparr>sv_strand := js\<rparr>)" using strand.IH by (simp add: placed_server_def)
  then show ?case using placed_server_exec[OF _ j] by blast
next
  case (joined s V db i s')
  then obtain c js where f: "join_request_finish shape_size db c (s\<lparr>sv_joins := js\<rparr>) = Some s'"
    by (auto simp: join_resume_def split: if_splits)
  have "same_tables s (s\<lparr>sv_joins := js\<rparr>)" by (simp add: same_tables_def)
  then show ?case using same_tables_trans same_tables_join_finish[OF f] placed_server_same joined.IH by blast
next
  case (zone s V ti zid s')
  then show ?case using placed_server_zone by blast
next
  case (waited s V ev a s')
  then have "same_tables s s'" by (auto simp: same_tables_def elim: machine_step_cases)
  then show ?case using waited.IH placed_server_same by blast
qed

text \<open>C2. The server and its zones agree on who is where, although a zone learns only when its strand runs. Once
  the pending jobs of a zone have run, its members will be exactly the clients whose entry in the server's
  table is this zone; so if no client is about to enter or leave it, its members are those now, and no client
  is a member of two such zones.\<close>

theorem zones_agree_with_server:
  assumes "server_reach token_ok shape_size gl s V" and "um_find (sv_zones s) zid = Some z"
  shows "(i \<in> members (views client_id (sv_store s)) (zone_ids z) (zn_strand z)
      \<longleftrightarrow> um_find (sv_current_zone s) i = Some zid)
    \<and> ((\<forall>j \<in> set (zn_strand z). \<forall>c. \<not> moves j c)
      \<longrightarrow> (um_contains (zn_clients z) i \<longleftrightarrow> um_find (sv_current_zone s) i = Some zid))"
proof -
  note agree = placed_dest(3)[OF server_reach_placed[OF assms(1), unfolded placed_server_def] assms(2), of i]
  have "um_contains (zn_clients z) i \<longleftrightarrow> um_find (sv_current_zone s) i = Some zid"
    if "\<forall>j \<in> set (zn_strand z). \<forall>c. \<not> moves j c"
    using agree members_still[of "zn_strand z"] that by (auto simp: zone_ids_def)
  then show ?thesis using agree by blast
qed

theorem zones_agree_with_server_witness:
  "\<exists>s V z. server_reach same_string zero3 sample_glm s V \<and> um_find (sv_zones s) 1 = Some z
     \<and> um_find (sv_current_zone s) 1 = Some 1 \<and> um_contains (zn_clients z) 1"
proof -
  obtain s V z s' where r: "server_reach same_string zero3 sample_glm s V" "um_find (sv_zones s) 1 = Some z"
    "zn_strand z = [Job_tick, Job_packet 0 In_SkillMeleeAttack]" "um_find (sv_current_zone s) 1 = Some 1"
    "um_find (sv_clients s) 1 = Some 0" "zn_clients z \<noteq> []" "server_cleanup s = Some s'"
    by (rule scripted_state)
  have "\<forall>j \<in> set (zn_strand z). \<forall>c. \<not> moves j c" by (simp add: r(3) moves_def)
  then show ?thesis using zones_agree_with_server[OF r(1,2), of 1] r(1,2,4) by blast
qed

end
