(* ===== verification/Server_Typed.thy ===== *)
theory Server_Typed
  imports Typing_Jobs Server_Zones
begin

text \<open>
  The typing of the heap, of the zones and of the clients' players holds in every state the server can
  reach. So the jobs of the zones return, but for the reasons that \<open>job_defined\<close> names.
\<close>

section \<open>The invariant\<close>

definition zone_typed :: "(addr \<rightharpoonup> cls) \<Rightarrow> clients \<Rightarrow> zone \<Rightarrow> bool" where
  "zone_typed T cs z \<longleftrightarrow> subworld_typed T (zn_subworld z) \<and> snd ` set (zn_clients z) \<subseteq> dom cs"

definition server_typed :: "server \<Rightarrow> bool" where
  "server_typed s \<longleftrightarrow> world_typed (sv_world s) \<and> store_typed (typing (wd_heap (sv_world s))) (sv_store s)
     \<and> (\<forall>zid z. um_find (sv_zones s) zid = Some z \<longrightarrow> zone_typed (typing (wd_heap (sv_world s))) (sv_store s) z)"

text \<open>Nothing happens to the world; zones may get jobs or go, clients may come, and players may be let go.\<close>

definition calm :: "server \<Rightarrow> server \<Rightarrow> bool" where
  "calm s s' \<longleftrightarrow> sv_world s' = sv_world s
     \<and> (\<forall>zid z'. um_find (sv_zones s') zid = Some z' \<longrightarrow> (\<exists>z. um_find (sv_zones s) zid = Some z
          \<and> zn_subworld z' = zn_subworld z \<and> zn_clients z' = zn_clients z))
     \<and> (\<forall>c pl. client_player (sv_store s') c = Some pl \<longrightarrow> client_player (sv_store s) c = Some pl)
     \<and> dom (sv_store s) \<subseteq> dom (sv_store s')"

lemma calm_refl [simp]: "calm s s"
  by (simp add: calm_def)

lemma calm_trans: "calm s s' \<Longrightarrow> calm s' s'' \<Longrightarrow> calm s s''"
  unfolding calm_def by (metis subset_trans)

lemma server_typed_calm:
  assumes "server_typed s" "calm s s'"
  shows "server_typed s'"
  unfolding server_typed_def
proof (intro conjI allI impI)
  have w: "sv_world s' = sv_world s" using assms(2) by (simp add: calm_def)
  show "world_typed (sv_world s')" using assms(1) w by (simp add: server_typed_def)
  show "store_typed (typing (wd_heap (sv_world s'))) (sv_store s')"
    using assms w unfolding server_typed_def store_typed_def calm_def by metis
  fix zid z' assume "um_find (sv_zones s') zid = Some z'"
  then obtain z where "um_find (sv_zones s) zid = Some z" "zn_subworld z' = zn_subworld z" "zn_clients z' = zn_clients z"
    using assms(2) unfolding calm_def by blast
  then show "zone_typed (typing (wd_heap (sv_world s'))) (sv_store s') z'"
    using assms w unfolding server_typed_def zone_typed_def calm_def by (metis subset_trans)
qed

section \<open>What is calm\<close>

lemma client_player_upd:
  "client_player (cs(c \<mapsto> cl)) d = (if d = c then cl_player cl else client_player cs d)"
  by (simp add: client_player_def)

lemma calm_fields:
  "sv_world s' = sv_world s \<Longrightarrow> sv_zones s' = sv_zones s \<Longrightarrow> sv_store s' = sv_store s \<Longrightarrow> calm s s'"
  by (simp add: calm_def)

lemma calm_set_client:
  assumes "sv_store s c = Some cl" "cl_player cl' = cl_player cl"
  shows "calm s (sv_set_client c cl' s)"
proof -
  have "client_player (sv_store s) c = cl_player cl" using assms(1) by (simp add: client_player_def)
  then show ?thesis using assms(2) by (auto simp: calm_def sv_set_client_def client_player_upd split: if_splits)
qed

lemma calm_post [simp]: "calm s (sv_post j s)"
  by (rule calm_fields) (simp_all add: sv_post_def)

lemma calm_events [simp]: "calm s (sv_client_events c evs s)"
proof -
  have "calm s (fold (\<lambda>ev s. case ev of Disconnected \<Rightarrow> remove_client_deferred c s | _ \<Rightarrow> s) evs s)"
    by (rule fold_invariant[where P = "calm s"])
      (auto simp: remove_client_deferred_def intro: calm_trans split: conn_event.split)
  then show ?thesis by (simp add: sv_client_events_def)
qed

lemma calm_stop_client:
  assumes "sv_stop_client c s = Some s'"
  shows "calm s s'"
proof -
  obtain cl where cl: "sv_store s c = Some cl" using assms by (auto simp: sv_stop_client_def)
  obtain cl' evs where stop: "client_stop cl = (cl', evs)" by fastforce
  then have s': "s' = sv_client_events c evs (sv_set_client c cl' s)" using assms cl by (simp add: sv_stop_client_def)
  have "cl_player cl' = cl_player cl" using client_may_stop[OF stop] by (simp add: client_may_def)
  then show ?thesis unfolding s' using calm_trans[OF calm_set_client[OF cl] calm_events] by blast
qed

lemma calm_send:
  assumes "sv_send c p s = Some s'"
  shows "calm s s'"
proof -
  obtain cs where cs: "send_to c p (sv_store s) = Some cs" and s': "s' = s\<lparr>sv_store := cs\<rparr>"
    using assms by (auto simp: sv_send_def)
  from views_player[OF plr.views_send_to[OF cs]] show ?thesis by (simp add: calm_def s')
qed

lemma calm_on_zone_post:
  assumes "on_zone zid (zone_post j) s = Inr s'"
  shows "calm s s'"
  using assms by (auto simp: on_zone_Inr calm_def split: if_splits)

lemmas calm_steps = calm_stop_client calm_send calm_on_zone_post

lemma calm_exec:
  assumes "server_exec token_ok now j s = Some (Inr s')"
  shows "calm s s'"
proof (cases j)
  case (Sj_add c)
  then have "server_add_client c now s = Some (Inr s')" using assms by (simp add: server_exec_def)
  then show ?thesis
  proof (cases rule: add_client_cases)
    case (1 cl t d x)
    have "calm s t" by (rule calm_fields) (simp_all add: 1(2))
    moreover have "calm t s'" unfolding 1(4) by (rule calm_set_client[OF 1(3)]) (simp add: client_start_def)
    ultimately show ?thesis by (rule calm_trans)
  qed
next
  case (Sj_remove c)
  then have "server_remove_client c s = Some (Inr s')" using assms by (simp add: server_exec_def)
  then show ?thesis
  proof (cases rule: remove_client_cases)
    case (1 s1 cl zid s2)
    have "calm s1 s2" using 1(4) calm_on_zone_post by (auto split: if_splits)
    moreover have "calm s2 s'" by (rule calm_fields) (simp_all add: 1(5))
    ultimately show ?thesis using calm_trans calm_stop_client[OF 1(1)] by blast
  qed
next
  case Sj_cleanup
  then have "server_cleanup s = Some s'" using assms by (simp add: server_exec_def)
  then show ?thesis
  proof (cases rule: cleanup_cases)
    case (1 s1)
    have "calm s s1" by (rule fold_opt_invariant[OF 1(1), where P = "calm s"]) (auto intro: calm_trans calm_stop_client)
    moreover have "calm s1 s'" by (simp add: 1(2) calm_def)
    ultimately show ?thesis by (rule calm_trans)
  qed
next
  case (Sj_packet c p)
  then have "s' = s \<or> server_handle_packet token_ok c p s = Some (Inr s')"
    using assms detached_Inr by (simp add: server_exec_def)
  moreover have "calm s s'" if "server_handle_packet token_ok c p s = Some (Inr s')"
    using that
  proof (cases rule: packet_cases)
    case (join req)
    from join(2) show ?thesis
    proof (cases rule: join_start_cases)
      case (verified cl n username token)
      have "calm s (sv_set_client c (cl\<lparr>is_authenticated := True\<rparr>) s)" by (rule calm_set_client[OF verified(1)]) simp
      moreover have "calm (sv_set_client c (cl\<lparr>is_authenticated := True\<rparr>) s) s'"
        by (rule calm_fields) (simp_all add: verified(2))
      ultimately show ?thesis by (rule calm_trans)
    qed (rule calm_stop_client)
  next
    case (enter location)
    then show ?thesis
    proof (cases rule: enter_zone_cases)
      case (moved cl cur nxt s1 s2)
      have "calm s s1" using moved(4) calm_on_zone_post by (auto split: if_splits)
      moreover have "calm s1 s2" by (rule calm_on_zone_post[OF moved(5)])
      moreover have "calm s2 (s2\<lparr>sv_current_zone := um_assign (client_id cl) nxt (sv_current_zone s2)\<rparr>)"
        by (rule calm_fields) simp_all
      ultimately show ?thesis using calm_send[OF moved(6)] calm_trans by blast
    qed (auto intro: calm_stop_client)
  qed (auto intro: calm_steps)
  ultimately show ?thesis by auto
qed

section \<open>What changes the world\<close>

lemma subworld_typed_mono:
  assumes "T \<subseteq>\<^sub>m T'" "subworld_typed T sw"
  shows "subworld_typed T' sw"
proof -
  have T: "T a = Some k \<Longrightarrow> T' a = Some k" for a k using assms(1) by (auto simp: map_le_def dom_def)
  have "entity_ref T i a \<Longrightarrow> entity_ref T' i a" for i a using T by (auto simp: entity_ref_def)
  then show ?thesis using assms(2) T unfolding subworld_typed_def by blast
qed

lemma store_typed_mono: "T \<subseteq>\<^sub>m T' \<Longrightarrow> store_typed T cs \<Longrightarrow> store_typed T' cs"
  unfolding store_typed_def player_ref_def map_le_def dom_def by (metis (mono_tags, lifting) mem_Collect_eq option.distinct(1))

lemma server_typed_world:
  assumes "server_typed s" "world_typed w" "typing (wd_heap (sv_world s)) \<subseteq>\<^sub>m typing (wd_heap w)"
  shows "server_typed (s\<lparr>sv_world := w\<rparr>)"
  using assms(1,2) store_typed_mono[OF assms(3)] subworld_typed_mono[OF assms(3)]
  by (auto simp: server_typed_def zone_typed_def)

text \<open>A player that is loaded for a client.\<close>

lemma server_typed_player:
  assumes "server_typed s" "sv_store s c = Some cl" "\<forall>pl. player = Some pl \<longrightarrow> player_ref (typing (wd_heap (sv_world s))) pl"
  shows "server_typed (sv_set_client c (cl\<lparr>cl_player := player\<rparr>) s)"
proof -
  have "zone_typed T (sv_store (sv_set_client c (cl\<lparr>cl_player := player\<rparr>) s)) z" if "zone_typed T (sv_store s) z" for T z
    using that unfolding zone_typed_def by (auto simp: sv_set_client_def)
  then show ?thesis
    using assms by (auto simp: server_typed_def store_typed_def sv_set_client_def client_player_upd)
qed

lemma server_typed_join:
  assumes s: "server_typed s" and join: "join_request_finish sz db c s = Some s'"
  shows "server_typed s'"
proof -
  have w: "world_typed (sv_world s)" using s by (simp add: server_typed_def)
  from join show ?thesis
  proof (cases rule: join_finish_cases)
    case same
    then show ?thesis using s by simp
  next
    case stopped
    then show ?thesis using server_typed_calm[OF s calm_stop_client] by blast
  next
    case (threw w' ex)
    then show ?thesis using server_typed_world[OF s] typed_player_load[OF w threw(2)] by simp
  next
    case (loaded w' player cl)
    note t = typed_player_load[OF w loaded(3)]
    have "server_typed (s\<lparr>sv_world := w'\<rparr>)" using server_typed_world[OF s] t by simp
    then have "server_typed (sv_set_client c (cl\<lparr>cl_player := player\<rparr>) (s\<lparr>sv_world := w'\<rparr>))"
      using server_typed_player[of "s\<lparr>sv_world := w'\<rparr>"] loaded(1) t by simp
    then show ?thesis using loaded(2) server_typed_calm calm_stop_client calm_send by blast
  qed
qed

text \<open>The machine of an entity.\<close>

lemma machine_event_typed:
  assumes "machine_typed sm" "machine_event ev sm = Some sm'"
  shows "machine_typed sm'"
proof (cases ev)
  case (Wait_begin t)
  then show ?thesis
    using assms by (auto simp: machine_event_def sm_begin_wait_def set_phase_def machine_typed_def split: option.splits if_splits)
next
  case (Wait_expire t now)
  then show ?thesis
    using assms by (auto simp: machine_event_def sm_expire_def set_phase_def machine_typed_def split: option.splits if_splits)
next
  case (Wait_resume t)
  then show ?thesis using assms machine_typed_resume[of sm t sm'] by (auto simp: machine_event_def)
qed

lemma world_typed_retyped:
  assumes "world_typed w" "retyped (wd_heap w) h"
  shows "world_typed (w\<lparr>wd_heap := h\<rparr>)"
proof -
  have "h a \<noteq> None \<longleftrightarrow> wd_heap w a \<noteq> None" for a
    using assms(2) typing_None[of h a] typing_None[of "wd_heap w" a] by (simp add: retyped_def)
  then show ?thesis using assms by (simp add: world_typed_def retyped_def)
qed

lemma server_typed_machine:
  assumes s: "server_typed s" and step: "server_machine_step ev a s = Some s'"
  shows "server_typed s'"
  using step
proof (cases rule: machine_step_cases)
  case (1 e sm)
  have w: "world_typed (sv_world s)" using s by (simp add: server_typed_def)
  then have h: "heap_typed (wd_heap (sv_world s))" by (simp add: world_typed_def)
  have "machine_typed sm"
    using machine_event_typed[OF _ 1(2)] heap_typed_entity(1)[OF h 1(1)] by (simp add: entity_typed_def)
  then have r: "retyped (wd_heap (sv_world s)) (set_entity a (e\<lparr>state_machine := sm\<rparr>) (wd_heap (sv_world s)))"
    using heap_typed_entity(1)[OF h 1(1)] by (intro retyped_set_entity[OF h 1(1)]) (simp_all add: entity_typed_def)
  show ?thesis
    unfolding 1(3) by (rule server_typed_world[OF s world_typed_retyped[OF w r]]) (use r in \<open>simp add: retyped_def\<close>)
qed

lemma server_typed_zone_step:
  assumes s: "server_typed s" and step: "server_zone_step gl ti zid s = Some (Inr s')"
  shows "server_typed s'"
  using step
proof (cases rule: server_zone_step_cases)
  case (1 z z' h' cs')
  let ?h = "wd_heap (sv_world s)"
  have w: "world_typed (sv_world s)" and players: "store_typed (typing ?h) (sv_store s)"
    and z: "zone_typed (typing ?h) (sv_store s) z"
    using s 1(1) by (auto simp: server_typed_def)
  then have h: "heap_typed ?h" by (simp add: world_typed_def)
  obtain j js where exec: "zone_exec gl ti j (z\<lparr>zn_strand := js\<rparr>, ?h, sv_store s) = Some (Inr (z', h', cs'))"
    using 1(2) by (auto simp: zone_step_def split: list.splits)
  have t: "retyped ?h h' \<and> subworld_typed (typing ?h) (zn_subworld z') \<and> snd ` set (zn_clients z') \<subseteq> dom (sv_store s)
    \<and> client_player cs' = client_player (sv_store s) \<and> dom cs' = dom (sv_store s)"
    using typed_zone_exec[OF exec h _ _ players] z by (simp add: zone_typed_def)
  then have w': "world_typed ((sv_world s)\<lparr>wd_heap := h'\<rparr>)" "typing h' = typing ?h"
    using world_typed_retyped[OF w] by (simp_all add: retyped_def)
  have p': "store_typed (typing ?h) cs'" using players t by (simp add: store_typed_def)
  show ?thesis
    using s t w' p' by (auto simp: 1(3) server_typed_def zone_typed_def split: if_splits)
qed

section \<open>All runs\<close>

lemma server_typed_created:
  assumes "server_init sz files (server_new empty_world) = Some (Inr s)"
  shows "server_typed s"
proof -
  let ?P = "\<lambda>s. sv_world s = empty_world \<and> sv_store s = Map.empty \<and>
    (\<forall>zid z. um_find (sv_zones s) zid = Some z \<longrightarrow> zone_typed Map.empty Map.empty z)"
  obtain s1 where f: "fold_opt (init_zone files) [1, 2, 3, 4, 5, 6, 7, 8, 9, 10] (server_new empty_world) = Some s1"
    using assms by (auto simp: server_init_def bind_eq_Some_conv)
  have P1: "?P s1"
  proof (rule fold_opt_invariant[OF f])
    show "?P (server_new empty_world)" by (simp add: server_new_def)
  next
    fix zid s t assume P: "?P s" and i: "init_zone files zid s = Some t"
    from i obtain zo where zo: "zone_create zid (files zid) = Some zo"
      and t: "t = (case zo of None \<Rightarrow> s | Some z \<Rightarrow> s\<lparr>sv_zones := um_assign zid z (sv_zones s)\<rparr>)"
      by (auto simp: init_zone_def)
    have "zone_typed Map.empty Map.empty z" if "zo = Some z" for z
      using zo that
      by (auto simp: zone_create_def zone_typed_def subworld_typed_def subworld_new_def um_values_def
          split: zone_file.splits option.splits if_splits)
    then show "?P t" using P t by (cases zo) auto
  qed
  have "typing Map.empty = Map.empty" by (simp add: fun_eq_iff typing_def)
  moreover have "world_typed empty_world"
    by (simp add: world_typed_def empty_world_def heap_typed_def deeper_def)
  ultimately have s1: "server_typed s1"
    using P1 by (simp add: server_typed_def store_typed_def client_player_def empty_world_def)
  obtain mo w i where mo: "simple_monster_create sz (sv_world s1) = Some (mo, w)" and w: "world_typed w"
    and ext: "typing (wd_heap (sv_world s1)) \<subseteq>\<^sub>m typing (wd_heap w)" and ref: "entity_ref (typing (wd_heap w)) i mo"
    using typed_simple_monster_create[of "sv_world s1" sz] s1 by (auto simp: server_typed_def)
  have s2: "server_typed (s1\<lparr>sv_world := w\<rparr>)" using server_typed_world[OF s1 w ext] .
  obtain z sw where z: "um_find (sv_zones s1) 1 = Some z" and sw: "add_entity (wd_heap w) mo (zn_subworld z) = Some sw"
    and s: "s = (s1\<lparr>sv_world := w\<rparr>)\<lparr>sv_zones := um_assign 1 (z\<lparr>zn_subworld := sw\<rparr>) (sv_zones s1)\<rparr>"
    using assms f mo by (auto simp: server_init_def Let_def um_at_def split: option.splits)
  have h: "heap_typed (wd_heap w)" using w by (simp add: world_typed_def)
  have zt: "zone_typed (typing (wd_heap w)) (sv_store s1) z" using s2 z by (simp add: server_typed_def)
  have "subworld_typed (typing (wd_heap w)) sw"
    using typed_add_entity[OF h _ ref, of "zn_subworld z"] zt sw by (auto simp: zone_typed_def)
  then show ?thesis using s2 zt by (auto simp: s server_typed_def zone_typed_def split: if_splits)
qed

lemma server_reach_typed: "server_reach token_ok sz gl s V \<Longrightarrow> server_typed s"
proof (induction rule: server_reach.induct)
  case (created files s)
  then show ?case by (rule server_typed_created)
next
  case (started s V)
  then show ?case using server_typed_calm[OF _ calm_fields] by (simp add: server_start_def)
next
  case (stopped s V)
  then show ?case using server_typed_calm[OF _ calm_fields] by (simp add: server_stop_def sv_post_def)
next
  case (accepted s V outcome s')
  obtain s1 where s1: "s1 = s \<or> s1 = add_client_deferred True s" and s': "s' = s1 \<or> s' = s1\<lparr>sv_accepting := False\<rparr>"
    using accept_cases[OF accepted.hyps(2,3)] by blast
  have "calm s (add_client_deferred True s)"
    by (auto simp: calm_def add_client_deferred_def Let_def sv_post_def client_player_upd client_new_def split: if_splits)
  moreover have "calm s1 s'" using s' by (auto simp: calm_def)
  ultimately show ?case using s1 accepted.IH server_typed_calm calm_refl by blast
next
  case (profiled s V ec now s')
  then have "calm s s'" by (auto simp: profiler_round_def calm_def split: if_splits)
  then show ?case using profiled.IH server_typed_calm by blast
next
  case (received s V c bytes p now s')
  from received.hyps(2) have "calm s s'"
  proof (cases rule: packet_received_cases)
    case (1 cl t)
    have "calm s (sv_set_client c (client_packet_received now cl) s)"
      by (rule calm_set_client[OF 1(1)]) (simp add: client_packet_received_def)
    moreover have "calm (sv_set_client c (client_packet_received now cl) s) t" by (rule calm_fields) (simp_all add: 1(2))
    moreover have "calm t s'" using 1(3) calm_stop_client by (cases p) auto
    ultimately show ?thesis using calm_trans by blast
  qed
  then show ?case using received.IH server_typed_calm by blast
next
  case (client s V c cl evs cl')
  then have "calm s (sv_set_client c cl' s)" by (intro calm_set_client) (auto simp: client_may_def)
  then show ?case using client.IH server_typed_calm calm_trans calm_events by blast
next
  case (strand s V now s')
  then obtain j js where j: "server_exec token_ok now j (s\<lparr>sv_strand := js\<rparr>) = Some (Inr s')"
    by (auto simp: server_step_def split: list.splits)
  have "calm s (s\<lparr>sv_strand := js\<rparr>)" by (rule calm_fields) simp_all
  then show ?case using strand.IH server_typed_calm calm_exec[OF j] by blast
next
  case (joined s V db i s')
  then obtain c js where f: "join_request_finish sz db c (s\<lparr>sv_joins := js\<rparr>) = Some s'"
    by (auto simp: join_resume_def split: if_splits)
  have "calm s (s\<lparr>sv_joins := js\<rparr>)" by (rule calm_fields) simp_all
  then show ?case using server_typed_join[OF _ f] joined.IH server_typed_calm by blast
next
  case (zone s V ti zid s')
  then show ?case using server_typed_zone_step by blast
next
  case (waited s V ev a s')
  then show ?case using server_typed_machine by blast
qed



section \<open>A join that fails\<close>

text \<open>C30. A member of a zone that joins once more while the database fails loses its player: the null pointer is
  stored before it is tested. The client is stopped, and the job that then removes it from its zone
  dereferences the null pointer.\<close>

theorem failed_rejoin_crashes:
  assumes "sv_store s c = Some cl" "jd_prepare_ok db" "jd_rows db = Some (r # rs)"
    and "player_load sz (jd_character db) (sv_world s) = Some (Inr None, w)"
  shows "\<exists>s'. join_request_finish sz db c s = Some s' \<and> sv_zones s' = sv_zones s
    \<and> (\<forall>gl ti z h. um_contains (zn_clients z) (client_id cl)
        \<longrightarrow> zone_exec gl ti (Job_remove c) (z, h, sv_store s') = None)"
proof -
  let ?t = "sv_set_client c (cl\<lparr>cl_player := None\<rparr>) (s\<lparr>sv_world := w\<rparr>)"
  have t: "sv_store ?t c = Some (cl\<lparr>cl_player := None\<rparr>)" by (simp add: sv_set_client_def)
  obtain cl' evs where stop: "client_stop (cl\<lparr>cl_player := None\<rparr>) = (cl', evs)" by fastforce
  have may: "client_id cl' = client_id cl" "cl_player cl' = None"
    using client_may_stop[OF stop] by (simp_all add: client_may_def)
  let ?s' = "sv_client_events c evs (sv_set_client c cl' ?t)"
  have "sv_stop_client c ?t = Some ?s'" using t stop by (simp add: sv_stop_client_def)
  then have "join_request_finish sz db c s = Some ?s'" using assms by (simp add: join_request_finish_def)
  moreover have "sv_zones ?s' = sv_zones s"
    using same_tables_events[of "sv_set_client c cl' ?t" c evs] by (simp add: same_tables_def sv_set_client_def)
  moreover have "sv_store ?s' = (sv_store ?t)(c \<mapsto> cl')"
    unfolding sv_client_events_def
    by (rule fold_invariant[where P = "\<lambda>u. sv_store u = (sv_store ?t)(c \<mapsto> cl')"])
      (auto simp: sv_set_client_def remove_client_deferred_def sv_post_def split: conn_event.split)
  ultimately show ?thesis using may by (auto simp: zone_exec_def zone_remove_client_def)
qed

section \<open>Runs for the witnesses\<close>

text \<open>The client of the first run attacks; or it joins again, and the database fails.\<close>

definition attack_script :: "scripted list" where
  "attack_script = join_script @ [Sc_zone 1]"

definition rejoin_script :: "scripted list" where
  "rejoin_script = join_script @ [Sc_zone 1,
     Sc_packet 0 (In_ClientJoinRequest (Some \<lparr>jr_username = Some ''u'', jr_character_name = Some ''n'', jr_token = Some ''u''\<rparr>)),
     Sc_strand]"

lemma attack_script_ends:
  "case scripted_run attack_script of None \<Rightarrow> False | Some s \<Rightarrow>
     (case um_find (sv_zones s) 1 of None \<Rightarrow> False | Some z \<Rightarrow>
        zn_strand z = [Job_packet 0 In_SkillMeleeAttack, Job_tick] \<and> client_player (sv_store s) 0 \<noteq> None)"
  by code_simp

lemma rejoin_script_ends:
  "case scripted_run rejoin_script of None \<Rightarrow> False | Some s \<Rightarrow>
     map fst (sv_joins s) = [0] \<and> map_option client_id (sv_store s 0) = Some 1
     \<and> (case um_find (sv_zones s) 1 of None \<Rightarrow> False | Some z \<Rightarrow> um_contains (zn_clients z) 1)"
  by code_simp

lemma failed_load: "player_load zero3 (jd_character failed_join) w = Some (Inr None, w)"
  by (simp add: player_load_def failed_join_def sample_join_def)



theorem failed_rejoin_crashes_witness:
  "\<exists>s V s' z. server_reach same_string zero3 sample_glm s V \<and> join_request_finish zero3 failed_join 0 s = Some s'
     \<and> um_find (sv_zones s') 1 = Some z
     \<and> zone_exec sample_glm (inputs_at 0) (Job_remove 0) (z, wd_heap (sv_world s'), sv_store s') = None"
proof -
  obtain s z cl where s: "scripted_run rejoin_script = Some s" "um_find (sv_zones s) 1 = Some z"
    "um_contains (zn_clients z) 1" "sv_store s 0 = Some cl" "client_id cl = 1"
    using rejoin_script_ends by (auto split: option.split_asm)
  obtain V where r: "server_reach same_string zero3 sample_glm s V" using scripted_run_reach[OF s(1)] by blast
  have "jd_prepare_ok failed_join" "jd_rows failed_join = Some ([Db_int64 1] # [])"
    by (simp_all add: failed_join_def sample_join_def)
  from failed_rejoin_crashes[OF s(4) this failed_load] obtain s' where
    "join_request_finish zero3 failed_join 0 s = Some s'" "sv_zones s' = sv_zones s"
    "zone_exec sample_glm (inputs_at 0) (Job_remove 0) (z, wd_heap (sv_world s'), sv_store s') = None"
    using s(3,5) by metis
  then show ?thesis using r s(2) by metis
qed

end
