(* ===== verification/Settings.thy ===== *)
theory Settings
  imports Prelude
begin

text \<open>
  \<open>Settings::init\<close> of \<open>tower/system/settings.cpp\<close>. The environment and the file system are
  arguments: \<open>env\<close> gives the value of a variable, \<open>files\<close> the contents of a readable file.
  \<open>None\<close> is undefined behaviour (a null pointer passed to \<open>std::string\<close>), an exception is \<open>Inl\<close>.
\<close>

section \<open>std::stoi\<close>

definition is_space :: "char \<Rightarrow> bool" where
  "is_space c \<longleftrightarrow> c \<in> {CHR '' '', CHR 0x09, CHR 0x0A, CHR 0x0B, CHR 0x0C, CHR 0x0D}"

definition digit_val :: "char \<Rightarrow> int option" where
  "digit_val c =
     (let n = int (of_char c) in if 48 \<le> n \<and> n \<le> 57 then Some (n - 48) else None)"

fun read_digits :: "int \<Rightarrow> string \<Rightarrow> int" where
  "read_digits acc [] = acc"
| "read_digits acc (c # cs) =
     (case digit_val c of None \<Rightarrow> acc | Some d \<Rightarrow> read_digits (10 * acc + d) cs)"

definition strip_sign :: "string \<Rightarrow> bool \<times> string" where
  "strip_sign s =
     (case s of
        [] \<Rightarrow> (False, [])
      | c # cs \<Rightarrow> if c = CHR ''-'' then (True, cs) else if c = CHR ''+'' then (False, cs) else (False, s))"

definition stoi :: "string \<Rightarrow> int result" where
  "stoi s =
     (case strip_sign (dropWhile is_space s) of (negative, ds) \<Rightarrow>
        if ds = [] \<or> digit_val (hd ds) = None then Inl Invalid_argument
        else
          let n = read_digits 0 ds; v = if negative then - n else n
          in if int_range v then Inr v else Inl Out_of_range)"

section \<open>Settings\<close>

record settings =
  listen_port :: u16
  listen_backlog :: u16
  tick_interval :: int
  auth_jwt_key :: string
  db_user :: string
  db_password :: string
  db_host :: string
  db_name :: string
  db_port :: u16
  redis_host :: string
  redis_password :: string

text \<open>The first line of the file; empty if it cannot be opened.\<close>

definition read_file :: "(string \<Rightarrow> string option) \<Rightarrow> string \<Rightarrow> string" where
  "read_file files path =
     (case files path of
        None \<Rightarrow> []
      | Some text \<Rightarrow> takeWhile (\<lambda>c. c \<noteq> CHR 0x0A) text)"

definition env_int :: "(string \<Rightarrow> string option) \<Rightarrow> string \<Rightarrow> int result option" where
  "env_int env name = map_option stoi (env name)"

definition env_file ::
  "(string \<Rightarrow> string option) \<Rightarrow> (string \<Rightarrow> string option) \<Rightarrow> string \<Rightarrow> string option" where
  "env_file env files name = map_option (read_file files) (env name)"

text \<open>A step of \<open>init\<close> that may throw, then the rest.\<close>

definition bind_res :: "'a result option \<Rightarrow> ('a \<Rightarrow> 'b result option) \<Rightarrow> 'b result option" where
  "bind_res r k =
     (case r of None \<Rightarrow> None | Some (Inl ex) \<Rightarrow> Some (Inl ex) | Some (Inr x) \<Rightarrow> k x)"

lemma bind_res_Inr:
  "bind_res r k = Some (Inr y) \<longleftrightarrow> (\<exists>x. r = Some (Inr x) \<and> k x = Some (Inr y))"
  by (auto simp: bind_res_def split: option.splits sum.splits)

definition settings_init ::
  "(string \<Rightarrow> string option) \<Rightarrow> (string \<Rightarrow> string option) \<Rightarrow> settings result option" where
  "settings_init env files =
     bind_res (env_int env ''TOWER_MAIN_LISTEN_PORT'') (\<lambda>port.
     bind_res (env_int env ''LISTEN_BACKLOG'') (\<lambda>backlog.
     bind_res (env_int env ''TICK_INTERVAL'') (\<lambda>interval.
     Option.bind (env_file env files ''TOWER_AUTH_JWT_KEY_FILE'') (\<lambda>key.
     Option.bind (env ''TOWER_DB_USER'') (\<lambda>user.
     Option.bind (env_file env files ''TOWER_DB_PASSWORD_FILE'') (\<lambda>password.
     Option.bind (env ''TOWER_DB_HOST'') (\<lambda>host.
     Option.bind (env ''TOWER_DB_NAME'') (\<lambda>name.
     bind_res (env_int env ''TOWER_DB_PORT'') (\<lambda>dbport.
     Option.bind (env ''TOWER_REDIS_HOST'') (\<lambda>rhost.
     Option.bind (env_file env files ''TOWER_REDIS_PASSWORD_FILE'') (\<lambda>rpassword.
       Some (Inr \<lparr>listen_port = word_of_int port, listen_backlog = word_of_int backlog,
         tick_interval = interval, auth_jwt_key = key, db_user = user, db_password = password,
         db_host = host, db_name = name, db_port = word_of_int dbport, redis_host = rhost,
         redis_password = rpassword\<rparr>))))))))))))"

section \<open>Reading back a decimal number\<close>

text \<open>The decimal rendering of an integer, as an environment file would contain it.\<close>

definition digit_char :: "nat \<Rightarrow> char" where
  "digit_char d = char_of (48 + d)"

fun show_nat :: "nat \<Rightarrow> string" where
  "show_nat n = (if n < 10 then [digit_char n] else show_nat (n div 10) @ [digit_char (n mod 10)])"

declare show_nat.simps [simp del]

definition show_int :: "int \<Rightarrow> string" where
  "show_int i = (if i < 0 then CHR ''-'' # show_nat (nat (- i)) else show_nat (nat i))"

lemma digit_val_char [simp]: "d < 10 \<Longrightarrow> digit_val (digit_char d) = Some (int d)"
  by (simp add: digit_val_def digit_char_def Let_def)

lemma digit_char_not_special:
  assumes "d < 10"
  shows "\<not> is_space (digit_char d)" "digit_char d \<noteq> CHR ''-''" "digit_char d \<noteq> CHR ''+''"
proof -
  have "(of_char (digit_char d) :: nat) = 48 + d" using assms by (simp add: digit_char_def)
  then show "\<not> is_space (digit_char d)" "digit_char d \<noteq> CHR ''-''" "digit_char d \<noteq> CHR ''+''"
    by (auto simp: is_space_def)
qed

text \<open>The rendering is digits only, and reading it after other digits shifts them.\<close>

lemma show_nat_digits: "\<forall>c \<in> set (show_nat n). \<exists>d < 10. c = digit_char d"
proof (induction n rule: show_nat.induct)
  case (1 n)
  have "n mod 10 < 10" by simp
  with 1 show ?case by (subst show_nat.simps) (auto intro: exI[of _ "n mod 10"])
qed

lemma show_nat_ne: "show_nat n \<noteq> []"
  by (subst show_nat.simps) simp

lemma read_digits_append:
  "(\<forall>c \<in> set xs. \<exists>d < 10. c = digit_char d) \<Longrightarrow>
     read_digits acc (xs @ ys) = read_digits (read_digits acc xs) ys"
  by (induction xs arbitrary: acc) auto

lemma read_show_nat: "read_digits 0 (show_nat n) = int n"
proof (induction n rule: show_nat.induct)
  case (1 n)
  show ?case
  proof (cases "n < 10")
    case False
    then have "read_digits 0 (show_nat n) = 10 * int (n div 10) + int (n mod 10)"
      using 1 by (subst show_nat.simps) (simp add: read_digits_append show_nat_digits)
    then show ?thesis by (simp add: zdiv_int zmod_int)
  qed (subst show_nat.simps, simp)
qed

lemma show_nat_hd: "\<exists>d cs. d < 10 \<and> show_nat n = digit_char d # cs"
  using show_nat_digits[of n] show_nat_ne[of n] by (cases "show_nat n") auto

lemma stoi_show_nat:
  "stoi (show_nat n) = (if int_range (int n) then Inr (int n) else Inl Out_of_range)"
proof -
  obtain d cs where "d < 10" "show_nat n = digit_char d # cs" using show_nat_hd by blast
  then show ?thesis
    using read_show_nat[of n] by (simp add: stoi_def strip_sign_def digit_char_not_special Let_def)
qed

lemma stoi_show_neg:
  "stoi (CHR ''-'' # show_nat n) = (if int_range (- int n) then Inr (- int n) else Inl Out_of_range)"
proof -
  obtain d cs where "d < 10" "show_nat n = digit_char d # cs" using show_nat_hd by blast
  then show ?thesis
    using read_show_nat[of n] by (simp add: stoi_def strip_sign_def is_space_def Let_def)
qed

text \<open>A number written in decimal is read back exactly when it is an \<open>int\<close>; otherwise the read
  throws \<open>std::out_of_range\<close>.\<close>

theorem stoi_show_int:
  "stoi (show_int i) = (if int_range i then Inr i else Inl Out_of_range)"
  using stoi_show_nat[of "nat i"] stoi_show_neg[of "nat (- i)"] by (simp add: show_int_def)

text \<open>A listen port given in decimal is stored modulo \<open>2 ^ 16\<close>: it is the port that was written
  exactly when that is between 0 and 65535, and no other value of \<open>int\<close> is rejected.\<close>

theorem listen_port_narrowed:
  assumes "settings_init env files = Some (Inr s)"
    and "env ''TOWER_MAIN_LISTEN_PORT'' = Some (show_int i)"
  shows "uint (listen_port s) = i mod 2 ^ 16 \<and> (uint (listen_port s) = i \<longleftrightarrow> 0 \<le> i \<and> i < 2 ^ 16)"
proof -
  obtain port where "env_int env ''TOWER_MAIN_LISTEN_PORT'' = Some (Inr port)"
    and p: "listen_port s = word_of_int port"
    using assms(1)
    by (auto simp: settings_init_def bind_res_Inr Option.bind_eq_Some_conv)
  then have "port = i" using assms(2) by (auto simp: env_int_def stoi_show_int split: if_splits)
  with p have "uint (listen_port s) = i mod 2 ^ 16" by (simp add: uint_word_of_int)
  moreover have "i mod 2 ^ 16 = i \<longleftrightarrow> 0 \<le> i \<and> i < 2 ^ 16"
    by (metis mod_pos_pos_trivial pos_mod_bound pos_mod_sign zero_less_numeral zero_less_power)
  ultimately show ?thesis by simp
qed

definition sample_env :: "string \<Rightarrow> string option" where
  "sample_env name =
     (if name = ''TOWER_MAIN_LISTEN_PORT'' then Some (show_int 65637) else Some (show_int 7))"

theorem listen_port_narrowed_witness:
  "\<exists>s. settings_init sample_env (\<lambda>_. None) = Some (Inr s) \<and> uint (listen_port s) = 65637 mod 2 ^ 16
     \<and> (uint (listen_port s) = 65637 \<longleftrightarrow> 0 \<le> (65637 :: int) \<and> 65637 < (2 :: int) ^ 16)"
proof -
  have "\<exists>s. settings_init sample_env (\<lambda>_. None) = Some (Inr s)"
    by (simp add: settings_init_def bind_res_def env_int_def env_file_def sample_env_def
        stoi_show_int int_range_def)
  then obtain s where s: "settings_init sample_env (\<lambda>_. None) = Some (Inr s)" by blast
  moreover have "sample_env ''TOWER_MAIN_LISTEN_PORT'' = Some (show_int 65637)"
    by (simp add: sample_env_def)
  ultimately show ?thesis using listen_port_narrowed[of sample_env] by blast
qed

end
