(* ===== verification/Boot.thy ===== *)
theory Boot
  imports Server_Typed Settings
begin

text \<open>
  \<open>main\<close> (\<open>tower/main.cpp\<close>) up to the point where the server runs: the settings, the item loader
  (\<open>tower/item/loader.cpp\<close>), the constructor of the server, \<open>init\<close> and \<open>start\<close>. The environment, the
  file system, the JSON parser and what the operating system says to the acceptor are inputs.

  Only the \<open>system_error\<close> of the constructor is caught. An exception of the settings, of the loader or of
  \<open>init\<close> leaves \<open>main\<close>: \<open>Uncaught\<close>. \<open>None\<close> is undefined behaviour.
\<close>

section \<open>The item loader\<close>

definition as_object :: "json \<Rightarrow> (string, json) umap result" where
  "as_object j = (case j of Json_object obj \<Rightarrow> Inr obj | _ \<Rightarrow> Inl System_error)"

text \<open>\<open>buffer << f.rdbuf()\<close>: everything in the file; nothing if it cannot be opened.\<close>

definition read_buffer :: "(string \<Rightarrow> string option) \<Rightarrow> string \<Rightarrow> string" where
  "read_buffer files path = (case files path of None \<Rightarrow> [] | Some t \<Rightarrow> t)"

definition fist_file :: "string \<Rightarrow> string" where
  "fist_file data_root = data_root @ ''/weapons/fist.json''"

definition fist_data_load_file :: "(string \<Rightarrow> json result) \<Rightarrow> (string \<Rightarrow> string option) \<Rightarrow> string \<Rightarrow> fist_data result" where
  "fist_data_load_file parse files data_root =
     bind_sum (parse (read_buffer files (fist_file data_root))) (\<lambda>parsed.
     bind_sum (as_object parsed) fist_data_load)"

definition loader_load_all :: "(string \<Rightarrow> json result) \<Rightarrow> (string \<Rightarrow> string option) \<Rightarrow> string \<Rightarrow> fist_data result" where
  "loader_load_all parse files data_root = fist_data_load_file parse files data_root"

section \<open>The constructor of the server\<close>

text \<open>Whether the acceptor can be opened and bound to a port, whether it takes the option, and whether it
  can listen with a backlog.\<close>

record acceptor_io =
  io_open :: "u16 \<Rightarrow> bool"
  io_reuse_address :: bool
  io_listen :: "int \<Rightarrow> bool"

definition server_construct :: "acceptor_io \<Rightarrow> settings \<Rightarrow> world \<Rightarrow> server result" where
  "server_construct io st w =
     (if \<not> io_open io (listen_port st) then Inl System_error
      else if \<not> io_reuse_address io then Inl System_error
      else if \<not> io_listen io (uint (listen_backlog st)) then Inl System_error
      else Inr (server_new w))"

section \<open>main\<close>

record host =
  hs_env :: "string \<Rightarrow> string option"
  hs_files :: "string \<Rightarrow> string option"
  hs_parse :: "string \<Rightarrow> json result"
  hs_data_root :: string
  hs_zone_files :: "u32 \<Rightarrow> zone_file"
  hs_acceptor :: acceptor_io

text \<open>The process: it serves; the handler of the signal waits in \<open>Server::stop\<close>; it has returned; an
  exception left \<open>main\<close>, or a handler that one of the workers ran.\<close>

datatype process =
    Serving server
  | Stopping server
  | Exit_success server
  | Exit_failure
  | Uncaught cxx_exn
  | Handler_threw cxx_exn server

definition main_body :: "host \<Rightarrow> process result option" where
  "main_body h =
     bind_res (settings_init (hs_env h) (hs_files h)) (\<lambda>st.
     bind_res (Some (loader_load_all (hs_parse h) (hs_files h) (hs_data_root h))) (\<lambda>fist.
     case server_construct (hs_acceptor h) st empty_world of
       Inl _ \<Rightarrow> Some (Inr Exit_failure)
     | Inr s \<Rightarrow>
         bind_res (server_init (attack_shape_size fist) (hs_zone_files h) s) (\<lambda>s.
           Some (Inr (Serving (server_start s))))))"

definition main_entry :: "host \<Rightarrow> process option" where
  "main_entry h = map_option (\<lambda>r. case r of Inl ex \<Rightarrow> Uncaught ex | Inr p \<Rightarrow> p) (main_body h)"

text \<open>The statics that the running program reads: the size of the fist's shape, and the key of the tokens.\<close>

definition shape_of :: "host \<Rightarrow> vec3" where
  "shape_of h =
     (case loader_load_all (hs_parse h) (hs_files h) (hs_data_root h) of
        Inl _ \<Rightarrow> zero3
      | Inr fist \<Rightarrow> attack_shape_size fist)"

definition jwt_key_of :: "host \<Rightarrow> string" where
  "jwt_key_of h =
     (case settings_init (hs_env h) (hs_files h) of Some (Inr st) \<Rightarrow> auth_jwt_key st | _ \<Rightarrow> [])"

section \<open>What init does\<close>

definition zone_ids :: "u32 list" where
  "zone_ids = [1, 2, 3, 4, 5, 6, 7, 8, 9, 10]"

lemma init_zones:
  "fold_opt (init_zone files) zids s =
     (if \<exists>i \<in> set zids. zone_create i (files i) = None then None
      else Some (s\<lparr>sv_zones := fold (\<lambda>i zs. case the (zone_create i (files i)) of None \<Rightarrow> zs | Some z \<Rightarrow> um_assign i z zs)
             zids (sv_zones s)\<rparr>))"
  by (induction zids arbitrary: s) (auto simp: init_zone_def split: option.splits)

lemma folded_zones:
  assumes "i \<notin> set zids"
  shows "um_find (fold (\<lambda>i zs. case f i of None \<Rightarrow> zs | Some z \<Rightarrow> um_assign i z zs) zids zs) i = um_find zs i"
  using assms by (induction zids arbitrary: zs) (auto split: option.split)

lemma folded_zones_at:
  assumes "distinct zids" "i \<in> set zids" "um_find zs i = None"
  shows "um_find (fold (\<lambda>i zs. case f i of None \<Rightarrow> zs | Some z \<Rightarrow> um_assign i z zs) zids zs) i = f i"
  using assms
proof (induction zids arbitrary: zs)
  case (Cons j zids)
  show ?case
  proof (cases "i = j")
    case True
    then show ?thesis using Cons.prems folded_zones[of i zids f] by (simp split: option.split)
  next
    case False
    then show ?thesis using Cons.prems Cons.IH by (auto split: option.split)
  qed
qed simp

text \<open>\<open>init\<close> is undefined exactly if a zone file makes \<open>Zone::create\<close> read out of bounds, and throws exactly
  if there is no zone 1.\<close>

lemma server_init_none:
  "server_init sz files (server_new empty_world) = None
     \<longleftrightarrow> (\<exists>i \<in> set zone_ids. zone_create i (files i) = None)"
  "server_init sz files (server_new empty_world) = Some (Inl ex)
     \<longleftrightarrow> (\<forall>i \<in> set zone_ids. zone_create i (files i) \<noteq> None) \<and> zone_create 1 (files 1) = Some None \<and> ex = Out_of_range"
proof -
  have empty: "world_typed empty_world"
    by (simp add: world_typed_def empty_world_def heap_typed_def deeper_def)
  obtain mo w i where mo: "simple_monster_create sz empty_world = Some (mo, w)" and w: "world_typed w"
    and ref: "entity_ref (typing (wd_heap w)) i mo"
    using typed_simple_monster_create[OF empty, of sz] by blast
  have h: "heap_typed (wd_heap w)" using w by (simp add: world_typed_def)
  show "server_init sz files (server_new empty_world) = None
     \<longleftrightarrow> (\<exists>i \<in> set zone_ids. zone_create i (files i) = None)" (is ?none)
    and "server_init sz files (server_new empty_world) = Some (Inl ex)
     \<longleftrightarrow> (\<forall>i \<in> set zone_ids. zone_create i (files i) \<noteq> None) \<and> zone_create 1 (files 1) = Some None \<and> ex = Out_of_range"
      (is ?thrown)
  proof (atomize (full), cases "\<exists>i \<in> set zone_ids. zone_create i (files i) = None")
    case True
    then show "?none \<and> ?thrown"
      unfolding server_init_def init_zones zone_ids_def[symmetric] by auto
  next
    case False
    let ?zs = "fold (\<lambda>i zs. case the (zone_create i (files i)) of None \<Rightarrow> zs | Some z \<Rightarrow> um_assign i z zs) zone_ids []"
    have f: "fold_opt (init_zone files) zone_ids (server_new empty_world) = Some ((server_new empty_world)\<lparr>sv_zones := ?zs\<rparr>)"
      using False by (simp add: init_zones server_new_def)
    have one: "um_find ?zs 1 = the (zone_create 1 (files 1))"
      by (rule folded_zones_at) (simp_all add: zone_ids_def)
    have some: "zone_create 1 (files 1) \<noteq> None" using False by (auto simp: zone_ids_def)
    show "?none \<and> ?thrown"
    proof (cases "the (zone_create 1 (files 1))")
      case None
      then have "zone_create 1 (files 1) = Some None" using some by auto
      then show ?thesis
        using False f one mo
        by (auto simp: server_init_def zone_ids_def[symmetric] um_at_def Let_def server_new_def)
    next
      case (Some z)
      then have z: "zone_create 1 (files 1) = Some (Some z)" using some by auto
      have "subworld_typed Map.empty (zn_subworld z)"
        using z by (auto simp: zone_create_def subworld_typed_def subworld_new_def um_values_def
            split: zone_file.splits option.splits if_splits)
      then have "subworld_typed (typing (wd_heap w)) (zn_subworld z)"
        using subworld_typed_mono[of Map.empty "typing (wd_heap w)"] by simp
      from typed_add_entity[OF h this ref] obtain sw where "add_entity (wd_heap w) mo (zn_subworld z) = Some sw"
        by blast
      then show ?thesis
        using False f one mo z Some
        by (auto simp: server_init_def zone_ids_def[symmetric] um_at_def Let_def server_new_def)
    qed
  qed
qed

text \<open>What it leaves: the zones that have a file, all empty, but for the one monster of zone 1.\<close>

lemma server_init_monster:
  assumes init: "server_init sz files (server_new empty_world) = Some (Inr s)"
  shows "\<exists>z mo e d. um_find (sv_zones s) 1 = Some z \<and> sw_entities (zn_subworld z) = [(1, mo)]
    \<and> entity_at (wd_heap (sv_world s)) mo = Some e \<and> en_class e = Monster_class d \<and> mo_state d = IDLE
    \<and> sv_strand s = [] \<and> \<not> sv_running s \<and> sv_acceptor_open s"
proof -
  obtain mo w e d where mo: "simple_monster_create sz empty_world = Some (mo, w)" "entity_at (wd_heap w) mo = Some e"
    "entity_id e = wd_entity_ids empty_world + 1" "en_class e = Monster_class d" "mo_state d = IDLE"
    using simple_monster_create_ok[of sz empty_world] by blast
  let ?zs = "fold (\<lambda>i zs. case the (zone_create i (files i)) of None \<Rightarrow> zs | Some z \<Rightarrow> um_assign i z zs) zone_ids []"
  have ok: "\<forall>i \<in> set zone_ids. zone_create i (files i) \<noteq> None"
    using init server_init_none(1)[of sz files] by auto
  have f: "fold_opt (init_zone files) zone_ids (server_new empty_world) = Some ((server_new empty_world)\<lparr>sv_zones := ?zs\<rparr>)"
    using ok by (simp add: init_zones server_new_def)
  have some: "zone_create 1 (files 1) \<noteq> None" using ok by (simp add: zone_ids_def)
  have one: "um_find ?zs 1 = the (zone_create 1 (files 1))"
    by (rule folded_zones_at) (simp_all add: zone_ids_def)
  obtain z sw where z: "the (zone_create 1 (files 1)) = Some z" "add_entity (wd_heap w) mo (zn_subworld z) = Some sw"
    and s: "s = (server_new empty_world)\<lparr>sv_zones := um_assign 1 (z\<lparr>zn_subworld := sw\<rparr>) ?zs, sv_world := w\<rparr>"
    using init f one mo(1)
    by (auto simp: server_init_def zone_ids_def[symmetric] um_at_def Let_def server_new_def split: option.splits)
  have "zone_create 1 (files 1) = Some (Some z)" using z(1) some by auto
  then have "sw_entities (zn_subworld z) = []"
    by (auto simp: zone_create_def subworld_new_def split: zone_file.splits option.splits if_splits)
  then have "sw_entities sw = [(1, mo)]"
    using z(2) mo(2,3)
    by (auto simp: add_entity_def add_collision_objects_from_tree_def empty_world_def um_assign_def bind_eq_Some_conv)
  then show ?thesis using mo s by (simp add: server_new_def)
qed

section \<open>How starting the program ends\<close>

definition acceptor_opens :: "acceptor_io \<Rightarrow> settings \<Rightarrow> bool" where
  "acceptor_opens io st \<longleftrightarrow> io_open io (listen_port st) \<and> io_reuse_address io \<and> io_listen io (uint (listen_backlog st))"

lemma server_construct_eq:
  "server_construct io st w = (if acceptor_opens io st then Inr (server_new w) else Inl System_error)"
  by (simp add: server_construct_def acceptor_opens_def)

lemma main_entry_cases:
  "main_entry h =
     (case settings_init (hs_env h) (hs_files h) of
        None \<Rightarrow> None
      | Some (Inl ex) \<Rightarrow> Some (Uncaught ex)
      | Some (Inr st) \<Rightarrow>
          (case loader_load_all (hs_parse h) (hs_files h) (hs_data_root h) of
             Inl ex \<Rightarrow> Some (Uncaught ex)
           | Inr fist \<Rightarrow>
               if acceptor_opens (hs_acceptor h) st
               then (case server_init (attack_shape_size fist) (hs_zone_files h) (server_new empty_world) of
                       None \<Rightarrow> None
                     | Some (Inl ex) \<Rightarrow> Some (Uncaught ex)
                     | Some (Inr s) \<Rightarrow> Some (Serving (server_start s)))
               else Some Exit_failure))"
  by (simp add: main_entry_def main_body_def bind_res_def server_construct_eq split: option.split sum.split)

text \<open>C28. How \<open>main\<close> ends before it serves. It returns \<open>EXIT_FAILURE\<close> exactly if the settings and the data
  file are read and the acceptor cannot be opened. It is terminated by an exception exactly if the settings
  or the loader throw, or if there is no zone 1 (the \<open>at(1)\<close> of \<open>init\<close>, outside the \<open>try\<close>). Else, if every
  zone file lets its zone be created or is refused, it serves: the server runs and accepts, its strand is
  empty, and zone 1 holds one monster and nothing else.\<close>

theorem main_outcomes:
  assumes settings: "settings_init (hs_env h) (hs_files h) = Some r"
    and zones: "\<forall>i \<in> set zone_ids. zone_create i (hs_zone_files h i) \<noteq> None"
  shows "case r of
      Inl ex \<Rightarrow> main_entry h = Some (Uncaught ex)
    | Inr st \<Rightarrow>
        (case loader_load_all (hs_parse h) (hs_files h) (hs_data_root h) of
           Inl ex \<Rightarrow> main_entry h = Some (Uncaught ex)
         | Inr fist \<Rightarrow>
             if \<not> acceptor_opens (hs_acceptor h) st then main_entry h = Some Exit_failure
             else if zone_create 1 (hs_zone_files h 1) = Some None then main_entry h = Some (Uncaught Out_of_range)
             else \<exists>s z mo e d. main_entry h = Some (Serving s) \<and> server_reach token_ok (shape_of h) gl s {}
               \<and> sv_running s \<and> sv_accepting s \<and> sv_strand s = []
               \<and> um_find (sv_zones s) 1 = Some z \<and> sw_entities (zn_subworld z) = [(1, mo)]
               \<and> entity_at (wd_heap (sv_world s)) mo = Some e \<and> en_class e = Monster_class d \<and> mo_state d = IDLE)"
proof (cases r)
  case (Inl ex)
  then show ?thesis using settings by (simp add: main_entry_cases)
next
  case r: (Inr st)
  show ?thesis
  proof (cases "loader_load_all (hs_parse h) (hs_files h) (hs_data_root h)")
    case (Inl ex)
    then show ?thesis using settings r by (simp add: main_entry_cases)
  next
    case fist: (Inr fist)
    note init = server_init_none[of "attack_shape_size fist" "hs_zone_files h"]
    show ?thesis
    proof (cases "acceptor_opens (hs_acceptor h) st \<and> zone_create 1 (hs_zone_files h 1) \<noteq> Some None")
      case False
      then show ?thesis
        using settings r fist zones init(2)[of Out_of_range] by (auto simp: main_entry_cases)
    next
      case True
      have "\<exists>s. server_init (attack_shape_size fist) (hs_zone_files h) (server_new empty_world) = Some (Inr s)"
      proof (cases "server_init (attack_shape_size fist) (hs_zone_files h) (server_new empty_world)")
        case None
        then show ?thesis using zones init(1) by blast
      next
        case (Some res)
        then show ?thesis using True init(2) by (cases res) auto
      qed
      then obtain s where s: "server_init (attack_shape_size fist) (hs_zone_files h) (server_new empty_world) = Some (Inr s)"
        by blast
      have "main_entry h = Some (Serving (server_start s))" using settings r fist True s by (simp add: main_entry_cases)
      moreover have "server_reach token_ok (shape_of h) gl (server_start s) {}"
        using s fist by (intro server_reach.started server_reach.created) (simp add: shape_of_def)
      ultimately show ?thesis
        using server_init_monster[OF s] r fist True by (auto simp: server_start_def)
    qed
  qed
qed

text \<open>A machine on which everything is in place.\<close>

definition sample_host :: host where
  "sample_host =
     \<lparr>hs_env = sample_env, hs_files = (\<lambda>path. if path = ''data/weapons/fist.json'' then Some ''{}'' else None),
      hs_parse = (\<lambda>t. if t = ''{}'' then Inr (Json_object sample_fist_json) else Inl System_error),
      hs_data_root = ''data'', hs_zone_files = tiny_files,
      hs_acceptor = \<lparr>io_open = (\<lambda>port. port = 101), io_reuse_address = True, io_listen = (\<lambda>n. 0 < n)\<rparr>\<rparr>"

lemma sample_host_settings:
  "\<exists>st. settings_init (hs_env sample_host) (hs_files sample_host) = Some (Inr st) \<and> acceptor_opens (hs_acceptor sample_host) st"
  by (simp add: settings_init_def bind_res_def env_int_def env_file_def sample_env_def sample_host_def
      stoi_show_int int_range_def acceptor_opens_def)

lemma sample_host_loads: "\<exists>fist. loader_load_all (hs_parse sample_host) (hs_files sample_host) (hs_data_root sample_host) = Inr fist"
proof -
  have "case loader_load_all (hs_parse sample_host) (hs_files sample_host) (hs_data_root sample_host) of Inl _ \<Rightarrow> False | Inr _ \<Rightarrow> True"
    by code_simp
  then show ?thesis by (auto split: sum.split_asm)
qed

lemma sample_host_zones:
  "\<forall>i \<in> set zone_ids. zone_create i (hs_zone_files sample_host i) \<noteq> None"
  "zone_create 1 (hs_zone_files sample_host 1) \<noteq> Some None"
proof -
  show "\<forall>i \<in> set zone_ids. zone_create i (hs_zone_files sample_host i) \<noteq> None"
    "zone_create 1 (hs_zone_files sample_host 1) \<noteq> Some None"
    by (simp_all add: zone_ids_def sample_host_def tiny_files_def zone_create_def fill_grid_def grid_assign_i_def grid_sized_def)
qed

theorem main_outcomes_witness:
  "\<exists>s z mo. main_entry sample_host = Some (Serving s) \<and> sv_running s \<and> sv_accepting s
     \<and> um_find (sv_zones s) 1 = Some z \<and> sw_entities (zn_subworld z) = [(1, mo)]"
proof -
  obtain st where st: "settings_init (hs_env sample_host) (hs_files sample_host) = Some (Inr st)"
    "acceptor_opens (hs_acceptor sample_host) st"
    using sample_host_settings by blast
  obtain fist where fist: "loader_load_all (hs_parse sample_host) (hs_files sample_host) (hs_data_root sample_host) = Inr fist"
    using sample_host_loads by blast
  show ?thesis
    using main_outcomes[OF st(1) sample_host_zones(1), of same_string sample_glm] st(2) fist sample_host_zones(2) by auto
qed

end
