(* ===== verification/Typing_Throws.thy ===== *)
theory Typing_Throws
  imports Typing_Jobs
begin

text \<open>
  No job of a zone throws, whether or not it is defined: the only exceptions a job could raise come from the
  path finder, which raises none on a well-formed grid. And no job changes the grid.
\<close>

section \<open>No exception\<close>

lemma path_no_throw:
  assumes "convertible v" "convertible w" "wf_grid (sw_obstacles_grid sw)"
  shows "monster_path pick sw v w \<noteq> Some (Inl ex)"
  using path_found[OF assms, of pick] by auto

lemma map_sum_Inl: "map_sum id f r = Inl ex \<longleftrightarrow> r = Inl ex"
  by (cases r) auto

lemma passes_on:
  "(case r of Inl x \<Rightarrow> Some (Inl x) | Inr y \<Rightarrow> k y) = Some (Inl ex) \<longleftrightarrow> r = Inl ex \<or> (\<exists>y. r = Inr y \<and> k y = Some (Inl ex))"
  by (cases r) auto

lemma monster_no_throw:
  assumes h: "heap_typed h" and g: "wf_grid (sw_obstacles_grid (zn_subworld z))"
  shows "simple_monster_tick gl pick tie now z a (h, cs) \<noteq> Some (Inl ex)"
proof
  assume tick: "simple_monster_tick gl pick tie now z a (h, cs) = Some (Inl ex)"
  obtain n e where n: "h a = Some n" and e: "entity_at h a = Some e"
    using tick by (auto simp: simple_monster_tick_def bind_eq_Some_conv)
  obtain d where d: "en_class e = Monster_class d"
    using tick n e by (auto simp: simple_monster_tick_def split: entity_class.splits)
  have conv: "convertible (position n)" using heap_typed_entity(2)[OF h e n] .
  note cls = monster_class_typed[OF h e d]
  note run = tick[unfolded simple_monster_tick_def, simplified, unfolded n e bind.simps, simplified, unfolded d, simplified]
  show False
  proof (cases "mo_state d")
    case IDLE
    have "monster_idle gl pick tie now (zn_subworld z) a n e d h = Some (Inl ex)"
      using run IDLE by (cases "monster_idle gl pick tie now (zn_subworld z) a n e d h") (auto simp: map_sum_Inl)
    then obtain r rn where r: "h r = Some rn" "is_player (object rn)"
      and path: "monster_path pick (zn_subworld z) (position n) (position rn) = Some (Inl ex)"
      by (auto simp: monster_idle_def bind_eq_Some_conv map_sum_Inl split: if_splits)
    have "player_ref (typing h) r" using is_player_typing[of h r rn] r by simp
    then obtain rn' where "h r = Some rn'" "convertible (position rn')" by (rule player_position[OF h])
    then show False using path_no_throw[OF conv _ g] path r(1) by simp
  next
    case CHASING
    have "monster_chasing gl pick now (zn_subworld z) a n e d h = Some (Inl ex)"
      using run CHASING by (cases "monster_chasing gl pick now (zn_subworld z) a n e d h") (auto simp: map_sum_Inl)
    then obtain t tn where t: "mo_chasing_target d = Some t" "h t = Some tn"
      and path: "monster_path pick (zn_subworld z) (position n) (position tn) = Some (Inl ex)"
      by (auto simp: monster_chasing_def bind_eq_Some_conv Let_def passes_on split: if_split_asm)
    obtain tn' where "h t = Some tn'" "convertible (position tn')"
      using player_position[OF h cls(3)[OF t(1)]] by blast
    then show False using path_no_throw[OF conv _ g] path t(2) by simp
  next
    case ATTACKING
    then show False using run by simp
  qed
qed

lemma entities_no_throw:
  assumes g: "wf_grid (sw_obstacles_grid (zn_subworld z))" and sw: "subworld_typed T (zn_subworld z)"
  shows "heap_typed h \<Longrightarrow> typing h = T \<Longrightarrow> snd ` set (zn_clients z) \<subseteq> dom cs
    \<Longrightarrow> entities_tick gl ti z as (h, cs) \<noteq> Some (Inl ex)"
proof (induction as arbitrary: h cs)
  case (Cons a as)
  have "entity_tick gl ti z a (h, cs) \<noteq> Some (Inl ex)"
    using monster_no_throw[OF Cons.prems(1) g] by (auto simp: entity_tick_def split: option.splits entity_class.splits)
  moreover have "entities_tick gl ti z as (h1, cs1) \<noteq> Some (Inl ex)"
    if one: "entity_tick gl ti z a (h, cs) = Some (Inr (h1, cs1))" for h1 cs1
  proof -
    have alone: "entities_tick gl ti z [a] (h, cs) = Some (Inr (h1, cs1))" using one by simp
    have u: "unmoved h h1"
      by (rule typed_entities_tick[OF _ alone unmoved_refl[OF Cons.prems(1)] Cons.prems(3)])
        (use sw Cons.prems(2) in simp)
    have "h1 = h \<and> cs1 = cs
        \<or> simple_monster_tick gl (ti_pick ti a) (ti_tie ti a) (ti_clock ti a) z a (h, cs) = Some (Inr (h1, cs1))"
      using one by (auto simp: entity_tick_def split: option.splits entity_class.splits)
    then have "dom cs1 = dom cs" using views_player(2)[OF plr.views_simple_monster_tick] by blast
    then show ?thesis using Cons.IH[of h1 cs1] unmovedD[OF u] Cons.prems by simp
  qed
  ultimately show ?case by (auto split: option.split sum.split)
qed simp

lemma zone_exec_no_throw:
  assumes h: "heap_typed h" and sw: "subworld_typed (typing h) (zn_subworld z)"
    and members: "snd ` set (zn_clients z) \<subseteq> dom cs" and g: "wf_grid (sw_obstacles_grid (zn_subworld z))"
  shows "zone_exec gl ti j (z, h, cs) \<noteq> Some (Inl ex)"
proof
  assume exec: "zone_exec gl ti j (z, h, cs) = Some (Inl ex)"
  then have "zone_tick gl ti (z, h, cs) = Some (Inl ex)" by (cases j) (auto simp: zone_exec_def)
  then obtain sw' h1 evs where t: "subworld_tick gl (zn_subworld z) h = Some (sw', h1, evs)"
    and e: "entities_tick gl ti (z\<lparr>zn_subworld := sw'\<rparr>) (um_values (sw_entities sw')) (h1, cs) = Some (Inl ex)"
    by (auto simp: zone_tick_def bind_eq_Some_conv Let_def passes_on split: if_split_asm)
  note tt = typed_subworld_tick[OF h t]
  have h1: "heap_typed h1" "typing h1 = typing h" using tt(1) by (simp_all add: retyped_def)
  have "wf_grid (sw_obstacles_grid (zn_subworld (z\<lparr>zn_subworld := sw'\<rparr>)))"
    "subworld_typed (typing h) (zn_subworld (z\<lparr>zn_subworld := sw'\<rparr>))"
    "snd ` set (zn_clients (z\<lparr>zn_subworld := sw'\<rparr>)) \<subseteq> dom cs"
    using g sw members tt(4,5) by simp_all
  from entities_no_throw[OF this(1,2) h1 this(3)] e show False by blast
qed

section \<open>The grid stays\<close>

lemma grid_of_maps:
  "add_entity h a sw = Some sw' \<Longrightarrow> sw_obstacles_grid sw' = sw_obstacles_grid sw"
  "remove_entity h a sw = Some sw' \<Longrightarrow> sw_obstacles_grid sw' = sw_obstacles_grid sw"
  by (auto simp: add_entity_def remove_entity_def add_collision_objects_from_tree_def
      remove_collision_objects_from_tree_def bind_eq_Some_conv)

lemma zone_exec_grid:
  assumes exec: "zone_exec gl ti j (z, h, cs) = Some (Inr (z', h', cs'))" and h: "heap_typed h"
  shows "sw_obstacles_grid (zn_subworld z') = sw_obstacles_grid (zn_subworld z)"
proof (cases j)
  case Job_tick
  then have "zone_tick gl ti (z, h, cs) = Some (Inr (z', h', cs'))" using exec by (simp add: zone_exec_def)
  then show ?thesis
  proof (cases rule: zone_tick_cases)
    case (tick sw' h1 evs cs1 movements)
    then show ?thesis using typed_subworld_tick(4)[OF h tick(2)] by simp
  qed simp_all
next
  case (Job_add c)
  then have "zone_add_client c (z, h, cs) = Some (z', h', cs')" using exec by (simp add: zone_exec_def)
  then show ?thesis by (cases rule: zone_add_client_cases) (auto dest: grid_of_maps)
next
  case (Job_remove c)
  then have "zone_remove_client c (z, h, cs) = Some (z', h', cs')" using exec by (simp add: zone_exec_def)
  then show ?thesis by (cases rule: zone_remove_client_cases) (auto dest: grid_of_maps)
next
  case (Job_packet c p)
  then have "zone_handle_packet gl (ti_now ti) c p (z, h, cs) = Some (z', h', cs')" using exec by (simp add: zone_exec_def)
  then have "z' = z" by (rule zone_handle_packet_frame)
  then show ?thesis by simp
qed

end
