(* ===== verification/Process.thy ===== *)
theory Process
  imports Boot Typing_Throws
begin

text \<open>
  The process once \<open>main\<close> serves: everything that the worker threads do, the signal, and the end. The
  handler of the signal calls \<open>Server::stop\<close>, waits until the clean-up that it posted has run on the
  strand of the server, stops the workers, and \<open>main\<close> returns \<open>EXIT_SUCCESS\<close>.
\<close>

section \<open>What the workers do\<close>

text \<open>One event of the running server, as in \<open>server_reach\<close>, but for \<open>start\<close> and \<open>stop\<close>, which only \<open>main\<close>
  calls.\<close>

inductive server_event :: "(string \<Rightarrow> string \<Rightarrow> bool) \<Rightarrow> vec3 \<Rightarrow> glm \<Rightarrow> server \<Rightarrow> server \<Rightarrow> bool"
  for token_ok shape_size gl where
  accepted: "accept_round outcome s = Some s' \<Longrightarrow> outcome \<noteq> Accepted False \<Longrightarrow> server_event token_ok shape_size gl s s'"
| profiled: "profiler_round ec now s = Some s' \<Longrightarrow> server_event token_ok shape_size gl s s'"
| received: "packet_received c bytes p now s = Some s' \<Longrightarrow> server_event token_ok shape_size gl s s'"
| client: "sv_store s c = Some cl \<Longrightarrow> client_may cl evs cl'
    \<Longrightarrow> server_event token_ok shape_size gl s (sv_client_events c evs (sv_set_client c cl' s))"
| strand: "server_step token_ok now s = Some (Inr s') \<Longrightarrow> server_event token_ok shape_size gl s s'"
| joined: "join_resume shape_size db i s = Some s' \<Longrightarrow> server_event token_ok shape_size gl s s'"
| zone: "server_zone_step gl ti zid s = Some (Inr s') \<Longrightarrow> server_event token_ok shape_size gl s s'"
| waited: "server_machine_step ev a s = Some s' \<Longrightarrow> server_event token_ok shape_size gl s s'"

lemma server_event_reach:
  assumes "server_event token_ok sz gl s s'" "server_reach token_ok sz gl s V"
  shows "\<exists>V'. server_reach token_ok sz gl s' V'"
  using assms by (induction rule: server_event.induct) (blast intro: server_reach.intros)+

text \<open>A handler that throws.\<close>

definition handler_throws :: "(string \<Rightarrow> string \<Rightarrow> bool) \<Rightarrow> glm \<Rightarrow> server \<Rightarrow> cxx_exn \<Rightarrow> bool" where
  "handler_throws token_ok gl s ex \<longleftrightarrow>
     (\<exists>now. server_step token_ok now s = Some (Inl ex)) \<or> (\<exists>ti zid. server_zone_step gl ti zid s = Some (Inl ex))"

section \<open>The process\<close>

definition cleanup_done :: "server \<Rightarrow> bool" where
  "cleanup_done s \<longleftrightarrow> Sj_cleanup \<notin> set (sv_strand s)"

inductive process_step :: "(string \<Rightarrow> string \<Rightarrow> bool) \<Rightarrow> vec3 \<Rightarrow> glm \<Rightarrow> process \<Rightarrow> process \<Rightarrow> bool"
  for token_ok shape_size gl where
  serves: "server_event token_ok shape_size gl s s' \<Longrightarrow> process_step token_ok shape_size gl (Serving s) (Serving s')"
| signal: "process_step token_ok shape_size gl (Serving s) (Stopping (server_stop s))"
| stops: "server_event token_ok shape_size gl s s' \<Longrightarrow> process_step token_ok shape_size gl (Stopping s) (Stopping s')"
| returns: "cleanup_done s \<Longrightarrow> process_step token_ok shape_size gl (Stopping s) (Exit_success s)"
| throws: "p = Serving s \<or> p = Stopping s \<Longrightarrow> handler_throws token_ok gl s ex
    \<Longrightarrow> process_step token_ok shape_size gl p (Handler_threw ex s)"

text \<open>The states of a process that was started on the host \<open>h\<close>. The verifier of the tokens gets the key that
  the settings name.\<close>

inductive process_reach :: "(string \<Rightarrow> string \<Rightarrow> string \<Rightarrow> bool) \<Rightarrow> glm \<Rightarrow> host \<Rightarrow> process \<Rightarrow> bool" for jwt_ok gl h where
  booted: "main_entry h = Some p \<Longrightarrow> process_reach jwt_ok gl h p"
| step: "process_reach jwt_ok gl h p \<Longrightarrow> process_step (jwt_ok (jwt_key_of h)) (shape_of h) gl p p'
    \<Longrightarrow> process_reach jwt_ok gl h p'"

section \<open>What no event does\<close>

text \<open>An event neither starts nor stops the server, opens or closes the acceptor, or makes a zone; it posts to the
  strand, but no clean-up.\<close>

definition goes_on :: "server \<Rightarrow> server \<Rightarrow> bool" where
  "goes_on s s' \<longleftrightarrow> sv_running s' = sv_running s \<and> sv_acceptor_open s' = sv_acceptor_open s
     \<and> (sv_zones s = [] \<longrightarrow> sv_zones s' = [])
     \<and> (\<exists>js. sv_strand s' = sv_strand s @ js \<and> Sj_cleanup \<notin> set js)"

lemma goes_on_fields:
  "sv_running s' = sv_running s \<Longrightarrow> sv_acceptor_open s' = sv_acceptor_open s \<Longrightarrow> sv_zones s' = sv_zones s
     \<Longrightarrow> sv_strand s' = sv_strand s \<Longrightarrow> goes_on s s'"
  by (simp add: goes_on_def)

lemma goes_on_refl [simp]: "goes_on s s"
  by (rule goes_on_fields) simp_all

lemma goes_on_trans: "goes_on s s' \<Longrightarrow> goes_on s' s'' \<Longrightarrow> goes_on s s''"
  by (auto simp: goes_on_def)

lemma goes_on_post: "j \<noteq> Sj_cleanup \<Longrightarrow> goes_on s (sv_post j s)"
  by (simp add: goes_on_def sv_post_def)

lemma goes_on_set_client [simp]: "goes_on s (sv_set_client c cl s)"
  by (rule goes_on_fields) (simp_all add: sv_set_client_def)

lemma goes_on_events [simp]: "goes_on s (sv_client_events c evs s)"
proof -
  have "goes_on s (fold (\<lambda>ev s. case ev of Disconnected \<Rightarrow> remove_client_deferred c s | _ \<Rightarrow> s) evs s)"
    by (rule fold_invariant[where P = "goes_on s"])
      (auto simp: remove_client_deferred_def intro: goes_on_trans goes_on_post split: conn_event.split)
  then show ?thesis by (simp add: sv_client_events_def)
qed

lemma goes_on_stop_client: "sv_stop_client c s = Some s' \<Longrightarrow> goes_on s s'"
  by (auto simp: sv_stop_client_def split_beta intro: goes_on_trans[OF goes_on_set_client goes_on_events])

lemma goes_on_send: "sv_send c p s = Some s' \<Longrightarrow> goes_on s s'"
  by (auto simp: sv_send_def intro: goes_on_fields)

lemma goes_on_on_zone: "on_zone zid f s = Inr s' \<Longrightarrow> goes_on s s'"
  by (auto simp: on_zone_Inr goes_on_def um_find_def)

lemmas goes_on_steps = goes_on_stop_client goes_on_send goes_on_on_zone

lemma goes_on_packet:
  assumes "server_handle_packet token_ok c p s = Some (Inr s')"
  shows "goes_on s s'"
  using assms
proof (cases rule: packet_cases)
  case (join req)
  from join(2) show ?thesis
  proof (cases rule: join_start_cases)
    case (verified cl n username token)
    then show ?thesis by (auto simp: sv_set_client_def intro: goes_on_fields)
  qed (rule goes_on_stop_client)
next
  case (enter location)
  then show ?thesis
  proof (cases rule: enter_zone_cases)
    case (moved cl cur nxt s1 s2)
    have "goes_on s s1" using moved(4) goes_on_on_zone by (auto split: if_splits)
    moreover have "goes_on s1 s2" by (rule goes_on_on_zone[OF moved(5)])
    moreover have "goes_on s2 (s2\<lparr>sv_current_zone := um_assign (client_id cl) nxt (sv_current_zone s2)\<rparr>)"
      by (rule goes_on_fields) simp_all
    ultimately show ?thesis using goes_on_send[OF moved(6)] goes_on_trans by blast
  qed (auto intro: goes_on_stop_client)
qed (auto intro: goes_on_steps)

lemma goes_on_exec:
  assumes exec: "server_exec token_ok now j s = Some (Inr s')" and j: "j \<noteq> Sj_cleanup"
  shows "goes_on s s'"
proof (cases j)
  case (Sj_add c)
  then have "server_add_client c now s = Some (Inr s')" using exec by (simp add: server_exec_def)
  then show ?thesis by (cases rule: add_client_cases) (auto simp: sv_set_client_def intro: goes_on_fields)
next
  case (Sj_remove c)
  then have "server_remove_client c s = Some (Inr s')" using exec by (simp add: server_exec_def)
  then show ?thesis
  proof (cases rule: remove_client_cases)
    case (1 s1 cl zid s2)
    have "goes_on s1 s2" using 1(4) goes_on_on_zone by (auto split: if_splits)
    moreover have "goes_on s2 s'" by (rule goes_on_fields) (simp_all add: 1(5))
    ultimately show ?thesis using goes_on_trans goes_on_stop_client[OF 1(1)] by blast
  qed
next
  case (Sj_packet c p)
  then have "s' = s \<or> server_handle_packet token_ok c p s = Some (Inr s')"
    using exec detached_Inr by (simp add: server_exec_def)
  then show ?thesis using goes_on_packet by auto
qed (use j in simp)

text \<open>The clean-up leaves no zone.\<close>

lemma cleanup_leaves:
  assumes "server_cleanup s = Some s'"
  shows "goes_on s s' \<and> sv_zones s' = []"
  using assms
proof (cases rule: cleanup_cases)
  case (1 s1)
  have "goes_on s s1"
    by (rule fold_opt_invariant[OF 1(1), where P = "goes_on s"]) (auto intro: goes_on_trans goes_on_stop_client)
  then show ?thesis by (simp add: 1(2) goes_on_def)
qed

lemma goes_on_join:
  assumes "join_request_finish sz db c s = Some s'"
  shows "goes_on s s'"
  using assms
proof (cases rule: join_finish_cases)
  case (loaded w player cl)
  have "goes_on s (s\<lparr>sv_world := w\<rparr>)" by (rule goes_on_fields) simp_all
  then have "goes_on s (sv_set_client c (cl\<lparr>cl_player := player\<rparr>) (s\<lparr>sv_world := w\<rparr>))"
    using goes_on_trans goes_on_set_client by blast
  then show ?thesis using loaded(2) goes_on_trans goes_on_stop_client goes_on_send by blast
qed (auto intro: goes_on_stop_client goes_on_fields)

lemma strand_step_goes_on:
  assumes "server_step token_ok now s = Some (Inr s')"
  shows "\<exists>j js. sv_strand s = j # js \<and> goes_on (s\<lparr>sv_strand := js\<rparr>) s' \<and> (j = Sj_cleanup \<longrightarrow> sv_zones s' = [])"
proof -
  obtain j js where j: "sv_strand s = j # js" "server_exec token_ok now j (s\<lparr>sv_strand := js\<rparr>) = Some (Inr s')"
    using assms by (auto simp: server_step_def split: list.splits)
  have "goes_on (s\<lparr>sv_strand := js\<rparr>) s' \<and> (j = Sj_cleanup \<longrightarrow> sv_zones s' = [])"
  proof (cases "j = Sj_cleanup")
    case True
    then have "server_cleanup (s\<lparr>sv_strand := js\<rparr>) = Some s'" using j(2) by (simp add: server_exec_def)
    then show ?thesis using cleanup_leaves by blast
  next
    case False
    then show ?thesis using goes_on_exec[OF j(2)] by blast
  qed
  then show ?thesis using j(1) by blast
qed

text \<open>So an event goes on, or runs the first job of the strand.\<close>

lemma event_goes_on:
  assumes "server_event token_ok sz gl s s'"
  shows "goes_on s s' \<or> (\<exists>now. server_step token_ok now s = Some (Inr s'))"
  using assms
proof (induction rule: server_event.induct)
  case (accepted outcome s s')
  have "goes_on s (add_client_deferred True s)"
    by (simp add: goes_on_def add_client_deferred_def Let_def sv_post_def)
  moreover have "goes_on s1 s' " if "s' = s1 \<or> s' = s1\<lparr>sv_accepting := False\<rparr>" for s1
    using that by (auto intro: goes_on_fields)
  ultimately show ?case using accept_cases[OF accepted] goes_on_trans goes_on_refl by metis
next
  case (profiled ec now s s')
  then show ?case by (auto simp: profiler_round_def intro: goes_on_fields split: if_splits)
next
  case (received c bytes p now s s')
  then show ?case
  proof (cases rule: packet_received_cases)
    case (1 cl t)
    have t: "goes_on s t" by (rule goes_on_fields) (simp_all add: 1(2) sv_set_client_def)
    then have "goes_on s s'"
      using 1(3) goes_on_trans goes_on_stop_client goes_on_post[of "Sj_packet c q" t for q] by (cases p) auto
    then show ?thesis ..
  qed
next
  case (client s c cl evs cl')
  then show ?case using goes_on_trans[OF goes_on_set_client goes_on_events] by blast
next
  case (strand now s s')
  then show ?case by blast
next
  case (joined db i s s')
  then obtain c js where f: "join_request_finish sz db c (s\<lparr>sv_joins := js\<rparr>) = Some s'"
    by (auto simp: join_resume_def split: if_splits)
  have "goes_on s (s\<lparr>sv_joins := js\<rparr>)" by (rule goes_on_fields) simp_all
  then show ?case using goes_on_trans goes_on_join[OF f] by blast
next
  case (zone ti zid s s')
  then show ?case by (cases rule: server_zone_step_cases) (auto simp: goes_on_def um_find_def)
next
  case (waited ev a s s')
  then show ?case by (cases rule: machine_step_cases) (auto intro: goes_on_fields)
qed

section \<open>The clean-up comes\<close>

text \<open>The clean-up has run and no zone is left, or fewer than \<open>n\<close> jobs wait before it, and it is the only one.\<close>

definition clean_within :: "nat \<Rightarrow> server \<Rightarrow> bool" where
  "clean_within n s \<longleftrightarrow> (cleanup_done s \<and> sv_zones s = [])
     \<or> (\<exists>pre post. sv_strand s = pre @ Sj_cleanup # post \<and> Sj_cleanup \<notin> set pre \<union> set post \<and> length pre < n)"

lemma clean_within_done: "clean_within n s \<Longrightarrow> cleanup_done s \<Longrightarrow> sv_zones s = []"
  by (auto simp: clean_within_def cleanup_done_def)

lemma clean_within_0: "clean_within 0 s \<longleftrightarrow> cleanup_done s \<and> sv_zones s = []"
  by (simp add: clean_within_def)

lemma clean_within_stop:
  "sv_running s \<Longrightarrow> cleanup_done s \<Longrightarrow> clean_within (Suc (length (sv_strand s))) (server_stop s)"
  unfolding clean_within_def
  by (intro disjI2 exI[of _ "sv_strand s"] exI[of _ "[]"]) (simp add: server_stop_def sv_post_def cleanup_done_def)

lemma clean_within_goes_on:
  assumes "goes_on s s'" "clean_within n s"
  shows "clean_within n s'"
proof -
  obtain js where js: "sv_strand s' = sv_strand s @ js" "Sj_cleanup \<notin> set js" "sv_zones s = [] \<longrightarrow> sv_zones s' = []"
    using assms(1) by (auto simp: goes_on_def)
  show ?thesis
  proof (cases "cleanup_done s \<and> sv_zones s = []")
    case True
    then show ?thesis using js by (simp add: clean_within_def cleanup_done_def)
  next
    case False
    then obtain pre post where "sv_strand s = pre @ Sj_cleanup # post" "Sj_cleanup \<notin> set pre \<union> set post" "length pre < n"
      using assms(2) unfolding clean_within_def by blast
    then have "sv_strand s' = pre @ Sj_cleanup # (post @ js)" "Sj_cleanup \<notin> set pre \<union> set (post @ js)" "length pre < n"
      using js by simp_all
    then show ?thesis unfolding clean_within_def by blast
  qed
qed

lemma clean_within_turn:
  assumes "server_step token_ok now s = Some (Inr s')" "clean_within n s"
  shows "clean_within (n - 1) s'"
proof -
  obtain j js where j: "sv_strand s = j # js" "goes_on (s\<lparr>sv_strand := js\<rparr>) s'" "j = Sj_cleanup \<longrightarrow> sv_zones s' = []"
    using strand_step_goes_on[OF assms(1)] by blast
  let ?s = "s\<lparr>sv_strand := js\<rparr>"
  consider (clean) "Sj_cleanup \<notin> set (j # js)" "sv_zones s = []" | (now) "j = Sj_cleanup" "Sj_cleanup \<notin> set js"
    | (later) pre post where "js = pre @ Sj_cleanup # post" "Sj_cleanup \<notin> set pre \<union> set post" "Suc (length pre) < n"
    using assms(2) j(1) by (auto simp: clean_within_def cleanup_done_def Cons_eq_append_conv)
  then show ?thesis
  proof cases
    case clean
    then have "clean_within (n - 1) ?s" by (simp add: clean_within_def cleanup_done_def)
    then show ?thesis using clean_within_goes_on[OF j(2)] by blast
  next
    case now
    then have "cleanup_done s'" using j(2) by (auto simp: goes_on_def cleanup_done_def)
    then show ?thesis using j(3) now(1) by (simp add: clean_within_def)
  next
    case later
    then have "sv_strand ?s = pre @ Sj_cleanup # post" "length pre < n - 1" by simp_all
    then have "clean_within (n - 1) ?s" unfolding clean_within_def using later(2) by blast
    then show ?thesis using clean_within_goes_on[OF j(2)] by blast
  qed
qed

lemma clean_within_mono: "clean_within m s \<Longrightarrow> m \<le> n \<Longrightarrow> clean_within n s"
  unfolding clean_within_def by (meson order_less_le_trans)

lemma clean_within_event:
  assumes "server_event token_ok sz gl s s'" "clean_within n s"
  shows "clean_within n s'"
  using event_goes_on[OF assms(1)] clean_within_goes_on[OF _ assms(2)] clean_within_turn[OF _ assms(2)]
    clean_within_mono[of "n - 1" s' n] by auto

lemma event_running:
  assumes "server_event token_ok sz gl s s'"
  shows "sv_running s' = sv_running s" "sv_acceptor_open s' = sv_acceptor_open s" "cleanup_done s \<Longrightarrow> cleanup_done s'"
proof -
  consider "goes_on s s'" | j js where "sv_strand s = j # js" "goes_on (s\<lparr>sv_strand := js\<rparr>) s'"
    using event_goes_on[OF assms] strand_step_goes_on by blast
  then show "sv_running s' = sv_running s" "sv_acceptor_open s' = sv_acceptor_open s" "cleanup_done s \<Longrightarrow> cleanup_done s'"
    by (cases; auto simp: goes_on_def cleanup_done_def)+
qed

section \<open>No handler throws\<close>

text \<open>The zone files whose dimensions fit an \<open>int\<close> and whose product does not wrap.\<close>

fun zone_file_fits :: "zone_file \<Rightarrow> bool" where
  "zone_file_fits (File_verified d) \<longleftrightarrow> uint (zd_size_x d) < 2 ^ 31 \<and> uint (zd_size_z d) < 2 ^ 31
     \<and> uint (zd_size_x d) * uint (zd_size_z d) < 2 ^ 32"
| "zone_file_fits _ \<longleftrightarrow> True"

definition grids_formed :: "server \<Rightarrow> bool" where
  "grids_formed s \<longleftrightarrow> (\<forall>zid z. um_find (sv_zones s) zid = Some z \<longrightarrow> wf_grid (sw_obstacles_grid (zn_subworld z)))"

lemma created_zone_formed:
  assumes c: "zone_create i zf = Some (Some z)" and fits: "zone_file_fits zf"
  shows "wf_grid (sw_obstacles_grid (zn_subworld z))"
proof -
  obtain d where d: "zf = File_verified d" using c by (cases zf) (auto simp: zone_create_def)
  then obtain flags where flags: "zd_grid d = Some flags" using c by (cases "zd_grid d") (auto simp: zone_create_def)
  from zone_create_formed[OF flags, of i] fits c d show ?thesis by (auto split: if_splits)
qed

lemma grids_formed_init:
  assumes init: "server_init sz files (server_new empty_world) = Some (Inr s)"
    and fits: "list_all (\<lambda>i. zone_file_fits (files i)) zone_ids"
  shows "grids_formed s"
proof -
  obtain s1 where f: "fold_opt (init_zone files) zone_ids (server_new empty_world) = Some s1"
    using init by (auto simp: server_init_def zone_ids_def bind_eq_Some_conv)
  have s1: "grids_formed s1"
  proof (rule fold_opt_invariant[OF f])
    show "grids_formed (server_new empty_world)" by (simp add: grids_formed_def server_new_def um_find_def)
  next
    fix i s t assume i: "i \<in> set zone_ids" and s: "grids_formed s" and t: "init_zone files i s = Some t"
    have fit: "zone_file_fits (files i)" using fits i by (simp add: list_all_iff)
    from t obtain zo where zo: "zone_create i (files i) = Some zo"
      and t': "t = (case zo of None \<Rightarrow> s | Some z \<Rightarrow> s\<lparr>sv_zones := um_assign i z (sv_zones s)\<rparr>)"
      by (auto simp: init_zone_def)
    show "grids_formed t"
      using s t' zo created_zone_formed[OF _ fit, of i] by (cases zo) (auto simp: grids_formed_def split: if_splits)
  qed
  obtain mo w z sw where z: "um_find (sv_zones s1) 1 = Some z" "add_entity (wd_heap w) mo (zn_subworld z) = Some sw"
    and s: "s = s1\<lparr>sv_world := w, sv_zones := um_assign 1 (z\<lparr>zn_subworld := sw\<rparr>) (sv_zones s1)\<rparr>"
    using init f by (auto simp: server_init_def zone_ids_def Let_def um_at_def bind_eq_Some_conv split: option.splits)
  show ?thesis using s1 z(1) s grid_of_maps(1)[OF z(2)] by (auto simp: grids_formed_def split: if_splits)
qed

lemma grids_formed_calm: "calm s s' \<Longrightarrow> grids_formed s \<Longrightarrow> grids_formed s'"
  unfolding calm_def grids_formed_def by metis

lemma grids_formed_tables: "same_tables s s' \<Longrightarrow> grids_formed s \<Longrightarrow> grids_formed s'"
  by (simp add: same_tables_def grids_formed_def)

lemma grids_formed_event:
  assumes "server_event token_ok sz gl s s'" "grids_formed s" "server_typed s"
  shows "grids_formed s'"
  using assms
proof (induction rule: server_event.induct)
  case (accepted outcome s s')
  then obtain s1 where "s1 = s \<or> s1 = add_client_deferred True s" "s' = s1 \<or> s' = s1\<lparr>sv_accepting := False\<rparr>"
    using accept_cases by blast
  then have "sv_zones s' = sv_zones s" by (auto simp: add_client_deferred_def Let_def sv_post_def)
  then show ?case using accepted by (simp add: grids_formed_def)
next
  case (profiled ec now s s')
  then have "same_tables s s'" by (auto simp: profiler_round_def same_tables_def split: if_splits)
  then show ?case using profiled grids_formed_tables by blast
next
  case (received c bytes p now s s')
  then show ?case using same_tables_packet_received grids_formed_tables by blast
next
  case (client s c cl evs cl')
  then have "same_tables s (sv_set_client c cl' s)" by (intro same_tables_set_client) (auto simp: client_may_def)
  then show ?case using same_tables_trans[OF _ same_tables_events] grids_formed_tables client.prems by blast
next
  case (strand now s s')
  then obtain j js where j: "server_exec token_ok now j (s\<lparr>sv_strand := js\<rparr>) = Some (Inr s')"
    by (auto simp: server_step_def split: list.splits)
  have "grids_formed (s\<lparr>sv_strand := js\<rparr>)" using strand.prems by (simp add: grids_formed_def)
  then show ?case using grids_formed_calm calm_exec[OF j] by blast
next
  case (joined db i s s')
  then obtain c js where f: "join_request_finish sz db c (s\<lparr>sv_joins := js\<rparr>) = Some s'"
    by (auto simp: join_resume_def split: if_splits)
  have "same_tables s (s\<lparr>sv_joins := js\<rparr>)" by (simp add: same_tables_def)
  then show ?case using same_tables_trans same_tables_join_finish[OF f] grids_formed_tables joined.prems by blast
next
  case (zone ti zid s s')
  from zone.hyps(1) show ?case
  proof (cases rule: server_zone_step_cases)
    case (1 z z' h' cs')
    have h: "heap_typed (wd_heap (sv_world s))" using zone.prems by (simp add: server_typed_def world_typed_def)
    obtain j js where exec: "zone_exec gl ti j (z\<lparr>zn_strand := js\<rparr>, wd_heap (sv_world s), sv_store s) = Some (Inr (z', h', cs'))"
      using 1(2) by (auto simp: zone_step_def split: list.splits)
    show ?thesis
      using zone.prems 1 zone_exec_grid[OF exec h] by (auto simp: grids_formed_def split: if_splits)
  qed
next
  case (waited ev a s s')
  then have "same_tables s s'" by (auto simp: same_tables_def elim: machine_step_cases)
  then show ?case using waited grids_formed_tables by blast
qed

lemma zone_step_no_throw:
  assumes s: "server_typed s" "grids_formed s"
  shows "server_zone_step gl ti zid s \<noteq> Some (Inl ex)"
proof
  assume "server_zone_step gl ti zid s = Some (Inl ex)"
  then obtain z j js where z: "um_find (sv_zones s) zid = Some z"
    and exec: "zone_exec gl ti j (z\<lparr>zn_strand := js\<rparr>, wd_heap (sv_world s), sv_store s) = Some (Inl ex)"
    by (auto simp: server_zone_step_def zone_step_def map_sum_Inl split: option.splits list.splits)
  have t: "heap_typed (wd_heap (sv_world s))" "zone_typed (typing (wd_heap (sv_world s))) (sv_store s) z"
    using s(1) z by (auto simp: server_typed_def world_typed_def)
  have "wf_grid (sw_obstacles_grid (zn_subworld z))" using s(2) z by (simp add: grids_formed_def)
  then show False
    using zone_exec_no_throw[OF t(1), of "z\<lparr>zn_strand := js\<rparr>" "sv_store s" gl ti j ex] t(2) exec
    by (simp add: zone_typed_def)
qed

section \<open>From the start to the end\<close>

definition process_inv :: "(string \<Rightarrow> string \<Rightarrow> bool) \<Rightarrow> vec3 \<Rightarrow> glm \<Rightarrow> process \<Rightarrow> bool" where
  "process_inv token_ok sz gl p \<longleftrightarrow>
     (case p of
        Serving s \<Rightarrow> (\<exists>V. server_reach token_ok sz gl s V) \<and> grids_formed s \<and> sv_running s \<and> sv_acceptor_open s
          \<and> cleanup_done s
      | Stopping s \<Rightarrow> (\<exists>V. server_reach token_ok sz gl s V) \<and> grids_formed s \<and> \<not> sv_running s \<and> \<not> sv_acceptor_open s
          \<and> (\<exists>n. clean_within n s)
      | Exit_success s \<Rightarrow> \<not> sv_running s \<and> \<not> sv_acceptor_open s \<and> sv_zones s = []
      | Handler_threw ex s \<Rightarrow> 2 ^ 32 \<le> sv_next_addr s
      | _ \<Rightarrow> True)"

lemma handler_no_throw:
  assumes "server_reach token_ok sz gl s V" "grids_formed s" "handler_throws token_ok gl s ex"
  shows "2 ^ 32 \<le> sv_next_addr s"
  using assms server_step_no_throw[OF assms(1)] zone_step_no_throw[OF server_reach_typed[OF assms(1)] assms(2)]
  unfolding handler_throws_def by (meson not_le_imp_less)

lemma process_inv_booted:
  assumes "main_entry h = Some p" "list_all (\<lambda>i. zone_file_fits (hs_zone_files h i)) zone_ids"
  shows "process_inv token_ok (shape_of h) gl p"
proof (cases "\<exists>s. p = Serving s")
  case True
  then obtain fist s where fist: "loader_load_all (hs_parse h) (hs_files h) (hs_data_root h) = Inr fist"
    and s: "server_init (attack_shape_size fist) (hs_zone_files h) (server_new empty_world) = Some (Inr s)"
    and p: "p = Serving (server_start s)"
    using assms(1) by (auto simp: main_entry_cases split: option.splits sum.splits if_splits)
  have r: "server_reach token_ok (shape_of h) gl (server_start s) {}"
    using s fist by (intro server_reach.started server_reach.created) (simp add: shape_of_def)
  have "grids_formed (server_start s)"
    using grids_formed_init[OF s assms(2)] by (simp add: server_start_def grids_formed_def)
  then show ?thesis
    using r server_init_monster[OF s] by (auto simp: p process_inv_def server_start_def cleanup_done_def)
next
  case False
  then show ?thesis
    using assms(1) by (auto simp: main_entry_cases process_inv_def split: option.splits sum.splits if_splits)
qed

lemma process_inv_step:
  assumes "process_step token_ok sz gl p p'" "process_inv token_ok sz gl p"
  shows "process_inv token_ok sz gl p'"
  using assms
proof (induction rule: process_step.induct)
  case (serves s s')
  then show ?case
    using server_event_reach server_reach_typed grids_formed_event event_running
    unfolding process_inv_def process.case by metis
next
  case (signal s)
  then have s: "\<exists>V. server_reach token_ok sz gl s V" "grids_formed s" "sv_running s" "cleanup_done s"
    by (simp_all add: process_inv_def)
  have "\<exists>V. server_reach token_ok sz gl (server_stop s) V" using s(1) server_reach.stopped by blast
  moreover have "grids_formed (server_stop s)"
    using s(2) by (simp add: server_stop_def sv_post_def grids_formed_def)
  ultimately show ?case
    using clean_within_stop[OF s(3,4)] s(3)
    by (auto simp: process_inv_def) (auto simp: server_stop_def sv_post_def)
next
  case (stops s s')
  then show ?case
    using server_event_reach server_reach_typed grids_formed_event event_running(1,2) clean_within_event
    unfolding process_inv_def process.case by metis
next
  case (returns s)
  then show ?case using clean_within_done by (auto simp: process_inv_def)
next
  case (throws p s ex)
  then have "\<exists>V. server_reach token_ok sz gl s V" "grids_formed s" by (auto simp: process_inv_def)
  then show ?case using handler_no_throw throws(2) by (auto simp: process_inv_def)
qed

lemma process_reach_inv:
  assumes "process_reach jwt_ok gl h p" "list_all (\<lambda>i. zone_file_fits (hs_zone_files h i)) zone_ids"
  shows "process_inv (jwt_ok (jwt_key_of h)) (shape_of h) gl p"
  using assms by (induction rule: process_reach.induct) (auto intro: process_inv_booted process_inv_step)

text \<open>C4. When the dimensions in the zone files fit their types, a process that was started serves with a running
  server and an open acceptor; a signal closes the acceptor; and it only returns when no zone is left. No
  handler takes it down with an exception before \<open>2 ^ 32\<close> clients have connected.\<close>

theorem process_ends_cleanly:
  assumes "process_reach jwt_ok gl h p" "list_all (\<lambda>i. zone_file_fits (hs_zone_files h i)) zone_ids"
  shows "case p of
      Serving s \<Rightarrow> sv_running s \<and> sv_acceptor_open s \<and> server_typed s
    | Stopping s \<Rightarrow> \<not> sv_running s \<and> \<not> sv_acceptor_open s \<and> server_typed s \<and> (Sj_cleanup \<in> set (sv_strand s) \<or> sv_zones s = [])
    | Exit_success s \<Rightarrow> \<not> sv_running s \<and> \<not> sv_acceptor_open s \<and> sv_zones s = []
    | Handler_threw ex s \<Rightarrow> 2 ^ 32 \<le> sv_next_addr s
    | _ \<Rightarrow> True"
  using process_reach_inv[OF assms]
  by (auto simp: process_inv_def server_reach_typed cleanup_done_def split: process.splits dest: clean_within_done)

section \<open>The signal returns\<close>

text \<open>A run in which the strand of the server has had \<open>k\<close> turns (at least), with anything else in between.\<close>

inductive strand_turns :: "(string \<Rightarrow> string \<Rightarrow> bool) \<Rightarrow> vec3 \<Rightarrow> glm \<Rightarrow> nat \<Rightarrow> server \<Rightarrow> server \<Rightarrow> bool"
  for token_ok shape_size gl where
  stays: "strand_turns token_ok shape_size gl 0 s s"
| turn: "strand_turns token_ok shape_size gl k s s' \<Longrightarrow> server_step token_ok now s' = Some (Inr s'')
    \<Longrightarrow> strand_turns token_ok shape_size gl (Suc k) s s''"
| other: "strand_turns token_ok shape_size gl k s s' \<Longrightarrow> server_event token_ok shape_size gl s' s''
    \<Longrightarrow> strand_turns token_ok shape_size gl k s s''"

lemma clean_within_turns:
  "strand_turns token_ok sz gl k s s' \<Longrightarrow> clean_within n s \<Longrightarrow> clean_within (n - k) s'"
proof (induction rule: strand_turns.induct)
  case (turn k s s' now s'')
  then show ?case using clean_within_turn[OF turn.hyps(2), of "n - k"] by simp
qed (simp_all add: clean_within_event)

text \<open>C27. The wait of the signal's handler ends: once the strand of the server has run the jobs that were posted
  before the signal, and one more, the clean-up has run, no zone is left, and the process can return,
  whatever the zones, the clients and the database did meanwhile.\<close>

theorem signal_returns:
  assumes "process_reach jwt_ok gl h (Serving s)" "list_all (\<lambda>i. zone_file_fits (hs_zone_files h i)) zone_ids"
    and "strand_turns (jwt_ok (jwt_key_of h)) (shape_of h) gl k (server_stop s) s'" "length (sv_strand s) < k"
  shows "sv_zones s' = [] \<and> process_step (jwt_ok (jwt_key_of h)) (shape_of h) gl (Stopping s') (Exit_success s')"
proof -
  have "sv_running s" "cleanup_done s" using process_reach_inv[OF assms(1,2)] by (simp_all add: process_inv_def)
  from clean_within_turns[OF assms(3) clean_within_stop[OF this]] assms(4) have "clean_within 0 s'" by simp
  then show ?thesis by (simp add: clean_within_0 process_step.returns)
qed

section \<open>A run for the witnesses\<close>

text \<open>The sample host boots, and a signal arrives at once.\<close>

lemma sample_host_fits: "list_all (\<lambda>i. zone_file_fits (hs_zone_files sample_host i)) zone_ids"
  by (simp add: zone_ids_def sample_host_def tiny_files_def)

lemma sample_host_serves:
  obtains s where "main_entry sample_host = Some (Serving s)" "sv_strand s = []" "sv_running s" "sv_clients s = []"
proof -
  obtain st fist where st: "settings_init (hs_env sample_host) (hs_files sample_host) = Some (Inr st)"
    "acceptor_opens (hs_acceptor sample_host) st"
    and fist: "loader_load_all (hs_parse sample_host) (hs_files sample_host) (hs_data_root sample_host) = Inr fist"
    using sample_host_settings sample_host_loads by blast
  let ?init = "server_init (attack_shape_size fist) (hs_zone_files sample_host) (server_new empty_world)"
  have "?init \<noteq> None" "?init \<noteq> Some (Inl ex)" for ex
    using server_init_none[of "attack_shape_size fist" "hs_zone_files sample_host"] sample_host_zones by auto
  then obtain s where s: "?init = Some (Inr s)" by (cases ?init; cases "the ?init") auto
  have "main_entry sample_host = Some (Serving (server_start s))" using st fist s by (simp add: main_entry_cases)
  moreover have "sv_strand (server_start s) = []" "sv_running (server_start s)"
    using server_init_monster[OF s] by (auto simp: server_start_def)
  moreover have "sv_clients (server_start s) = []" using server_init_tables[OF s] by (simp add: server_start_def)
  ultimately show thesis by (rule that)
qed

lemma sample_process:
  obtains s s' where "process_reach jwt_ok gl sample_host (Serving s)" "sv_strand s = []"
    "server_step token_ok 0 (server_stop s) = Some (Inr s')"
proof -
  obtain s where s: "main_entry sample_host = Some (Serving s)" "sv_strand s = []" "sv_running s" "sv_clients s = []"
    by (rule sample_host_serves)
  have "\<exists>s'. server_step token_ok 0 (server_stop s) = Some (Inr s')"
    using s(2-4) by (simp add: server_stop_def sv_post_def server_step_def server_exec_def server_cleanup_def um_values_def)
  then show thesis using that process_reach.booted[OF s(1)] s(2) by blast
qed

theorem process_ends_cleanly_witness:
  "\<exists>s. process_reach (\<lambda>_. same_string) sample_glm sample_host (Exit_success s) \<and> \<not> sv_running s \<and> sv_zones s = []"
proof -
  let ?jwt = "\<lambda>_ :: string. same_string"
  obtain s s' where s: "process_reach ?jwt sample_glm sample_host (Serving s)" "sv_strand s = []"
    "server_step (?jwt (jwt_key_of sample_host)) 0 (server_stop s) = Some (Inr s')"
    by (rule sample_process)
  have stop: "process_reach ?jwt sample_glm sample_host (Stopping (server_stop s))"
    using process_reach.step[OF s(1) process_step.signal] .
  have over: "process_reach ?jwt sample_glm sample_host (Stopping s')"
    by (rule process_reach.step[OF stop process_step.stops[OF server_event.strand[OF s(3)]]])
  have "sv_running s" "cleanup_done s" using process_reach_inv[OF s(1) sample_host_fits] by (simp_all add: process_inv_def)
  then have "clean_within 0 s'" using clean_within_turn[OF s(3) clean_within_stop] s(2) by simp
  then have "process_reach ?jwt sample_glm sample_host (Exit_success s')"
    using process_reach.step[OF over process_step.returns] by (simp add: clean_within_0)
  from process_ends_cleanly[OF this sample_host_fits] this show ?thesis by auto
qed

theorem signal_returns_witness:
  "\<exists>s s'. process_reach (\<lambda>_. same_string) sample_glm sample_host (Serving s)
     \<and> strand_turns same_string (shape_of sample_host) sample_glm 1 (server_stop s) s' \<and> sv_zones s' = []"
proof -
  let ?jwt = "\<lambda>_ :: string. same_string"
  obtain s s' where s: "process_reach ?jwt sample_glm sample_host (Serving s)" "sv_strand s = []"
    "server_step (?jwt (jwt_key_of sample_host)) 0 (server_stop s) = Some (Inr s')"
    by (rule sample_process)
  have t: "strand_turns (?jwt (jwt_key_of sample_host)) (shape_of sample_host) sample_glm 1 (server_stop s) s'"
    using strand_turns.turn[OF strand_turns.stays s(3)] by simp
  from signal_returns[OF s(1) sample_host_fits t] s(2) have "sv_zones s' = []" by simp
  then show ?thesis using s(1) t by blast
qed

end
