(* ===== verification/Lobby.thy ===== *)
theory Lobby
  imports Process
begin

text \<open>
  What the server promises about its clients, abstractly: a lobby, a partial function from the ids of the known
  clients to the zone each one is in (0 for none). A client connects, leaves, or enters a zone that exists.
  Every event of the server is such an action or changes nothing, and each action has its cause.
\<close>

section \<open>The lobby\<close>

datatype lobby_action = Connects u32 | Leaves u32 | Enters u32 u32 | Idles

type_synonym lobby = "u32 \<rightharpoonup> u32"

fun lobby_step :: "(u32 \<Rightarrow> bool) \<Rightarrow> lobby_action \<Rightarrow> lobby \<Rightarrow> lobby option" where
  "lobby_step is_zone (Connects i) m = Some (if m i = None then m(i \<mapsto> 0) else m)"
| "lobby_step is_zone (Leaves i) m = (if m i = None then None else Some (m(i := None)))"
| "lobby_step is_zone (Enters i z) m =
     (if m i = None \<or> m i = Some z \<or> \<not> is_zone z then None else Some (m(i \<mapsto> z)))"
| "lobby_step is_zone Idles m = Some m"

definition lobby_of :: "server \<Rightarrow> lobby" where
  "lobby_of s = um_find (sv_current_zone s)"

text \<open>The job of the strand that causes an action: it is the client's own.\<close>

definition caused_by :: "server_job list \<Rightarrow> clients \<Rightarrow> lobby_action \<Rightarrow> bool" where
  "caused_by strand cs act =
     (case (act, strand) of
        (Idles, _) \<Rightarrow> True
      | (Connects i, Sj_add c # _) \<Rightarrow> map_option client_id (cs c) = Some i
      | (Leaves i, Sj_remove c # _) \<Rightarrow> map_option client_id (cs c) = Some i
      | (Enters i z, Sj_packet c (In_PlayerEnterZoneRequest (Some (Some y))) # _) \<Rightarrow>
          map_option client_id (cs c) = Some i \<and> y = z
      | _ \<Rightarrow> False)"

definition refines_lobby :: "server \<Rightarrow> server \<Rightarrow> bool" where
  "refines_lobby s s' \<longleftrightarrow> (\<exists>act. lobby_step (um_contains (sv_zones s)) act (lobby_of s) = Some (lobby_of s')
     \<and> caused_by (sv_strand s) (sv_store s) act)"

lemma refines_idle: "sv_current_zone s' = sv_current_zone s \<Longrightarrow> refines_lobby s s'"
  unfolding refines_lobby_def by (intro exI[of _ Idles]) (simp add: lobby_of_def caused_by_def)

section \<open>The jobs of the strand\<close>

lemma on_zone_tables: "on_zone zid f s = Inr s' \<Longrightarrow> sv_current_zone s' = sv_current_zone s \<and> sv_store s' = sv_store s"
  by (auto simp: on_zone_Inr)

lemma stop_client_tables: "sv_stop_client c s = Some s' \<Longrightarrow> sv_current_zone s' = sv_current_zone s"
  using same_tables_stop_client by (simp add: same_tables_def)

lemma send_tables: "sv_send c p s = Some s' \<Longrightarrow> sv_current_zone s' = sv_current_zone s"
  by (auto simp: sv_send_def)

text \<open>Only a request to enter a zone changes the table.\<close>

lemma other_packets_stay:
  assumes h: "server_handle_packet token_ok c p s = Some (Inr s')" and p: "\<And>r. p \<noteq> In_PlayerEnterZoneRequest r"
  shows "sv_current_zone s' = sv_current_zone s"
proof -
  have route: "sv_current_zone s' = sv_current_zone s" if r: "route_packet c p s = Some (Inr s')"
  proof -
    obtain cl where cl: "sv_store s c = Some cl" using r by (auto simp: route_packet_def split: option.splits)
    show ?thesis
      using r cl stop_client_tables on_zone_tables
      by (auto simp: route_packet_def um_at_def split: if_splits option.splits)
  qed
  show ?thesis
  proof (cases p)
    case (In_ClientJoinRequest r)
    then obtain req where "join_request_start token_ok c req s = Some s'"
      using h by (auto simp: server_handle_packet_def bind_eq_Some_conv)
    then show ?thesis by (cases rule: join_start_cases) (auto simp: stop_client_tables sv_set_client_def)
  next
    case (In_Ping t)
    then show ?thesis using h send_tables by (auto simp: server_handle_packet_def bind_eq_Some_conv)
  qed (use h p route in \<open>auto simp: server_handle_packet_def\<close>)
qed

lemma enter_refines:
  assumes h: "handle_player_enter_zone_request c location s = Some (Inr s')"
  shows "sv_current_zone s' = sv_current_zone s
    \<or> (\<exists>cl z. location = Some z \<and> sv_store s c = Some cl
        \<and> lobby_step (um_contains (sv_zones s)) (Enters (client_id cl) z) (lobby_of s) = Some (lobby_of s'))"
proof -
  obtain cl where cl: "sv_store s c = Some cl"
    using h by (auto simp: handle_player_enter_zone_request_def bind_eq_Some_conv)
  obtain cur where cur: "um_find (sv_current_zone s) (client_id cl) = Some cur"
    using h cl by (auto simp: handle_player_enter_zone_request_def Let_def um_at_def split: option.splits)
  obtain z where z: "location = Some z"
    using h cl cur by (auto simp: handle_player_enter_zone_request_def Let_def um_at_def bind_eq_Some_conv)
  show ?thesis
  proof (cases "cur = z \<or> \<not> (cur = 0 \<or> um_contains (sv_zones s) cur) \<or> \<not> um_contains (sv_zones s) z")
    case True
    then have "s' = s \<or> sv_stop_client c s = Some s'"
      using h cl cur z by (auto simp: handle_player_enter_zone_request_def Let_def um_at_def split: if_split_asm)
    then show ?thesis using stop_client_tables by blast
  next
    case False
    then obtain s1 s2 where s1: "(if cur \<noteq> 0 then on_zone cur (zone_remove_client_deferred c) s else Inr s) = Inr s1"
      and s2: "on_zone z (zone_add_client_deferred c) s1 = Inr s2"
      and sent: "sv_send c (Out_PlayerEnterZoneResponse z)
          (s2\<lparr>sv_current_zone := um_assign (client_id cl) z (sv_current_zone s2)\<rparr>) = Some s'"
      using h cl cur z
      by (auto simp: handle_player_enter_zone_request_def Let_def um_at_def split: if_split_asm sum.split_asm)
    have "sv_current_zone s2 = sv_current_zone s"
      using s1 on_zone_tables[of cur "zone_remove_client_deferred c" s s1] on_zone_tables[OF s2] by (auto split: if_splits)
    then have "sv_current_zone s' = um_assign (client_id cl) z (sv_current_zone s)"
      using send_tables[OF sent] by simp
    then have "lobby_of s' = (lobby_of s)(client_id cl \<mapsto> z)" by (auto simp: lobby_of_def)
    then have "lobby_step (um_contains (sv_zones s)) (Enters (client_id cl) z) (lobby_of s) = Some (lobby_of s')"
      using False cur by (simp add: lobby_of_def)
    then show ?thesis using cl z by blast
  qed
qed

lemma strand_refines:
  assumes step: "server_step token_ok now s = Some (Inr s')"
  shows "refines_lobby s s'"
proof -
  obtain j js where j: "sv_strand s = j # js" and exec: "server_exec token_ok now j (s\<lparr>sv_strand := js\<rparr>) = Some (Inr s')"
    using step by (auto simp: server_step_def split: list.splits)
  let ?s = "s\<lparr>sv_strand := js\<rparr>"
  show ?thesis
  proof (cases j)
    case (Sj_add c)
    then have "server_add_client c now ?s = Some (Inr s')" using exec by (simp add: server_exec_def)
    then show ?thesis
    proof (cases rule: add_client_cases)
      case (1 cl t d x)
      have "sv_current_zone s' = um_insert (client_id cl) 0 (sv_current_zone s)" by (simp add: 1(2,4) sv_set_client_def)
      then have "lobby_step (um_contains (sv_zones s)) (Connects (client_id cl)) (lobby_of s) = Some (lobby_of s')"
        by (auto simp: lobby_of_def um_find_insert)
      then show ?thesis using j Sj_add 1(1) unfolding refines_lobby_def by (fastforce simp: caused_by_def)
    qed
  next
    case (Sj_remove c)
    then have "server_remove_client c ?s = Some (Inr s')" using exec by (simp add: server_exec_def)
    then show ?thesis
    proof (cases rule: remove_client_cases)
      case (1 s1 cl zid s2)
      have t: "same_tables ?s s1" using same_tables_stop_client[OF 1(1)] .
      then have "map_option fst (ident (sv_store s) c) = map_option fst (ident (sv_store s1) c)"
        by (simp add: same_tables_def)
      then have id: "map_option client_id (sv_store s c) = Some (client_id cl)"
        using 1(2) by (auto simp: ident_apply)
      have "sv_current_zone s2 = sv_current_zone s"
        using 1(4) on_zone_tables[of zid "zone_post (Job_remove c)" s1 s2] t by (auto simp: same_tables_def split: if_splits)
      then have "lobby_of s' = (lobby_of s)(client_id cl := None)" by (auto simp: lobby_of_def 1(5))
      moreover have "lobby_of s (client_id cl) \<noteq> None" using 1(3) t by (simp add: lobby_of_def same_tables_def)
      ultimately have "lobby_step (um_contains (sv_zones s)) (Leaves (client_id cl)) (lobby_of s) = Some (lobby_of s')"
        by simp
      then show ?thesis using j Sj_remove id unfolding refines_lobby_def by (fastforce simp: caused_by_def)
    qed
  next
    case (Sj_packet c p)
    then have run: "s' = ?s \<or> server_handle_packet token_ok c p ?s = Some (Inr s')"
      using exec detached_Inr by (simp add: server_exec_def)
    show ?thesis
    proof (cases "sv_current_zone s' = sv_current_zone s")
      case True
      then show ?thesis by (rule refines_idle)
    next
      case False
      then have h: "server_handle_packet token_ok c p ?s = Some (Inr s')" using run by auto
      then obtain r where p: "p = In_PlayerEnterZoneRequest r" using other_packets_stay False by force
      then obtain location where r: "r = Some location" "handle_player_enter_zone_request c location ?s = Some (Inr s')"
        using h by (auto simp: server_handle_packet_def bind_eq_Some_conv)
      from enter_refines[OF r(2)] False obtain cl z where z: "location = Some z" "sv_store s c = Some cl"
        "lobby_step (um_contains (sv_zones s)) (Enters (client_id cl) z) (lobby_of s) = Some (lobby_of s')"
        by (auto simp: lobby_of_def)
      then have "caused_by (sv_strand s) (sv_store s) (Enters (client_id cl) z)"
        using j Sj_packet p r(1) by (simp add: caused_by_def)
      then show ?thesis using z(3) unfolding refines_lobby_def by blast
    qed
  next
    case Sj_cleanup
    then have "server_cleanup ?s = Some s'" using exec by (simp add: server_exec_def)
    then show ?thesis
    proof (cases rule: cleanup_cases)
      case (1 s1)
      have "sv_current_zone s1 = sv_current_zone s"
        by (rule fold_opt_invariant[OF 1(1), where P = "\<lambda>u. sv_current_zone u = sv_current_zone s"])
          (auto dest: stop_client_tables)
      then show ?thesis by (intro refines_idle) (simp add: 1(2))
    qed
  qed
qed

section \<open>The refinement\<close>

text \<open>C7. The server refines the lobby: every event, whatever runs on the workers, is one action of the lobby or
  none; a client is known from the job that adds it to the job that removes it; and it only ever changes its
  zone to one that exists, by a request of its own.\<close>

theorem server_refines_lobby:
  assumes "server_event token_ok shape_size gl s s'"
  shows "\<exists>act. lobby_step (um_contains (sv_zones s)) act (lobby_of s) = Some (lobby_of s')
    \<and> caused_by (sv_strand s) (sv_store s) act"
proof -
  have "refines_lobby s s'"
    using assms
  proof (induction rule: server_event.induct)
    case (accepted outcome s s')
    then obtain s1 where "s1 = s \<or> s1 = add_client_deferred True s" "s' = s1 \<or> s' = s1\<lparr>sv_accepting := False\<rparr>"
      using accept_cases by blast
    then show ?case by (intro refines_idle) (auto simp: add_client_deferred_def Let_def sv_post_def)
  next
    case (profiled ec now s s')
    then show ?case by (intro refines_idle) (auto simp: profiler_round_def split: if_splits)
  next
    case (received c bytes p now s s')
    then show ?case using same_tables_packet_received by (intro refines_idle) (auto simp: same_tables_def)
  next
    case (client s c cl evs cl')
    have "sv_current_zone (sv_client_events c evs (sv_set_client c cl' s)) = sv_current_zone (sv_set_client c cl' s)"
      using same_tables_events by (simp add: same_tables_def)
    then show ?case by (intro refines_idle) (simp add: sv_set_client_def)
  next
    case (strand now s s')
    then show ?case by (rule strand_refines)
  next
    case (joined db i s s')
    then obtain c js where f: "join_request_finish shape_size db c (s\<lparr>sv_joins := js\<rparr>) = Some s'"
      by (auto simp: join_resume_def split: if_splits)
    show ?case using same_tables_join_finish[OF f] by (intro refines_idle) (simp add: same_tables_def)
  next
    case (zone ti zid s s')
    then show ?case by (cases rule: server_zone_step_cases) (auto intro: refines_idle)
  next
    case (waited ev a s s')
    then show ?case by (cases rule: machine_step_cases) (auto intro: refines_idle)
  qed
  then show ?thesis by (simp add: refines_lobby_def)
qed

lemma connect_script_ends:
  "case scripted_run [Sc_start, Sc_accept] of None \<Rightarrow> False | Some s \<Rightarrow> sv_strand s = [Sj_add 0]
     \<and> sv_current_zone s = [] \<and> map_option client_id (sv_store s 0) = Some 1
     \<and> (case server_step same_string 0 s of Some (Inr s') \<Rightarrow> um_find (sv_current_zone s') 1 = Some 0 | _ \<Rightarrow> False)"
  by code_simp

theorem server_refines_lobby_witness:
  "\<exists>s s'. server_event same_string zero3 sample_glm s s' \<and> sv_strand s = [Sj_add 0]
     \<and> lobby_step (um_contains (sv_zones s)) (Connects 1) (lobby_of s) = Some (lobby_of s') \<and> lobby_of s' 1 = Some 0"
proof -
  obtain s s' where s: "sv_strand s = [Sj_add 0]" "sv_current_zone s = []" "map_option client_id (sv_store s 0) = Some 1"
    "server_step same_string 0 s = Some (Inr s')" "um_find (sv_current_zone s') 1 = Some 0"
    using connect_script_ends by (auto split: option.split_asm sum.split_asm)
  have e: "server_event same_string zero3 sample_glm s s'" using server_event.strand[OF s(4)] .
  from server_refines_lobby[OF e] obtain act where
    act: "lobby_step (um_contains (sv_zones s)) act (lobby_of s) = Some (lobby_of s')" "caused_by (sv_strand s) (sv_store s) act"
    by blast
  have "act \<noteq> Idles"
  proof
    assume "act = Idles"
    then have "lobby_of s 1 = lobby_of s' 1" using act(1) by simp
    then show False using s(2,5) by (simp add: lobby_of_def um_find_def)
  qed
  then have "act = Connects 1"
    using act(2) s(1,3) by (cases act) (auto simp: caused_by_def)
  then have "lobby_step (um_contains (sv_zones s)) (Connects 1) (lobby_of s) = Some (lobby_of s')" using act(1) by blast
  moreover have "lobby_of s' 1 = Some 0" using s(5) by (simp add: lobby_of_def)
  ultimately show ?thesis using e s(1) by blast
qed

end
