(* ===== verification/Ownership.thy ===== *)
theory Ownership
  imports Lobby
begin

text \<open>
  Lifetimes. The model's objects stay in its stores forever; the code's are destroyed when the last
  \<open>shared_ptr\<close> to them goes. This theory says which objects still have an owner: \<open>client_owned\<close> and
  \<open>entity_owned\<close> list every place of the program that keeps a \<open>shared_ptr\<close> between two steps. It has the
  destructors of \<open>Client\<close> and \<open>Connection\<close>, and shows where the code reaches an object without an owner
  through a reference that does not own: the \<open>this\<close> of a coroutine, or a raw pointer.
\<close>

section \<open>Owners\<close>

text \<open>The lambdas on the strand of the server, and on the strand of a zone, that capture the client.\<close>

fun job_owns :: "addr \<Rightarrow> server_job \<Rightarrow> bool" where
  "job_owns c (Sj_add d) \<longleftrightarrow> d = c"
| "job_owns c (Sj_remove d) \<longleftrightarrow> d = c"
| "job_owns c (Sj_packet d _) \<longleftrightarrow> d = c"
| "job_owns c Sj_cleanup \<longleftrightarrow> False"

fun zone_job_owns :: "addr \<Rightarrow> zone_job \<Rightarrow> bool" where
  "zone_job_owns c Job_tick \<longleftrightarrow> False"
| "zone_job_owns c (Job_add d) \<longleftrightarrow> d = c"
| "zone_job_owns c (Job_remove d) \<longleftrightarrow> d = c"
| "zone_job_owns c (Job_packet d _) \<longleftrightarrow> d = c"

text \<open>A client: the table of the server, the jobs of its strand, the coroutines that wait for the database, the
  members of a zone and the jobs of its strand; a destroyed zone has jobs left, but no members.\<close>

definition client_owned :: "server \<Rightarrow> addr \<Rightarrow> bool" where
  "client_owned s c \<longleftrightarrow>
     c \<in> set (um_values (sv_clients s)) \<or> list_ex (job_owns c) (sv_strand s) \<or> c \<in> set (map fst (sv_joins s))
     \<or> list_ex (\<lambda>z. c \<in> set (um_values (zn_clients z)) \<or> list_ex (zone_job_owns c) (zn_strand z)) (um_values (sv_zones s))
     \<or> list_ex (\<lambda>z. list_ex (zone_job_owns c) (zn_strand z)) (sv_freed s)"

text \<open>An entity: the \<open>player\<close> of a client that has an owner, or the table of a subworld.\<close>

definition entity_owned :: "server \<Rightarrow> addr \<Rightarrow> bool" where
  "entity_owned s a \<longleftrightarrow>
     list_ex (\<lambda>c. client_owned s c \<and> client_player (sv_store s) c = Some a) [0..<sv_next_addr s]
     \<or> list_ex (\<lambda>z. a \<in> set (um_values (sw_entities (zn_subworld z)))) (um_values (sv_zones s))"

section \<open>Destructors\<close>

text \<open>The callback that a client gives its connection calls \<open>shared_from_this\<close>, which throws once the last owner
  is gone; an exception that leaves a destructor terminates the process.\<close>

definition expired_callback :: "conn_event list \<Rightarrow> unit result" where
  "expired_callback evs = (if Disconnected \<in> set evs then Inl Bad_weak_ptr else Inr ())"

definition connection_destroy :: "connection \<Rightarrow> unit result" where
  "connection_destroy cn = expired_callback (snd (disconnect cn))"

definition client_destroy :: "client \<Rightarrow> unit result" where
  "client_destroy cl =
     (case client_stop cl of (cl', evs) \<Rightarrow>
        bind_sum (expired_callback evs) (\<lambda>_. connection_destroy (cl_connection cl')))"

text \<open>At the end of \<open>main\<close>: the destructor of the server finds it stopped and does nothing; then every owner is
  destroyed, the jobs that did not run included.\<close>

definition server_destroy :: "server \<Rightarrow> unit result" where
  "server_destroy s =
     for_each (\<lambda>c _. case sv_store s c of None \<Rightarrow> Inr () | Some cl \<Rightarrow> client_destroy cl)
       (filter (client_owned s) [0..<sv_next_addr s]) ()"

lemma client_destroy_eq: "client_destroy cl = (if linked cl then Inl Bad_weak_ptr else Inr ())"
  by (auto simp: client_destroy_def client_stop_def connection_destroy_def expired_callback_def disconnect_def
      linked_def bind_sum_def split: sum.split)

lemma for_each_unit:
  "for_each body xs () = Inr () \<longleftrightarrow> (\<forall>x \<in> set xs. body x () = Inr ())"
  by (induction xs) (auto split: sum.split)

lemma for_each_throws:
  "(\<And>x e. body x () = Inl e \<Longrightarrow> e = ex) \<Longrightarrow> for_each body xs () = Inl e \<Longrightarrow> e = ex"
  by (induction xs) (auto split: sum.split_asm)

lemma server_destroy_eq:
  "server_destroy s =
     (if \<exists>c cl. c < sv_next_addr s \<and> client_owned s c \<and> sv_store s c = Some cl \<and> linked cl
      then Inl Bad_weak_ptr else Inr ())"
proof -
  let ?body = "\<lambda>c (_ :: unit). case sv_store s c of None \<Rightarrow> Inr () | Some cl \<Rightarrow> client_destroy cl"
  have "server_destroy s = Inr () \<longleftrightarrow>
      \<not> (\<exists>c cl. c < sv_next_addr s \<and> client_owned s c \<and> sv_store s c = Some cl \<and> linked cl)"
    unfolding server_destroy_def for_each_unit by (auto simp: client_destroy_eq split: option.splits)
  moreover have "e = Bad_weak_ptr" if "server_destroy s = Inl e" for e
  proof (rule for_each_throws[of ?body])
    show "\<And>c e. ?body c () = Inl e \<Longrightarrow> e = Bad_weak_ptr"
      by (auto simp: client_destroy_eq split: option.splits if_splits)
    show "for_each ?body (filter (client_owned s) [0..<sv_next_addr s]) () = Inl e"
      using that by (simp add: server_destroy_def)
  qed
  ultimately show ?thesis by (cases "server_destroy s") auto
qed

section \<open>A connected client has an owner\<close>

lemma after_sources: "c \<in> after K js \<Longrightarrow> c \<in> K \<or> Sj_add c \<in> set js"
proof (induction js arbitrary: K)
  case (Cons j js)
  then show ?case by (cases j) (auto simp: job_effect_def dest!: Cons.IH)
qed simp

lemma linked_owned:
  assumes reach: "server_reach token_ok sz gl s V" and n: "sv_next_addr s < 2 ^ 32"
    and cl: "sv_store s c = Some cl" "linked cl"
  shows "client_owned s c"
proof -
  let ?ids = "views client_id (sv_store s)"
  have lv: "live (sv_strand s) (sv_current_zone s) ?ids (views linked (sv_store s)) (sv_next_addr s) (sv_next_id s)"
    using server_reach_live[OF reach] n by (simp add: live_server_def)
  have inv: "server_inv s V" using server_reach_inv[OF reach] .
  have "views linked (sv_store s) c = Some True" using cl by (simp add: views_def)
  then have "c \<in> after (known (sv_current_zone s) ?ids) (sv_strand s)" using live_dest(2)[OF lv] by blast
  from after_sources[OF this] show ?thesis
  proof
    assume "Sj_add c \<in> set (sv_strand s)"
    then have "list_ex (job_owns c) (sv_strand s)" unfolding list_ex_iff by (intro bexI[of _ "Sj_add c"]) simp_all
    then show ?thesis by (simp add: client_owned_def)
  next
    assume "c \<in> known (sv_current_zone s) ?ids"
    then have "um_contains (sv_current_zone s) (client_id cl)" using cl(1) by (auto simp: known_def views_def)
    moreover have "um.keys (sv_clients s) = um.keys (sv_current_zone s)"
      using inv unfolding server_inv_iff um2.agree_def by blast
    ultimately obtain d where d: "um_find (sv_clients s) (client_id cl) = Some d"
      unfolding um.keys_def um_contains_def by blast
    then have "map_option fst (ident (sv_store s) d) = Some (client_id cl)" using inv unfolding server_inv_iff by blast
    then have "?ids d = Some (client_id cl)" by (auto simp: ident_apply views_def)
    moreover have "?ids c = Some (client_id cl)" using cl(1) by (simp add: views_def)
    ultimately have "d = c" using ids_unique[OF lv n] by blast
    then have "c \<in> set (um_values (sv_clients s))" using um_find_in_values[OF d] by simp
    then show ?thesis by (simp add: client_owned_def)
  qed
qed

text \<open>C15. No client is destroyed while its connection is up: a client that no owner is left of has disconnected, so
  its destructor and that of its connection, which would call back through \<open>shared_from_this\<close>, have nothing to
  report and do not throw.\<close>

theorem destroyed_clients_disconnected:
  assumes "server_reach token_ok sz gl s V" "sv_next_addr s < 2 ^ 32"
    and "sv_store s c = Some cl" "\<not> client_owned s c"
  shows "\<not> linked cl \<and> client_destroy cl = Inr ()"
  using linked_owned[OF assms(1-3)] assms(4) by (auto simp: client_destroy_eq)

text \<open>A client is refused and removed.\<close>

definition refused_script :: "scripted list" where
  "refused_script = [Sc_start, Sc_accept, Sc_strand, Sc_read 0,
     Sc_packet 0 (In_ClientJoinRequest (Some \<lparr>jr_username = Some ''u'', jr_character_name = Some ''n'', jr_token = Some ''v''\<rparr>)),
     Sc_strand, Sc_strand]"

lemma refused_script_ends:
  "case scripted_run refused_script of None \<Rightarrow> False | Some s \<Rightarrow> \<not> client_owned s 0 \<and> sv_next_addr s = 1
     \<and> (case sv_store s 0 of None \<Rightarrow> False | Some cl \<Rightarrow> cn_reader (cl_connection cl) = Reading_header)"
  by code_simp

lemma refused_state:
  obtains s V cl where "server_reach same_string zero3 sample_glm s V" "sv_next_addr s < 2 ^ 32" "sv_store s 0 = Some cl"
    "\<not> client_owned s 0" "cn_reader (cl_connection cl) = Reading_header"
proof -
  obtain s cl where s: "scripted_run refused_script = Some s" "\<not> client_owned s 0" "sv_next_addr s = 1"
    "sv_store s 0 = Some cl" "cn_reader (cl_connection cl) = Reading_header"
    using refused_script_ends by (auto split: option.split_asm)
  obtain V where "server_reach same_string zero3 sample_glm s V" using scripted_run_reach[OF s(1)] by blast
  then show thesis using that s by simp
qed

theorem destroyed_clients_disconnected_witness:
  "\<exists>s V cl. server_reach same_string zero3 sample_glm s V \<and> sv_store s 0 = Some cl \<and> \<not> client_owned s 0
     \<and> client_destroy cl = Inr ()"
proof -
  obtain s V cl where r: "server_reach same_string zero3 sample_glm s V" "sv_next_addr s < 2 ^ 32" "sv_store s 0 = Some cl"
    "\<not> client_owned s 0" "cn_reader (cl_connection cl) = Reading_header"
    by (rule refused_state)
  from destroyed_clients_disconnected[OF r(1-4)] r show ?thesis by blast
qed

section \<open>References that do not own\<close>

text \<open>The coroutine that reads from a connection outlives the client: it captures the connection's \<open>this\<close> and is
  no owner. There is a run after which the last owner of a client is gone, while its reader still waits for a
  header; when the closed socket completes that read, the reader calls \<open>disconnect\<close> on the destroyed connection.\<close>

theorem reader_outlives_client:
  "\<exists>s V cl. server_reach same_string zero3 sample_glm s V \<and> sv_store s 0 = Some cl \<and> \<not> client_owned s 0
     \<and> cn_reader (cl_connection cl) = Reading_header
     \<and> (\<forall>bl. conn_exec bl (A_reader None) (cl_connection cl) = Some (reader_give_up (cl_connection cl)))"
proof -
  obtain s V cl where r: "server_reach same_string zero3 sample_glm s V" "sv_store s 0 = Some cl" "\<not> client_owned s 0"
    "cn_reader (cl_connection cl) = Reading_header"
    by (rule refused_state)
  moreover have "conn_exec bl (A_reader None) (cl_connection cl) = Some (reader_give_up (cl_connection cl))" for bl
    using r(4) by (simp add: conn_exec_def reader_step_def header_done_def)
  ultimately show ?thesis by blast
qed

text \<open>Zone 1 has one free cell; a client enters it, and the monster of the zone finds its player and chases it. Then a
  malformed packet stops the client, and the server and the zone remove it. All distances are 1.\<close>

definition open_files :: "u32 \<Rightarrow> zone_file" where
  "open_files i =
     (if i = 1 then File_verified \<lparr>zd_size_x = 1, zd_size_z = 1, zd_grid = Some [False]\<rparr>
      else File_unreadable)"

definition joins :: "addr \<Rightarrow> scripted list" where
  "joins c =
     [Sc_packet c (In_ClientJoinRequest (Some \<lparr>jr_username = Some ''u'', jr_character_name = Some ''n'', jr_token = Some ''u''\<rparr>)),
      Sc_strand, Sc_join 0, Sc_packet c (In_PlayerEnterZoneRequest (Some (Some 1))), Sc_strand]"

definition chase_script :: "scripted list" where
  "chase_script = [Sc_start, Sc_accept, Sc_strand] @ joins 0
     @ [Sc_zone 1, Sc_zone_at 1 100, Sc_bad_packet 0, Sc_strand, Sc_zone_at 1 100, Sc_zone 1]"

definition flat_glm :: glm where
  "flat_glm = sample_glm\<lparr>g_distance := (\<lambda>a b. if a = b then F_zero False else f_lit 1)\<rparr>"

definition step_with :: "glm \<Rightarrow> scripted \<Rightarrow> server \<Rightarrow> server option" where
  "step_with gl ev s =
     (case ev of
        Sc_zone zid \<Rightarrow> the_ok (server_zone_step gl (inputs_at 0) zid s)
      | Sc_zone_at zid t \<Rightarrow> the_ok (server_zone_step gl (inputs_at t) zid s)
      | _ \<Rightarrow> script_step ev s)"

definition run_on :: "(u32 \<Rightarrow> zone_file) \<Rightarrow> scripted list \<Rightarrow> server option" where
  "run_on files evs = Option.bind (the_ok (server_init zero3 files (server_new empty_world))) (fold_opt (step_with flat_glm) evs)"

definition chases :: "server \<Rightarrow> addr \<Rightarrow> addr option" where
  "chases s a =
     (case entity_at (wd_heap (sv_world s)) a of
        None \<Rightarrow> None
      | Some e \<Rightarrow> (case en_class e of
            Monster_class d \<Rightarrow> if mo_state d = CHASING then mo_chasing_target d else None
          | Player_class _ \<Rightarrow> None))"


lemma run_on_reach:
  assumes "run_on files evs = Some s"
  shows "\<exists>V. server_reach same_string zero3 flat_glm s V"
proof -
  obtain s0 where init: "the_ok (server_init zero3 files (server_new empty_world)) = Some s0"
    and run: "fold_opt (step_with flat_glm) evs s0 = Some s"
    using assms unfolding run_on_def bind_eq_Some_conv by blast
  have "server_reach same_string zero3 flat_glm s0 {}" using server_reach.created[OF init[unfolded the_ok_Some]] .
  then show ?thesis
    by (intro fold_opt_invariant[OF run, where P = "\<lambda>s. \<exists>V. server_reach same_string zero3 flat_glm s V"])
      (blast, erule exE, case_tac x, auto simp: step_with_def the_ok_Some intro: server_reach.intros script_read_reach)
qed

lemma chase_script_ends:
  "case run_on open_files chase_script of None \<Rightarrow> False | Some s \<Rightarrow>
     (case um_find (sv_zones s) 1 of None \<Rightarrow> False | Some z \<Rightarrow>
        (case um_find (sw_entities (zn_subworld z)) 1 of None \<Rightarrow> False | Some a \<Rightarrow>
           (case chases s a of None \<Rightarrow> False | Some t \<Rightarrow> \<not> entity_owned s t)))"
  by code_simp

lemma freed_target_undefined:
  assumes "chases s a = Some t"
  shows "simple_monster_tick gl pick tie now z a ((wd_heap (sv_world s))(t := None), cs) = None"
proof -
  obtain e d where e: "entity_at (wd_heap (sv_world s)) a = Some e" "en_class e = Monster_class d" "mo_state d = CHASING"
    "mo_chasing_target d = Some t"
    using assms by (auto simp: chases_def split: option.split_asm entity_class.split_asm if_split_asm)
  have gone: "target_gone sw d ((wd_heap (sv_world s))(t := None)) = None" for sw
    using e(4) by (simp add: target_gone_def entity_at_def)
  have "entity_at ((wd_heap (sv_world s))(t := None)) a = (if a = t then None else Some e)"
    using e(1) by (simp add: entity_at_def)
  then show ?thesis
    using e(2,3) gone by (simp add: simple_monster_tick_def monster_chasing_def bind_eq_None_conv)
qed

text \<open>C26. The target of a monster may be freed while it is chased: \<open>_chasing_target\<close> is a raw pointer. There is a run in
  which a client leaves, the last owner of its player goes with it, and the monster of zone 1 still chases that
  player; once the player is destroyed, the next tick of the monster, which first reads the target's id,
  has no defined behaviour.\<close>

theorem chased_player_freed:
  "\<exists>s V z a t. server_reach same_string zero3 flat_glm s V \<and> um_find (sv_zones s) 1 = Some z
     \<and> um_find (sw_entities (zn_subworld z)) 1 = Some a \<and> chases s a = Some t \<and> \<not> entity_owned s t
     \<and> (\<forall>gl pick tie now cs. simple_monster_tick gl pick tie now z a ((wd_heap (sv_world s))(t := None), cs) = None)"
proof -
  obtain s z a t where s: "run_on open_files chase_script = Some s" "um_find (sv_zones s) 1 = Some z"
    "um_find (sw_entities (zn_subworld z)) 1 = Some a" "chases s a = Some t" "\<not> entity_owned s t"
    using chase_script_ends by (auto split: option.split_asm)
  then show ?thesis using run_on_reach[OF s(1)] freed_target_undefined[OF s(4)] by blast
qed

section \<open>The end of the process\<close>

lemma main_serves:
  assumes "main_entry h = Some (Serving s)"
  shows "sv_strand s = []" "sv_running s" "sv_accepting s" "sv_clients s = []"
proof -
  obtain fist s0 where "loader_load_all (hs_parse h) (hs_files h) (hs_data_root h) = Inr fist"
    and "server_init (attack_shape_size fist) (hs_zone_files h) (server_new empty_world) = Some (Inr s0)"
    and "s = server_start s0"
    using assms by (auto simp: main_entry_cases split: option.splits sum.splits if_splits)
  then show "sv_strand s = []" "sv_running s" "sv_accepting s" "sv_clients s = []"
    using server_init_monster[of _ _ s0] server_init_tables[of _ _ _ s0] by (fastforce simp: server_start_def)+
qed

lemma late_client_terminates:
  assumes boot: "main_entry h = Some (Serving s0)"
  shows "\<exists>s. process_reach jwt_ok gl h (Exit_success s) \<and> server_destroy s = Inl Bad_weak_ptr"
proof -
  note s0 = main_serves[OF boot]
  let ?tok = "jwt_ok (jwt_key_of h)" and ?c = "sv_next_addr s0"
  let ?s2 = "(add_client_deferred True (server_stop s0))\<lparr>sv_accepting := False\<rparr>"
  let ?s3 = "?s2\<lparr>sv_strand := [Sj_add ?c], sv_zones := [], sv_freed := sv_freed s0 @ map zone_stop (um_values (sv_zones s0))\<rparr>"
  have accept: "accept_round (Accepted True) (server_stop s0) = Some ?s2"
    using s0 by (simp add: accept_round_def server_stop_def sv_post_def add_client_deferred_def Let_def)
  have clean: "server_step ?tok 0 ?s2 = Some (Inr ?s3)"
    using s0 by (simp add: server_stop_def sv_post_def add_client_deferred_def Let_def server_step_def server_exec_def
        server_cleanup_def um_values_def)
  have "process_step ?tok (shape_of h) gl (Stopping (server_stop s0)) (Stopping ?s2)"
    by (rule process_step.stops[OF server_event.accepted[OF accept]]) simp
  moreover have "process_step ?tok (shape_of h) gl (Stopping ?s2) (Stopping ?s3)"
    by (rule process_step.stops[OF server_event.strand[OF clean]])
  moreover have "process_step ?tok (shape_of h) gl (Stopping ?s3) (Exit_success ?s3)"
    by (rule process_step.returns) (simp add: cleanup_done_def)
  ultimately have "process_reach jwt_ok gl h (Exit_success ?s3)"
    using process_reach.step[OF process_reach.booted[OF boot] process_step.signal] process_reach.step by metis
  moreover have "server_destroy ?s3 = Inl Bad_weak_ptr"
    by (auto simp: server_destroy_eq client_owned_def linked_def client_new_def connection_new_def add_client_deferred_def
        sv_post_def Let_def server_stop_def s0)
  ultimately show ?thesis by blast
qed

text \<open>C29. The process may end with \<open>std::terminate\<close> instead of \<open>EXIT_SUCCESS\<close>: on every host on which it serves, there is
  a run in which a connection is accepted while the server stops. The clean-up does not see its client, which is
  added behind it; at the end of \<open>main\<close> the destructor of that client's connection disconnects, calls back, and
  \<open>shared_from_this\<close> throws out of the destructor.\<close>

theorem exit_may_terminate:
  assumes "main_entry h = Some (Serving s0)"
  shows "\<exists>s. process_reach jwt_ok gl h (Exit_success s) \<and> server_destroy s = Inl Bad_weak_ptr"
  using assms by (rule late_client_terminates)

theorem exit_may_terminate_witness:
  "\<exists>s. process_reach (\<lambda>_. same_string) sample_glm sample_host (Exit_success s) \<and> server_destroy s = Inl Bad_weak_ptr"
proof -
  obtain s0 where "main_entry sample_host = Some (Serving s0)" by (rule sample_host_serves)
  then show ?thesis by (rule exit_may_terminate)
qed

end
