(* ===== verification/Spec2Isabelle.thy ===== *)
theory Spec2Isabelle
  imports Unit_Tests Player_States Containers Ownership
begin

text \<open>
  Tower is the server of an online game (\<open>src/tower\<close>). Clients connect over TCP, join with a token and a
  character, and enter a zone. A zone owns a piece of the world (a grid of obstacles, the entities on it and
  their colliders) and moves it on every 100 ms; players walk and hit, monsters chase them. This development
  models the program file by file and proves what its parts promise to each other.

  How the program runs. Handlers are posted to strands (one for the server, one per zone, one per connection)
  and each strand runs its jobs in order. Here a strand is a list of jobs in the state of its owner, posting
  appends to it, and one step runs the first job. Coroutines are cut at their \<open>co_await\<close>s into one
  definition per piece. A run is an inductive predicate over such steps in any order
  (\<open>conn_run\<close>, \<open>zone_reach\<close>, \<open>server_reach\<close>, \<open>process_reach\<close>); what the sockets, the clock, the database, the token verifier
  and the flatbuffers verifier answer is an argument of the step.

  Conventions. \<open>None\<close> is undefined behaviour or a loop that does not end; \<open>Inl\<close> is a C++ exception, \<open>Inr\<close> a
  result. \<open>int\<close> is a mathematical integer whose overflow is \<open>None\<close>; \<open>uint32_t\<close>, \<open>size_t\<close> are words.
  Floats are the 32-bit patterns of \<open>F32\<close>, with addition, comparison and the conversions computed as IEEE 754
  says; the transcendental functions of glm are a record of parameters (\<open>glm\<close>). Shared objects live in a heap
  of addresses. An \<open>unordered_map\<close> is an association list, so its iteration order is the order of the list and
  theorems that do not mention it hold for every order.

  Theories and sources.
  \<^item> \<open>Prelude\<close>: exceptions, results, loops with \<open>for_each\<close> and \<open>fold_opt\<close>, integer conversions.
  \<^item> \<open>Grid\<close>: \<open>system/container/grid.hpp\<close>. \<open>Open_Queue\<close>, \<open>Search_Space\<close>, \<open>Astar\<close>, \<open>Jps\<close>, \<open>Astar_Correct\<close>,
    \<open>Pathfinder\<close>: \<open>world/path_finder.hpp\<close>. A* is sound, complete and optimal for its costs and always returns;
    the jump point search returns valid paths when it returns, and there is a grid on which it does not.
  \<^item> \<open>F32\<close>: binary32. \<open>Umap\<close>: \<open>std::unordered_map\<close>. \<open>Containers\<close>: \<open>concurrent_map.hpp\<close>, \<open>concurrent_queue.hpp\<close>,
    refined to partial functions and to queues.
  \<^item> \<open>State_Machine\<close>: \<open>system/state.hpp\<close>, \<open>state_machine.hpp\<close>. \<open>Timer\<close>: \<open>system/timer.hpp\<close>. \<open>Profiler\<close>:
    \<open>network/profiler.hpp\<close>. \<open>Settings\<close>: \<open>system/settings.cpp\<close>.
  \<^item> \<open>Objects\<close>: what a node of the scene can be. \<open>Node_Tree\<close>: \<open>world/node.hpp\<close>. \<open>Collision\<close>: \<open>physics\<close>.
    \<open>Entities\<close>: \<open>entity/entity.hpp\<close>, \<open>item\<close>, and the factories. \<open>Players\<close>: \<open>player\<close>.
  \<^item> \<open>Subworld\<close>, \<open>Subworld_Correct\<close>: \<open>world/subworld.cpp\<close>. A tick moves entities to free cells only, and the
    contact table is exact afterwards.
  \<^item> \<open>Connection\<close>, \<open>Client\<close>: \<open>network/connection.cpp\<close>, \<open>client.cpp\<close>. Frames arrive in order, a disconnect is
    announced once, a silent client is stopped and a beating one is not.
  \<^item> \<open>Melee_Attack\<close>: \<open>skill/melee_attack.hpp\<close>. \<open>Monster\<close>: \<open>entity/simple_monster.cpp\<close>.
  \<^item> \<open>Zone_State\<close>, \<open>Zone\<close>, \<open>Zone_Correct\<close>: \<open>network/zone.cpp\<close>. A zone runs exactly while it has clients, its
    ticks are throttled, and who is told what when a client comes or goes.
  \<^item> \<open>Client_Views\<close>: zones only send to clients (a locale, instantiated with what the server relies on).
  \<^item> \<open>Server\<close>, \<open>Server_Steps\<close>, \<open>Server_Correct\<close>, \<open>Server_Live\<close>, \<open>Server_Zones\<close>: \<open>network/server.cpp\<close>. The tables of the
    server are consistent, no packet of an unverified client reaches a zone, no job of the strand throws, the
    idle server knows exactly its connected clients, and the zones agree with its table.
  \<^item> \<open>Typing\<close>, \<open>Typing_Combat\<close>, \<open>Typing_World\<close>, \<open>Typing_Zone\<close>, \<open>Typing_Monster\<close>, \<open>Typing_Jobs\<close>, \<open>Typing_Throws\<close>: a type
    discipline for the heap. \<open>typing\<close> gives the class of the object at an address; \<open>heap_typed\<close> says that every
    pointer of an object points to a live object of the class that the code casts it to, that the scene is a
    forest, and that the health, the machine and the position of every entity are in range. Every operation of
    the zones and the factories keeps it, and on a typed heap the jobs return (\<open>job_defined\<close> lists what else
    can go wrong) and throw nothing.
  \<^item> \<open>Server_Typed\<close>: every state the server can reach is typed, in any interleaving, the steps of the delayed
    transitions included.
  \<^item> \<open>Boot\<close>, \<open>Process\<close>: \<open>main.cpp\<close>, \<open>item/loader.cpp\<close>. How \<open>main\<close> can end before it serves; what it serves is a
    state of \<open>server_reach\<close>; a signal ends the process after boundedly many turns of the server's strand, with no
    zone left; and no handler ends it with an exception.
  \<^item> \<open>Lobby\<close>: the abstract contract of the server towards its clients, a partial function from ids to zones, and the
    simulation: every event of the server is an action of the lobby with its cause, or none.
  \<^item> \<open>Ownership\<close>: which places of the program keep a \<open>shared_ptr\<close> to a client and to an entity, and the destructors of
    \<open>client.cpp\<close> and \<open>connection.cpp\<close>. In every reachable state a connected client has an owner. Three runs end where
    the code reaches an object without one: a reading coroutine, a monster that chases, and the end of \<open>main\<close>.
  \<^item> \<open>Player_States\<close>: \<open>player/state\<close>. \<open>Unit_Tests\<close>: \<open>world/path_finder.test.cpp\<close>.

  Interfaces are locales with interpretations on the model: the queue of the path finder, the search space,
  finite maps (\<open>um\<close>, \<open>um2\<close>), the containers, the views of a client.

  Bounds. Loops that may not end are partial functions (\<open>jump\<close>, the climbs of the scene tree, the searches) and
  their termination is proved on well-formed inputs; nothing uses fuel. The ids of clients are 32-bit words, so
  what rests on their uniqueness assumes fewer than \<open>2\<^sup>3\<^sup>2\<close> accepted clients.

  Not modelled. Of \<open>main.cpp\<close> the log lines, the parameters of the database pool and the threads themselves;
  \<open>system/probe.hpp\<close> (a class that only prints), \<open>units.hpp\<close>, \<open>game/modifier.hpp\<close>, \<open>server_shared_state.hpp\<close> and
  \<open>packet.hpp\<close> (aliases and plain structs), \<open>Stat::update\<close> (it only sends SQL, is never called, and would not
  compile if it were), the section "JPS path found" of the unit test, and log lines everywhere.
  Data races between strands are outside the model: a step is atomic. The awaits of a join on the database
  are one step, because nothing of the program's state is read between them. The steps of the model free no
  object, so a typed heap does not exclude a raw pointer to an object that the code has destroyed: what is
  destroyed is what has no owner in \<open>Ownership\<close>. The jobs of destroyed zones do not run in the model.
\<close>

end
